(* ===== verification/Prelude.thy ===== *)
theory Prelude
  imports Main "HOL-Library.Word" "HOL-Library.Char_ord" "HOL-Library.List_Lexorder"
    "HOL-Library.AList" "HOL-Library.Sublist"
begin

text \<open>
  Shared vocabulary of the development: the C++ integer and character types, the
  \<open>std::string_view\<close> searches, number formatting, and the two associative containers
  the library uses (\<open>std::map\<close> as an association list ordered by a comparison,
  \<open>std::unordered_map\<close> as an association list without order).  Strings are HOL strings:
  a \<open>char\<close> is one byte, as in C++.
\<close>

unbundle bit_operations_syntax

named_theorems sv_simps \<open>searching and cutting string views\<close>
named_theorems container_simps \<open>lookups after container updates\<close>

section \<open>Characters and bytes\<close>

type_synonym u8 = "8 word"
type_synonym u16 = "16 word"
type_synonym u32 = "32 word"
type_synonym u64 = "64 word"

definition char_byte :: "char \<Rightarrow> u8" where
  "char_byte c = of_char c"

definition byte_char :: "u8 \<Rightarrow> char" where
  "byte_char b = char_of (unat b)"

text \<open>
  The value of a plain \<open>char\<close> in an integer context.  Plain \<open>char\<close> is signed on the
  platform the build files target (GCC or Clang on x86), so bytes from 128 on are negative.
\<close>

definition char_int :: "char \<Rightarrow> int" where
  "char_int c = (let n = of_char c in if n < 128 then n else n - 256)"

lemma unat_char_byte [simp]: "unat (char_byte c) = of_char c"
proof -
  have "(of_char c :: nat) < 256"
    using nat_of_char_less_256 by simp
  moreover have "char_byte c = word_of_nat (of_char c)"
    by (simp add: char_byte_def of_nat_of_char)
  ultimately show ?thesis
    by (simp add: unat_of_nat)
qed

lemma byte_char_char_byte [simp]: "byte_char (char_byte c) = c"
  by (simp add: byte_char_def)

lemma char_byte_byte_char [simp]: "char_byte (byte_char b) = b"
proof -
  have "unat b < 256"
    using unsigned_less [of b] by simp
  then have "unat (char_byte (byte_char b)) = unat b"
    by (simp add: byte_char_def)
  then show ?thesis
    by (simp only: word_unat_eq_iff)
qed

lemma char_byte_eq_iff: "char_byte c = char_byte d \<longleftrightarrow> c = d"
  by (metis byte_char_char_byte)

lemma byte_char_eq_iff: "byte_char a = byte_char b \<longleftrightarrow> a = b"
  by (metis char_byte_byte_char)

lemma map_byte_char_inv [simp]: "map byte_char (map char_byte s) = s"
  by (induction s) simp_all

lemma map_char_byte_inv [simp]: "map char_byte (map byte_char bs) = bs"
  by (induction bs) simp_all

section \<open>Masks and shifts on words, read as numbers\<close>

lemma take_bit_unat: "take_bit LENGTH('a) (unat (b :: 'a::len word)) = unat b"
  by (rule take_bit_nat_eq_self) (rule unsigned_less)

lemma word_of_nat_unat: "word_of_nat (unat (b :: 'a::len word)) = b"
  by (simp add: word_unat_eq_iff)

lemma and_high_bits: "b AND NOT (mask n) = push_bit n (drop_bit n (b :: 'a::len word))"
  by (rule bit_word_eqI) (auto simp: bit_simps)

lemma unat_and_high: "unat (b AND NOT (mask n)) = unat (b :: 'a::len word) div 2 ^ n * 2 ^ n"
proof -
  have *: "unat b div 2 ^ n * 2 ^ n < 2 ^ LENGTH('a)"
    by (meson div_times_less_eq_dividend le_less_trans unsigned_less)
  have "unat (b AND NOT (mask n)) = take_bit LENGTH('a) (push_bit n (drop_bit n (unat b)))"
    by (simp only: and_high_bits unsigned_push_bit_eq unsigned_drop_bit_eq take_bit_unat)
  also have "\<dots> = unat b div 2 ^ n * 2 ^ n"
    using * by (simp add: take_bit_nat_eq_self push_bit_eq_mult drop_bit_eq_div)
  finally show ?thesis .
qed

lemma unat_and_low: "unat (b AND mask n) = unat (b :: 'a::len word) mod 2 ^ n"
  by (simp only: take_bit_eq_mask [symmetric] unsigned_take_bit_eq) (simp add: take_bit_eq_mod)

lemma unat_drop: "unat (drop_bit n (b :: 'a::len word)) = unat b div 2 ^ n"
  by (simp only: unsigned_drop_bit_eq take_bit_unat) (simp add: drop_bit_eq_div)

section \<open>String views\<close>

text \<open>
  \<open>sv_find_if P pos s\<close> is the common core of \<open>find\<close>, \<open>find_first_of\<close> and
  \<open>find_first_not_of\<close>: the least index from \<open>pos\<close> on whose character satisfies
  \<open>P\<close>, and \<open>None\<close> for \<open>npos\<close>.
\<close>

definition sv_find_if :: "(char \<Rightarrow> bool) \<Rightarrow> nat \<Rightarrow> string \<Rightarrow> nat option" where
  "sv_find_if P pos s = List.find (\<lambda>i. P (s ! i)) [pos..<length s]"

definition sv_find :: "char \<Rightarrow> nat \<Rightarrow> string \<Rightarrow> nat option" where
  "sv_find c = sv_find_if (\<lambda>x. x = c)"

definition sv_find_first_not_of :: "char \<Rightarrow> nat \<Rightarrow> string \<Rightarrow> nat option" where
  "sv_find_first_not_of c = sv_find_if (\<lambda>x. x \<noteq> c)"

text \<open>\<open>substr(pos, n)\<close>; a missing or \<open>npos\<close> length takes the rest.\<close>

definition sv_substr :: "nat \<Rightarrow> nat option \<Rightarrow> string \<Rightarrow> string" where
  "sv_substr pos n s = (case n of None \<Rightarrow> drop pos s | Some k \<Rightarrow> take k (drop pos s))"

lemma find_map: "List.find P (map f xs) = map_option f (List.find (\<lambda>x. P (f x)) xs)"
  by (induction xs) simp_all

lemma sv_find_if_Nil [sv_simps]: "sv_find_if P pos [] = None"
  by (simp add: sv_find_if_def)

lemma sv_find_if_Cons [sv_simps]:
  "sv_find_if P 0 (x # s) = (if P x then Some 0 else map_option Suc (sv_find_if P 0 s))"
proof -
  have "[0..<length (x # s)] = 0 # map Suc [0..<length s]"
    by (simp add: map_Suc_upt upt_conv_Cons del: upt_Suc)
  then show ?thesis
    by (simp add: sv_find_if_def find_map del: upt_Suc)
qed

lemma sv_find_if_0:
  "sv_find_if P 0 s =
    (if \<exists>x\<in>set s. P x then Some (length (takeWhile (\<lambda>x. \<not> P x) s)) else None)"
  by (induction s) (auto simp: sv_simps)

lemma sv_find_if_from: "sv_find_if P pos s = map_option (\<lambda>i. i + pos) (sv_find_if P 0 (drop pos s))"
proof (cases "pos \<le> length s")
  case True
  then have "[pos..<length s] = map (\<lambda>i. i + pos) [0..<length (drop pos s)]"
    by (simp only: map_add_upt length_drop) simp
  with True show ?thesis
    by (simp add: sv_find_if_def find_map comp_def add.commute [of pos])
next
  case False
  then show ?thesis by (simp add: sv_find_if_def)
qed

lemma take_length_takeWhile [simp]: "take (length (takeWhile P s)) s = takeWhile P s"
  by (metis append_eq_conv_conj takeWhile_dropWhile_id)

lemma drop_length_takeWhile [simp]: "drop (length (takeWhile P s)) s = dropWhile P s"
  by (metis append_eq_conv_conj takeWhile_dropWhile_id)

lemma drop_Suc_length_takeWhile [simp]:
  "drop (Suc (length (takeWhile P s))) s = tl (dropWhile P s)"
  by (metis drop_Suc drop_length_takeWhile tl_drop)

lemma no_separator_cut:
  "c \<notin> set s \<Longrightarrow> takeWhile (\<lambda>x. x \<noteq> c) s = s"
  "c \<notin> set s \<Longrightarrow> dropWhile (\<lambda>x. x \<noteq> c) s = []"
  by (induction s) auto

lemma sv_find_0:
  "sv_find c 0 s = (if c \<in> set s then Some (length (takeWhile (\<lambda>x. x \<noteq> c) s)) else None)"
  by (simp add: sv_find_def sv_find_if_0)

text \<open>Cutting a view at the first occurrence of a character.\<close>

lemma sv_substr_find [sv_simps]:
  "sv_substr 0 (sv_find c 0 s) s = takeWhile (\<lambda>x. x \<noteq> c) s"
  by (auto simp: sv_substr_def sv_find_0 intro!: sym [of "takeWhile _ _"] takeWhile_eq_all_conv [THEN iffD2])

section \<open>Numbers as text\<close>

definition digit_char :: "nat \<Rightarrow> char" where
  "digit_char d = ''0123456789abcdef'' ! d"

fun digits :: "nat \<Rightarrow> nat \<Rightarrow> string" where
  "digits b n = (if b < 2 \<or> n < b then [digit_char n]
                 else digits b (n div b) @ [digit_char (n mod b)])"

declare digits.simps [simp del]

text \<open>\<open>std::to_chars\<close> and \<open>std::to_string\<close> of an integer, base ten.\<close>

definition to_chars :: "int \<Rightarrow> string" where
  "to_chars i = (if i < 0 then ''-'' @ digits 10 (nat (- i)) else digits 10 (nat i))"

lemma digits_nonempty [simp]: "digits b n \<noteq> []"
  by (subst digits.simps) simp

lemma digits_length:
  "2 \<le> b \<Longrightarrow> n < b ^ k \<Longrightarrow> 0 < k \<Longrightarrow> length (digits b n) \<le> k"
proof (induction b n arbitrary: k rule: digits.induct)
  case (1 b n)
  show ?case
  proof (cases "n < b")
    case True
    with "1.prems" show ?thesis by (subst digits.simps) simp
  next
    case False
    with "1.prems" obtain j where k: "k = Suc j" and j: "0 < j"
      by (cases k; cases "k - 1") (auto simp: gr0_conv_Suc)
    from "1.prems" k have "n div b < b ^ j"
      by (simp add: less_mult_imp_div_less mult.commute)
    with "1.IH" "1.prems"(1) False j have "length (digits b (n div b)) \<le> j"
      by simp
    with False "1.prems"(1) k show ?thesis
      by (subst digits.simps) simp
  qed
qed

section \<open>Associative containers\<close>

text \<open>
  \<open>std::map\<close>: the entries in the order of the comparison; two keys neither of which is
  less than the other count as the same key, and \<open>emplace\<close> keeps an existing entry.
\<close>

type_synonym ('k, 'v) smap = "('k \<times> 'v) list"

fun smap_emplace ::
  "('k \<Rightarrow> 'k \<Rightarrow> bool) \<Rightarrow> 'k \<Rightarrow> 'v \<Rightarrow> ('k, 'v) smap \<Rightarrow> ('k, 'v) smap" where
  "smap_emplace lt k v [] = [(k, v)]"
| "smap_emplace lt k v ((k', v') # m) =
     (if lt k k' then (k, v) # (k', v') # m
      else if lt k' k then (k', v') # smap_emplace lt k v m
      else (k', v') # m)"

fun smap_assign ::
  "('k \<Rightarrow> 'k \<Rightarrow> bool) \<Rightarrow> 'k \<Rightarrow> 'v \<Rightarrow> ('k, 'v) smap \<Rightarrow> ('k, 'v) smap" where
  "smap_assign lt k v [] = [(k, v)]"
| "smap_assign lt k v ((k', v') # m) =
     (if lt k k' then (k, v) # (k', v') # m
      else if lt k' k then (k', v') # smap_assign lt k v m
      else (k', v) # m)"

declare smap_emplace.simps(2) [simp del] smap_assign.simps(2) [simp del]

definition smap_find :: "('k \<Rightarrow> 'k \<Rightarrow> bool) \<Rightarrow> 'k \<Rightarrow> ('k, 'v) smap \<Rightarrow> 'v option" where
  "smap_find lt k m =
     map_option snd (List.find (\<lambda>e. \<not> lt k (fst e) \<and> \<not> lt (fst e) k) m)"

text \<open>
  What the containers need of a comparison: it is the order of a key function into a linear
  order, so that equivalence of keys is equality of their images.
\<close>

locale keyed_order =
  fixes lt :: "'k \<Rightarrow> 'k \<Rightarrow> bool"
    and key :: "'k \<Rightarrow> 'o::linorder"
  assumes lt_key: "lt a b \<longleftrightarrow> key a < key b"
begin

lemma find_Nil: "smap_find lt k [] = None"
  by (simp add: smap_find_def)

lemma find_Cons:
  "smap_find lt k ((k', v) # m) = (if key k' = key k then Some v else smap_find lt k m)"
  by (auto simp: smap_find_def lt_key not_less)

lemma emplace_Cons:
  "smap_emplace lt k v ((k', v') # m) =
     (if key k < key k' then (k, v) # (k', v') # m
      else if key k' < key k then (k', v') # smap_emplace lt k v m
      else (k', v') # m)"
  by (simp only: smap_emplace.simps lt_key [of k k'] lt_key [of k' k])

lemma assign_Cons:
  "smap_assign lt k v ((k', v') # m) =
     (if key k < key k' then (k, v) # (k', v') # m
      else if key k' < key k then (k', v') # smap_assign lt k v m
      else (k', v) # m)"
  by (simp only: smap_assign.simps lt_key [of k k'] lt_key [of k' k])

lemmas smap_rules = find_Nil find_Cons emplace_Cons assign_Cons

lemma find_same_key: "key k = key k' \<Longrightarrow> smap_find lt k m = smap_find lt k' m"
  by (simp add: smap_find_def lt_key)

lemma find_below:
  "\<forall>e\<in>set m. key k < key (fst e) \<Longrightarrow> smap_find lt k m = None"
  by (induction m) (auto simp: smap_rules)

lemma find_emplace:
  "sorted_wrt (<) (map (key \<circ> fst) m) \<Longrightarrow>
   smap_find lt k (smap_emplace lt k' v m) =
    (if key k = key k' then (case smap_find lt k m of None \<Rightarrow> Some v | Some w \<Rightarrow> Some w)
     else smap_find lt k m)"
proof (induction m)
  case Nil
  then show ?case by (simp add: smap_rules)
next
  case (Cons e m)
  obtain k0 v0 where e: "e = (k0, v0)" by (cases e)
  have "smap_find lt k m = None" if "key k < key k0"
    using that Cons.prems e by (intro find_below) auto
  then show ?case
    using Cons by (auto simp: e smap_rules split: option.splits)
qed

lemma find_assign:
  "smap_find lt k (smap_assign lt k' v m) =
    (if key k = key k' then Some v else smap_find lt k m)"
  by (induction m) (auto simp: smap_rules)

lemma keys_emplace:
  "set (map (key \<circ> fst) (smap_emplace lt k v m)) = insert (key k) (set (map (key \<circ> fst) m))"
proof (induction m)
  case (Cons e m)
  then show ?case by (cases e) (auto simp: emplace_Cons simp del: set_map)
qed simp

lemma keys_assign:
  "set (map (key \<circ> fst) (smap_assign lt k v m)) = insert (key k) (set (map (key \<circ> fst) m))"
proof (induction m)
  case (Cons e m)
  then show ?case by (cases e) (auto simp: assign_Cons simp del: set_map)
qed simp

lemma sorted_emplace:
  "sorted_wrt (<) (map (key \<circ> fst) m) \<Longrightarrow>
   sorted_wrt (<) (map (key \<circ> fst) (smap_emplace lt k v m))"
proof (induction m)
  case (Cons e m)
  then show ?case
    using keys_emplace [of k v m] by (cases e) (auto simp: emplace_Cons)
qed simp

text \<open>The container as a map from keys' images to values.\<close>

lemma find_assoc:
  "smap_find lt k m = map_of (map (\<lambda>e. (key (fst e), snd e)) m) (key k)"
  by (induction m) (auto simp: smap_rules)

lemma assoc_emplace:
  "sorted_wrt (<) (map (key \<circ> fst) m) \<Longrightarrow>
   map_of (map (\<lambda>e. (key (fst e), snd e)) (smap_emplace lt k v m)) =
   [key k \<mapsto> v] ++ map_of (map (\<lambda>e. (key (fst e), snd e)) m)"
proof (induction m)
  case (Cons e m)
  obtain k0 v0 where e: "e = (k0, v0)" by (cases e)
  let ?map = "\<lambda>m. map_of (map (\<lambda>e. (key (fst e), snd e)) m)"
  consider "key k < key k0" | "key k0 < key k" | "key k = key k0"
    by fastforce
  then show ?case
  proof cases
    case 1
    then have "?map (e # m) (key k) = None"
      using Cons.prems e by (auto simp: map_of_eq_None_iff)
    then have "[key k \<mapsto> v] ++ ?map (e # m) = (?map (e # m))(key k \<mapsto> v)"
      by (auto simp: map_add_def fun_eq_iff split: option.splits)
    moreover have "?map (smap_emplace lt k v (e # m)) = (?map (e # m))(key k \<mapsto> v)"
      using 1 by (simp add: e smap_rules)
    ultimately show ?thesis by (simp only:)
  next
    case 2
    then have "\<not> key k < key k0" by simp
    with 2 have "?map (smap_emplace lt k v (e # m)) = (?map (smap_emplace lt k v m))(key k0 \<mapsto> v0)"
      by (simp add: e smap_rules)
    also have "\<dots> = [key k \<mapsto> v] ++ (?map m)(key k0 \<mapsto> v0)"
      using Cons by (simp only: list.map sorted_wrt.simps simp_thms map_add_upd)
    finally show ?thesis by (simp only: e list.map map_of.simps fst_conv snd_conv)
  next
    case 3
    then show ?thesis by (auto simp: e smap_rules map_add_def fun_eq_iff split: option.splits)
  qed
qed (simp add: smap_rules)

lemma assign_nonempty: "smap_assign lt k v m \<noteq> []"
  by (cases m) (auto simp: assign_Cons split: if_splits)

end

text \<open>
  \<open>std::unordered_map\<close>: \<open>emplace\<close> keeps an existing entry, \<open>operator[]\<close> followed by
  an assignment replaces it, \<open>find\<close> is \<open>map_of\<close>.
\<close>

definition umap_emplace :: "'k \<Rightarrow> 'v \<Rightarrow> ('k \<times> 'v) list \<Rightarrow> ('k \<times> 'v) list" where
  "umap_emplace k v m = (case map_of m k of None \<Rightarrow> m @ [(k, v)] | Some _ \<Rightarrow> m)"

lemma map_of_umap_emplace [container_simps]:
  "map_of (umap_emplace k v m) k' =
    (if k' = k then (case map_of m k of None \<Rightarrow> Some v | Some w \<Rightarrow> Some w) else map_of m k')"
  by (auto simp: umap_emplace_def map_add_def split: option.splits)

lemma distinct_umap_emplace:
  "distinct (map fst m) \<Longrightarrow> distinct (map fst (umap_emplace k v m))"
  by (auto simp: umap_emplace_def map_of_eq_None_iff split: option.splits)

end
