(* ===== verification/SymbolTable.thy ===== *)
theory SymbolTable
  imports Prelude
begin

text \<open>
  \<open>symbol_server.cpp\<close>, \<open>symbol.h\<close>, \<open>symbol.cpp\<close> and \<open>symbols.cpp\<close>: the table
  that turns strings into numbers.  The state is the vector of strings, where a string's index
  is its number, and the hash index from strings to numbers.  The character pointers of the
  vector are modelled by the strings they point to; number 0 is the empty string.
\<close>

section \<open>The server's state and operations\<close>

type_synonym symbol = u32

record symtab =
  st_strings :: "string list"
  st_index :: "(string \<times> symbol) list"

definition insert_defaults :: "symtab \<Rightarrow> symtab" where
  "insert_defaults tab =
    tab\<lparr>st_strings := st_strings tab @ [''''],
        st_index := AList.update '''' 0 (st_index tab)\<rparr>"

definition new_server :: symtab where
  "new_server = insert_defaults \<lparr>st_strings = [], st_index = []\<rparr>"

definition server_clear :: "symtab \<Rightarrow> symtab" where
  "server_clear tab = insert_defaults \<lparr>st_strings = [], st_index = []\<rparr>"

definition check_internalization :: "string \<Rightarrow> symtab \<Rightarrow> bool \<times> symbol" where
  "check_internalization str tab =
    (if str = '''' then (True, 0)
     else case map_of (st_index tab) str of
       Some n \<Rightarrow> (True, n)
     | None \<Rightarrow> (False, 0))"

text \<open>
  \<open>internalize\<close> has two critical sections: a lookup under the shared lock, and, when that
  missed, a second lookup and the insertion under the exclusive lock.  The new number is the
  vector's size cut to 32 bits.
\<close>

definition internalize_read :: "string \<Rightarrow> symtab \<Rightarrow> symbol option" where
  "internalize_read str tab =
    (if str = '''' then Some 0 else map_of (st_index tab) str)"

definition internalize_write :: "string \<Rightarrow> symtab \<Rightarrow> symbol \<times> symtab" where
  "internalize_write str tab =
    (case map_of (st_index tab) str of
       Some n \<Rightarrow> (n, tab)
     | None \<Rightarrow>
         (let new_index = word_of_nat (length (st_strings tab)) in
          (new_index,
           tab\<lparr>st_strings := st_strings tab @ [str],
               st_index := AList.update str new_index (st_index tab)\<rparr>)))"

definition internalize :: "string \<Rightarrow> symtab \<Rightarrow> symbol \<times> symtab" where
  "internalize str tab =
    (case internalize_read str tab of
       Some n \<Rightarrow> (n, tab)
     | None \<Rightarrow> internalize_write str tab)"

text \<open>Outside the vector the release build answers a marker string (the debug build asserts).\<close>

definition invalid_symbol_text :: string where
  "invalid_symbol_text = ''!!! invalid symbol !!!''"

definition resolve :: "symbol \<Rightarrow> symtab \<Rightarrow> string" where
  "resolve n tab =
    (if unat n < length (st_strings tab) then st_strings tab ! unat n else invalid_symbol_text)"

section \<open>Symbols\<close>

definition symbol_null :: symbol where
  "symbol_null = 0"

definition symbol_maybe :: "string \<Rightarrow> symtab \<Rightarrow> symbol" where
  "symbol_maybe str tab = snd (check_internalization str tab)"

text \<open>
  \<open>compare\<close>: 0 for equal numbers, else the sign of the byte-wise comparison of the
  strings; HOL's list order on \<open>string\<close> is that comparison.
\<close>

definition sv_compare :: "string \<Rightarrow> string \<Rightarrow> int" where
  "sv_compare a b = (if a < b then -1 else if b < a then 1 else 0)"

definition symbol_compare :: "symtab \<Rightarrow> symbol \<Rightarrow> symbol \<Rightarrow> int" where
  "symbol_compare tab a b =
    (if a = b then 0 else sv_compare (resolve a tab) (resolve b tab))"

definition symbol_less :: "symtab \<Rightarrow> symbol \<Rightarrow> symbol \<Rightarrow> bool" where
  "symbol_less tab a b \<longleftrightarrow> symbol_compare tab a b < 0"

definition symbol_bool :: "symbol \<Rightarrow> bool" where
  "symbol_bool s \<longleftrightarrow> s \<noteq> 0"

text \<open>
  \<open>to_cstring\<close> hands out the stored characters, which a C string ends at the first zero
  byte.  Copying keeps the number; moving leaves the empty symbol behind.
\<close>

definition symbol_to_cstring :: "symbol \<Rightarrow> symtab \<Rightarrow> string" where
  "symbol_to_cstring s tab = takeWhile (\<lambda>c. c \<noteq> CHR 0x00) (resolve s tab)"

definition symbol_move :: "symbol \<Rightarrow> symbol \<times> symbol" where
  "symbol_move other = (other, symbol_null)"

section \<open>The library's own symbols\<close>

fun internalize_all :: "string list \<Rightarrow> symtab \<Rightarrow> symbol list \<times> symtab" where
  "internalize_all [] tab = ([], tab)"
| "internalize_all (s # ss) tab =
     (let (n, tab) = internalize s tab; (ns, tab) = internalize_all ss tab in (n # ns, tab))"

text \<open>\<open>symbols.cpp\<close> initialises its globals in this order, on a fresh server.\<close>

definition builtin_names :: "string list" where
  "builtin_names =
    [''Status'', ''Content-Length'', ''Content-Type'', ''CONTENT_TYPE'', ''CONTENT_LENGTH'',
     ''REQUEST_METHOD'', ''REQUEST_SCHEME'', ''QUERY_STRING'', ''SCRIPT_NAME'', ''DOCUMENT_URI'',
     ''PATH_INFO'', ''REMOTE_ADDR'', ''REMOTE_PORT'', ''HTTP_USER_AGENT'', ''HTTP_DNT'',
     ''GET'', ''PUT'', ''POST'', ''HEAD'', ''PATCH'',
     ''TRACE'', ''DELETE'', ''CONNECT'', ''OPTIONS'', ''api'',
     ''*'']"

definition boot_symbols :: "symbol list \<times> symtab" where
  "boot_symbols = internalize_all builtin_names new_server"

definition sym_Status :: symbol where
  "sym_Status = fst boot_symbols ! 0"

definition sym_ContentLength :: symbol where
  "sym_ContentLength = fst boot_symbols ! 1"

definition sym_ContentType :: symbol where
  "sym_ContentType = fst boot_symbols ! 2"

definition sym_CONTENT_TYPE :: symbol where
  "sym_CONTENT_TYPE = fst boot_symbols ! 3"

definition sym_CONTENT_LENGTH :: symbol where
  "sym_CONTENT_LENGTH = fst boot_symbols ! 4"

definition sym_REQUEST_METHOD :: symbol where
  "sym_REQUEST_METHOD = fst boot_symbols ! 5"

definition sym_REQUEST_SCHEME :: symbol where
  "sym_REQUEST_SCHEME = fst boot_symbols ! 6"

definition sym_QUERY_STRING :: symbol where
  "sym_QUERY_STRING = fst boot_symbols ! 7"

definition sym_SCRIPT_NAME :: symbol where
  "sym_SCRIPT_NAME = fst boot_symbols ! 8"

definition sym_DOCUMENT_URI :: symbol where
  "sym_DOCUMENT_URI = fst boot_symbols ! 9"

definition sym_PATH_INFO :: symbol where
  "sym_PATH_INFO = fst boot_symbols ! 10"

definition sym_REMOTE_ADDR :: symbol where
  "sym_REMOTE_ADDR = fst boot_symbols ! 11"

definition sym_REMOTE_PORT :: symbol where
  "sym_REMOTE_PORT = fst boot_symbols ! 12"

definition sym_HTTP_USER_AGENT :: symbol where
  "sym_HTTP_USER_AGENT = fst boot_symbols ! 13"

definition sym_HTTP_DNT :: symbol where
  "sym_HTTP_DNT = fst boot_symbols ! 14"

definition sym_GET :: symbol where
  "sym_GET = fst boot_symbols ! 15"

definition sym_PUT :: symbol where
  "sym_PUT = fst boot_symbols ! 16"

definition sym_POST :: symbol where
  "sym_POST = fst boot_symbols ! 17"

definition sym_HEAD :: symbol where
  "sym_HEAD = fst boot_symbols ! 18"

definition sym_PATCH :: symbol where
  "sym_PATCH = fst boot_symbols ! 19"

definition sym_TRACE :: symbol where
  "sym_TRACE = fst boot_symbols ! 20"

definition sym_DELETE :: symbol where
  "sym_DELETE = fst boot_symbols ! 21"

definition sym_CONNECT :: symbol where
  "sym_CONNECT = fst boot_symbols ! 22"

definition sym_OPTIONS :: symbol where
  "sym_OPTIONS = fst boot_symbols ! 23"

definition sym_api :: symbol where
  "sym_api = fst boot_symbols ! 24"

definition sym_wildcard :: symbol where
  "sym_wildcard = fst boot_symbols ! 25"

definition boot_table :: symtab where
  "boot_table = snd boot_symbols"

lemma boot_symbols_numbers: "fst boot_symbols =
    [1, 2, 3, 4, 5, 6, 7, 8, 9, 10, 11, 12, 13, 14, 15, 16, 17, 18, 19, 20, 21, 22, 23, 24, 25, 26]"
  by code_simp

lemma boot_table_strings: "st_strings boot_table = '''' # builtin_names"
  by code_simp

lemma sym_values:
  "sym_Status = 1"
  "sym_ContentLength = 2"
  "sym_ContentType = 3"
  "sym_CONTENT_TYPE = 4"
  "sym_CONTENT_LENGTH = 5"
  "sym_REQUEST_METHOD = 6"
  "sym_REQUEST_SCHEME = 7"
  "sym_QUERY_STRING = 8"
  "sym_SCRIPT_NAME = 9"
  "sym_DOCUMENT_URI = 10"
  "sym_PATH_INFO = 11"
  "sym_REMOTE_ADDR = 12"
  "sym_REMOTE_PORT = 13"
  "sym_HTTP_USER_AGENT = 14"
  "sym_HTTP_DNT = 15"
  "sym_GET = 16"
  "sym_PUT = 17"
  "sym_POST = 18"
  "sym_HEAD = 19"
  "sym_PATCH = 20"
  "sym_TRACE = 21"
  "sym_DELETE = 22"
  "sym_CONNECT = 23"
  "sym_OPTIONS = 24"
  "sym_api = 25"
  "sym_wildcard = 26"
  by (simp_all add: boot_symbols_numbers
    sym_Status_def sym_ContentLength_def sym_ContentType_def sym_CONTENT_TYPE_def
    sym_CONTENT_LENGTH_def sym_REQUEST_METHOD_def sym_REQUEST_SCHEME_def sym_QUERY_STRING_def
    sym_SCRIPT_NAME_def sym_DOCUMENT_URI_def sym_PATH_INFO_def sym_REMOTE_ADDR_def
    sym_REMOTE_PORT_def sym_HTTP_USER_AGENT_def sym_HTTP_DNT_def sym_GET_def
    sym_PUT_def sym_POST_def sym_HEAD_def sym_PATCH_def
    sym_TRACE_def sym_DELETE_def sym_CONNECT_def sym_OPTIONS_def
    sym_api_def sym_wildcard_def)

section \<open>Well-formed tables\<close>

text \<open>
  The vector starts with the empty string and repeats nothing, its size fits the number type,
  and the index is the inverse of the vector.  \<open>st_room\<close> counts the free numbers.
\<close>

definition symtab_wf :: "symtab \<Rightarrow> bool" where
  "symtab_wf tab \<longleftrightarrow>
     st_strings tab \<noteq> [] \<and> hd (st_strings tab) = '''' \<and>
     distinct (st_strings tab) \<and> length (st_strings tab) \<le> 2 ^ 32 \<and>
     (\<forall>s n. map_of (st_index tab) s = Some n \<longleftrightarrow>
        unat n < length (st_strings tab) \<and> st_strings tab ! unat n = s)"

definition st_room :: "symtab \<Rightarrow> nat" where
  "st_room tab = 2 ^ 32 - length (st_strings tab)"

definition symbol_valid :: "symtab \<Rightarrow> symbol \<Rightarrow> bool" where
  "symbol_valid tab n \<longleftrightarrow> unat n < length (st_strings tab)"

lemma symtab_wf_index:
  "symtab_wf tab \<Longrightarrow> map_of (st_index tab) s = Some n \<longleftrightarrow>
    unat n < length (st_strings tab) \<and> st_strings tab ! unat n = s"
  by (simp add: symtab_wf_def)

lemma symtab_wf_index_None:
  assumes wf: "symtab_wf tab"
  shows "map_of (st_index tab) s = None \<longleftrightarrow> s \<notin> set (st_strings tab)"
proof
  assume none: "map_of (st_index tab) s = None"
  show "s \<notin> set (st_strings tab)"
  proof
    assume "s \<in> set (st_strings tab)"
    then obtain i where i: "i < length (st_strings tab)" "st_strings tab ! i = s"
      by (auto simp: in_set_conv_nth)
    have "i < 2 ^ 32" using wf i by (simp add: symtab_wf_def)
    then have "unat (word_of_nat i :: symbol) = i" by (simp add: unat_of_nat)
    then have "map_of (st_index tab) s = Some (word_of_nat i)"
      using symtab_wf_index [OF wf] i by simp
    with none show False by simp
  qed
next
  assume "s \<notin> set (st_strings tab)"
  then show "map_of (st_index tab) s = None"
    using symtab_wf_index [OF wf, of s] by (metis nth_mem option.exhaust)
qed

lemma symtab_wf_empty: "symtab_wf tab \<Longrightarrow> map_of (st_index tab) '''' = Some 0"
  by (simp add: symtab_wf_index) (metis hd_conv_nth length_greater_0_conv symtab_wf_def)

lemma symtab_wf_new: "symtab_wf new_server"
  by (auto simp: symtab_wf_def new_server_def insert_defaults_def word_unat_eq_iff)

lemma symtab_wf_clear: "symtab_wf (server_clear tab)"
  using symtab_wf_new by (simp add: server_clear_def new_server_def insert_defaults_def)

lemma internalize_write_hit:
  assumes "symtab_wf tab" "s \<in> set (st_strings tab)"
  shows "\<exists>n. internalize_write s tab = (n, tab) \<and> symbol_valid tab n \<and> resolve n tab = s"
proof -
  obtain n where "map_of (st_index tab) s = Some n"
    using symtab_wf_index_None [OF assms(1), of s] assms(2) by blast
  then show ?thesis
    using symtab_wf_index [OF assms(1), of s n]
    by (auto simp: internalize_write_def symbol_valid_def resolve_def)
qed

lemma internalize_write_miss:
  assumes wf: "symtab_wf tab" and room: "0 < st_room tab" and new: "s \<notin> set (st_strings tab)"
  obtains n tab' where "internalize_write s tab = (n, tab')" "symtab_wf tab'"
    "st_strings tab' = st_strings tab @ [s]" "unat n = length (st_strings tab)"
proof -
  define n where "n = (word_of_nat (length (st_strings tab)) :: symbol)"
  define tab' where "tab' = tab\<lparr>st_strings := st_strings tab @ [s],
      st_index := AList.update s n (st_index tab)\<rparr>"
  have un: "unat n = length (st_strings tab)"
    using room by (simp add: n_def st_room_def unat_of_nat)
  have "internalize_write s tab = (n, tab')"
    using symtab_wf_index_None [OF wf, of s] new
    by (simp add: internalize_write_def n_def tab'_def Let_def)
  moreover have "symtab_wf tab'"
    using wf room new un symtab_wf_index [OF wf]
    unfolding symtab_wf_def tab'_def st_room_def
    by (auto simp: update_conv' nth_append hd_append word_unat_eq_iff less_Suc_eq)
  ultimately show ?thesis
    using that un by (simp add: tab'_def)
qed

text \<open>Every insertion extends the vector, so that numbers handed out stay good.\<close>

definition symtab_extends :: "symtab \<Rightarrow> symtab \<Rightarrow> bool" where
  "symtab_extends tab tab' \<longleftrightarrow> prefix (st_strings tab) (st_strings tab')"

lemma symtab_extends_refl [simp]: "symtab_extends tab tab"
  by (simp add: symtab_extends_def)

lemma symtab_extends_trans:
  "symtab_extends a b \<Longrightarrow> symtab_extends b c \<Longrightarrow> symtab_extends a c"
  unfolding symtab_extends_def by (rule prefix_order.trans)

lemma symtab_extends_keeps:
  "symtab_extends tab tab' \<Longrightarrow> symbol_valid tab n \<Longrightarrow>
   symbol_valid tab' n \<and> resolve n tab' = resolve n tab"
  by (auto simp: symtab_extends_def symbol_valid_def resolve_def prefix_def nth_append)

lemma internalize_write_spec:
  assumes "symtab_wf tab" "0 < st_room tab" "internalize_write s tab = (n, tab')"
  shows "symtab_wf tab'" "symbol_valid tab' n" "resolve n tab' = s" "symtab_extends tab tab'"
    "st_room tab \<le> Suc (st_room tab')" "s \<in> set (st_strings tab) \<Longrightarrow> tab' = tab"
proof -
  have "symtab_wf tab' \<and> symbol_valid tab' n \<and> resolve n tab' = s \<and> symtab_extends tab tab' \<and>
      st_room tab \<le> Suc (st_room tab') \<and> (s \<in> set (st_strings tab) \<longrightarrow> tab' = tab)"
  proof (cases "s \<in> set (st_strings tab)")
    case True
    then show ?thesis using internalize_write_hit [OF assms(1) True] assms by auto
  next
    case False
    obtain "symtab_wf tab'" "st_strings tab' = st_strings tab @ [s]"
      "unat n = length (st_strings tab)"
      by (rule internalize_write_miss [OF assms(1,2) False]) (use assms(3) in auto)
    with False show ?thesis
      by (simp add: symbol_valid_def resolve_def symtab_extends_def st_room_def)
  qed
  then show "symtab_wf tab'" "symbol_valid tab' n" "resolve n tab' = s" "symtab_extends tab tab'"
    "st_room tab \<le> Suc (st_room tab')" "s \<in> set (st_strings tab) \<Longrightarrow> tab' = tab"
    by simp_all
qed

lemma internalize_read_spec:
  assumes "symtab_wf tab" "internalize_read s tab = Some n"
  shows "symbol_valid tab n \<and> resolve n tab = s"
  using assms symtab_wf_empty [OF assms(1)]
  by (auto simp: internalize_read_def symbol_valid_def resolve_def symtab_wf_index
      split: if_splits)

lemma internalize_spec:
  assumes "symtab_wf tab" "0 < st_room tab" "internalize s tab = (n, tab')"
  shows "symtab_wf tab'" "symbol_valid tab' n" "resolve n tab' = s" "symtab_extends tab tab'"
    "st_room tab \<le> Suc (st_room tab')"
proof -
  have "symtab_wf tab' \<and> symbol_valid tab' n \<and> resolve n tab' = s \<and> symtab_extends tab tab' \<and>
      st_room tab \<le> Suc (st_room tab')"
  proof (cases "internalize_read s tab")
    case None
    then show ?thesis
      using assms internalize_write_spec [of tab s n tab'] by (simp add: internalize_def)
  next
    case (Some m)
    then show ?thesis
      using assms internalize_read_spec [OF assms(1) Some] by (auto simp: internalize_def)
  qed
  then show "symtab_wf tab'" "symbol_valid tab' n" "resolve n tab' = s" "symtab_extends tab tab'"
    "st_room tab \<le> Suc (st_room tab')"
    by simp_all
qed

lemma resolve_inj:
  "symtab_wf tab \<Longrightarrow> symbol_valid tab m \<Longrightarrow> symbol_valid tab n \<Longrightarrow>
   resolve m tab = resolve n tab \<Longrightarrow> m = n"
  by (auto simp: symtab_wf_def symbol_valid_def resolve_def nth_eq_iff_index_eq word_unat_eq_iff)

lemma symbol_maybe_spec:
  assumes "symtab_wf tab"
  shows "symbol_valid tab (symbol_maybe s tab)"
    and "resolve (symbol_maybe s tab) tab = (if s \<in> set (st_strings tab) then s else '''')"
proof -
  have "0 < length (st_strings tab)" "st_strings tab ! 0 = ''''"
    using assms by (auto simp: symtab_wf_def hd_conv_nth)
  then show "symbol_valid tab (symbol_maybe s tab)"
    and "resolve (symbol_maybe s tab) tab = (if s \<in> set (st_strings tab) then s else '''')"
    using symtab_wf_index_None [OF assms, of s] symtab_wf_index [OF assms, of s]
    by (auto simp: symbol_maybe_def check_internalization_def symbol_valid_def resolve_def
        split: option.splits)
qed

section \<open>The interface other components rely on\<close>

text \<open>
  What the request and the router use of the table: interning a string gives a symbol that
  names it, symbols handed out before keep their names, different symbols have different
  names, and asking without interning gives the null symbol for a string never interned.
\<close>

locale interner =
  fixes intern :: "string \<Rightarrow> 't \<Rightarrow> 'id \<times> 't"
    and name_of :: "'id \<Rightarrow> 't \<Rightarrow> string"
    and maybe :: "string \<Rightarrow> 't \<Rightarrow> 'id"
    and null :: 'id
    and wf :: "'t \<Rightarrow> bool"
    and valid :: "'t \<Rightarrow> 'id \<Rightarrow> bool"
    and room :: "'t \<Rightarrow> nat"
  assumes wf_intern: "wf t \<Longrightarrow> 0 < room t \<Longrightarrow> wf (snd (intern s t))"
    and valid_intern: "wf t \<Longrightarrow> 0 < room t \<Longrightarrow> valid (snd (intern s t)) (fst (intern s t))"
    and name_intern: "wf t \<Longrightarrow> 0 < room t \<Longrightarrow> name_of (fst (intern s t)) (snd (intern s t)) = s"
    and keep_valid: "wf t \<Longrightarrow> 0 < room t \<Longrightarrow> valid t n \<Longrightarrow> valid (snd (intern s t)) n"
    and keep_name:
      "wf t \<Longrightarrow> 0 < room t \<Longrightarrow> valid t n \<Longrightarrow> name_of n (snd (intern s t)) = name_of n t"
    and room_intern: "wf t \<Longrightarrow> 0 < room t \<Longrightarrow> room t \<le> Suc (room (snd (intern s t)))"
    and name_inj: "wf t \<Longrightarrow> valid t m \<Longrightarrow> valid t n \<Longrightarrow> name_of m t = name_of n t \<Longrightarrow> m = n"
    and maybe_valid: "wf t \<Longrightarrow> valid t (maybe s t)"
    and maybe_known: "wf t \<Longrightarrow> valid t n \<Longrightarrow> name_of n t = s \<Longrightarrow> name_of (maybe s t) t = s"
    and maybe_unknown: "wf t \<Longrightarrow> \<forall>n. valid t n \<longrightarrow> name_of n t \<noteq> s \<Longrightarrow> maybe s t = null"
begin

lemma maybe_finds: "wf t \<Longrightarrow> valid t n \<Longrightarrow> maybe (name_of n t) t = n"
  using maybe_known maybe_valid name_inj by metis

lemma intern_stable:
  assumes "wf t" "1 < room t"
  shows "fst (intern s (snd (intern s t))) = fst (intern s t)"
proof -
  let ?t = "snd (intern s t)"
  have t: "wf ?t" "0 < room ?t" "valid ?t (fst (intern s t))" "name_of (fst (intern s t)) ?t = s"
    using assms room_intern [of t s] by (auto intro: wf_intern valid_intern name_intern)
  then show ?thesis
    using name_inj [OF wf_intern [OF t(1,2)] valid_intern [OF t(1,2)] keep_valid [OF t(1,2,3)]]
      name_intern [OF t(1,2)] keep_name [OF t(1,2,3)] by simp
qed

lemma intern_eq_iff:
  assumes "wf t" "1 < room t"
  shows "fst (intern a t) = fst (intern b (snd (intern a t))) \<longleftrightarrow> a = b"
proof
  let ?t = "snd (intern a t)"
  have t: "wf ?t" "0 < room ?t" "valid ?t (fst (intern a t))" "name_of (fst (intern a t)) ?t = a"
    using assms room_intern [of t a] by (auto intro: wf_intern valid_intern name_intern)
  assume "fst (intern a t) = fst (intern b ?t)"
  then have "name_of (fst (intern a t)) (snd (intern b ?t)) = b"
    using name_intern [OF t(1,2)] by simp
  with keep_name [OF t(1,2,3), of b] t(4) show "a = b" by simp
qed (use intern_stable assms in simp)

lemma maybe_after_intern:
  "wf t \<Longrightarrow> 0 < room t \<Longrightarrow> maybe s (snd (intern s t)) = fst (intern s t)"
  using maybe_finds wf_intern valid_intern name_intern by metis

text \<open>Interning many strings, as the parse of the environment does.\<close>

lemma intern_fold:
  assumes "wf t" "length ss \<le> room t"
  shows "wf (fold (\<lambda>s t. snd (intern s t)) ss t)"
    and "valid t n \<Longrightarrow> valid (fold (\<lambda>s t. snd (intern s t)) ss t) n"
    and "valid t n \<Longrightarrow> name_of n (fold (\<lambda>s t. snd (intern s t)) ss t) = name_of n t"
    and "room t \<le> length ss + room (fold (\<lambda>s t. snd (intern s t)) ss t)"
  using assms
proof (induction ss arbitrary: t)
  case (Cons s ss)
  {
    case 1
    then show ?case using Cons.IH(1) [of "snd (intern s t)"] wf_intern room_intern [of t s] by force
  next
    case 2
    then show ?case
      using Cons.IH(2) [of "snd (intern s t)"] wf_intern keep_valid room_intern [of t s] by force
  next
    case 3
    then show ?case
      using Cons.IH(3) [of "snd (intern s t)"] wf_intern keep_valid keep_name room_intern [of t s]
      by force
  next
    case 4
    then show ?case
      using Cons.IH(4) [of "snd (intern s t)"] wf_intern room_intern [of t s] by force
  }
qed simp_all

end

interpretation sym: interner internalize resolve symbol_maybe symbol_null symtab_wf symbol_valid
  st_room
proof unfold_locales
  fix t s n m
  assume wf: "symtab_wf t"
  {
    assume room: "0 < st_room t"
    note spec = internalize_spec [OF wf room surjective_pairing, of s]
    show "symtab_wf (snd (internalize s t))" by (rule spec)
    show "symbol_valid (snd (internalize s t)) (fst (internalize s t))" by (rule spec)
    show "resolve (fst (internalize s t)) (snd (internalize s t)) = s" by (rule spec)
    show "st_room t \<le> Suc (st_room (snd (internalize s t)))" by (rule spec)
    assume "symbol_valid t n"
    with spec(4) show "symbol_valid (snd (internalize s t)) n"
      and "resolve n (snd (internalize s t)) = resolve n t"
      by (auto dest: symtab_extends_keeps)
  }
  show "symbol_valid t (symbol_maybe s t)" by (rule symbol_maybe_spec [OF wf])
  show "m = n" if "symbol_valid t m" "symbol_valid t n" "resolve m t = resolve n t"
    using resolve_inj [OF wf that] .
  show "resolve (symbol_maybe s t) t = s" if "symbol_valid t n" "resolve n t = s"
    using that symbol_maybe_spec(2) [OF wf, of s] by (auto simp: symbol_valid_def resolve_def)
  show "symbol_maybe s t = symbol_null" if "\<forall>n. symbol_valid t n \<longrightarrow> resolve n t \<noteq> s"
  proof -
    have "s \<noteq> '''' \<Longrightarrow> map_of (st_index t) s = None"
      using that symtab_wf_index [OF wf, of s]
      by (cases "map_of (st_index t) s") (auto simp: symbol_valid_def resolve_def)
    then show ?thesis
      by (auto simp: symbol_maybe_def check_internalization_def symbol_null_def)
  qed
qed

text \<open>The comparison orders symbols by their strings, on every table.\<close>

interpretation symord: keyed_order "symbol_less tab" "\<lambda>s. resolve s tab"
  by unfold_locales
    (auto simp: symbol_less_def symbol_compare_def sv_compare_def)

section \<open>The table at program start\<close>

lemma internalize_all_fold:
  "snd (internalize_all ss tab) = fold (\<lambda>s t. snd (internalize s t)) ss tab"
  by (induction ss arbitrary: tab) (auto simp: Let_def split_beta)

lemma symtab_wf_boot: "symtab_wf boot_table"
proof -
  have "length builtin_names \<le> st_room new_server"
    by (simp add: builtin_names_def st_room_def new_server_def insert_defaults_def)
  then show ?thesis
    using sym.intern_fold(1) [OF symtab_wf_new]
    by (simp add: boot_table_def boot_symbols_def internalize_all_fold)
qed

lemma boot_table_room: "1 < st_room boot_table"
  by (simp add: st_room_def boot_table_strings builtin_names_def)

text \<open>A table the program can be in: well formed, with the library's symbols in place.\<close>

definition symtab_ok :: "symtab \<Rightarrow> bool" where
  "symtab_ok tab \<longleftrightarrow> symtab_wf tab \<and> symtab_extends boot_table tab"

lemma symtab_ok_boot: "symtab_ok boot_table"
  by (simp add: symtab_ok_def symtab_wf_boot)

lemma symtab_ok_internalize:
  "symtab_ok tab \<Longrightarrow> 0 < st_room tab \<Longrightarrow> symtab_ok (snd (internalize s tab))"
  using internalize_spec [of tab s] surjective_pairing [of "internalize s tab"]
  unfolding symtab_ok_def by (metis symtab_extends_trans)

section \<open>Properties\<close>

text \<open>Two symbols are equal exactly when the strings they were made from are, and each
  keeps resolving to its string while further symbols are made.\<close>

theorem symbols_equal_iff_strings_equal:
  assumes "symtab_wf tab" "1 < st_room tab"
    and "internalize a tab = (m, tab1)" "internalize b tab1 = (n, tab2)"
  shows "(m = n \<longleftrightarrow> a = b) \<and> resolve m tab2 = a \<and> resolve n tab2 = b \<and> symtab_wf tab2"
proof -
  have room: "0 < st_room tab" using assms(2) by simp
  note t1 = internalize_spec [OF assms(1) room assms(3)]
  have room1: "0 < st_room tab1" using t1(5) assms(2) by simp
  note t2 = internalize_spec [OF t1(1) room1 assms(4)]
  have "resolve m tab2 = a"
    using symtab_extends_keeps [OF t2(4) t1(2)] t1(3) by simp
  moreover have "m = n \<longleftrightarrow> a = b"
    using sym.intern_eq_iff [OF assms(1,2), of a b] assms(3,4) by simp
  ultimately show ?thesis using t2 by simp
qed

theorem symbols_equal_iff_strings_equal_witness:
  "fst (internalize ''X-A'' boot_table) \<noteq>
    fst (internalize ''X-B'' (snd (internalize ''X-A'' boot_table)))"
  using symbols_equal_iff_strings_equal [OF symtab_wf_boot boot_table_room
    surjective_pairing surjective_pairing, of "''X-A''" "''X-B''"] by simp

text \<open>The comparison of valid symbols is a total order that agrees with equality of
  symbols, although it compares strings and equality compares numbers.\<close>

theorem symbol_compare_total:
  assumes "symtab_wf tab" "symbol_valid tab a" "symbol_valid tab b"
  shows "(symbol_compare tab a b = 0 \<longleftrightarrow> a = b) \<and>
    symbol_compare tab b a = - symbol_compare tab a b \<and>
    (symbol_less tab a b \<longleftrightarrow> resolve a tab < resolve b tab)"
proof (cases "a = b")
  case True
  then show ?thesis by (simp add: symord.lt_key symbol_compare_def)
next
  case False
  then have "resolve a tab \<noteq> resolve b tab" using resolve_inj [OF assms] by blast
  then consider "resolve a tab < resolve b tab" | "resolve b tab < resolve a tab"
    by (rule linorder_neqE)
  then show ?thesis
    using False by cases (simp_all add: symbol_compare_def sv_compare_def symbol_less_def not_less_iff_gr_or_eq)
qed

theorem symbol_compare_total_witness:
  "symbol_less boot_table sym_GET sym_Status \<and> \<not> symbol_less boot_table sym_Status sym_GET"
proof -
  have valid: "symbol_valid boot_table sym_GET" "symbol_valid boot_table sym_Status"
    by (simp_all add: symbol_valid_def sym_values boot_table_strings builtin_names_def)
  have lt: "resolve sym_GET boot_table < resolve sym_Status boot_table"
    by (simp add: resolve_def sym_values boot_table_strings builtin_names_def)
  note order = symbol_compare_total [OF symtab_wf_boot, THEN conjunct2, THEN conjunct2]
  show ?thesis
    unfolding order [OF valid] order [OF valid(2,1)] using lt by (rule conjI) (rule less_not_sym [OF lt])
qed

end
