(* ===== verification/SymbolRace.thy ===== *)
theory SymbolRace
  imports SymbolTable
begin

text \<open>
  \<open>SymbolServer::internalize\<close> under concurrency.  Each thread wants one string; its
  lookup runs under the shared lock and its insertion, with the second lookup, under the
  exclusive lock, so the two critical sections are the steps of a relation and any other
  thread's steps may come between them.
\<close>

datatype internalize_pc =
    Wants string
  | Missed string
  | Got string symbol

record race =
  race_table :: symtab
  race_pcs :: "internalize_pc list"

inductive race_step :: "race \<Rightarrow> race \<Rightarrow> bool" where
  read_hit:
    "i < length (race_pcs r) \<Longrightarrow> race_pcs r ! i = Wants s \<Longrightarrow>
     internalize_read s (race_table r) = Some n \<Longrightarrow>
     race_step r (r\<lparr>race_pcs := (race_pcs r)[i := Got s n]\<rparr>)"
| read_miss:
    "i < length (race_pcs r) \<Longrightarrow> race_pcs r ! i = Wants s \<Longrightarrow>
     internalize_read s (race_table r) = None \<Longrightarrow>
     race_step r (r\<lparr>race_pcs := (race_pcs r)[i := Missed s]\<rparr>)"
| write_back:
    "i < length (race_pcs r) \<Longrightarrow> race_pcs r ! i = Missed s \<Longrightarrow>
     internalize_write s (race_table r) = (n, tab) \<Longrightarrow>
     race_step r (r\<lparr>race_table := tab, race_pcs := (race_pcs r)[i := Got s n]\<rparr>)"

inductive race_run :: "race \<Rightarrow> race \<Rightarrow> bool" where
  race_start: "race_run r r"
| race_next: "race_run r r1 \<Longrightarrow> race_step r1 r2 \<Longrightarrow> race_run r r2"

fun pc_open :: "internalize_pc \<Rightarrow> bool" where
  "pc_open (Got s n) = False"
| "pc_open _ = True"

text \<open>
  The invariant: the table is well formed with a free number for every thread that may still
  insert, and every finished thread holds a symbol that names its string.
\<close>

definition pc_good :: "symtab \<Rightarrow> internalize_pc \<Rightarrow> bool" where
  "pc_good tab pc \<longleftrightarrow>
     (case pc of Got s n \<Rightarrow> symbol_valid tab n \<and> resolve n tab = s | _ \<Rightarrow> True)"

definition race_inv :: "race \<Rightarrow> bool" where
  "race_inv r \<longleftrightarrow> symtab_wf (race_table r) \<and>
     length (filter pc_open (race_pcs r)) \<le> st_room (race_table r) \<and>
     (\<forall>pc\<in>set (race_pcs r). pc_good (race_table r) pc)"

lemma pc_good_simps [simp]:
  "pc_good tab (Wants s)" "pc_good tab (Missed s)"
  "pc_good tab (Got s n) \<longleftrightarrow> symbol_valid tab n \<and> resolve n tab = s"
  by (simp_all add: pc_good_def)

lemma pc_good_extends: "symtab_extends tab tab' \<Longrightarrow> pc_good tab pc \<Longrightarrow> pc_good tab' pc"
  using symtab_extends_keeps by (cases pc) auto

lemma length_filter_update:
  "i < length xs \<Longrightarrow>
   length (filter P (xs[i := y])) + (if P (xs ! i) then 1 else 0) =
   length (filter P xs) + (if P y then 1 else 0)"
proof (induction xs arbitrary: i)
  case (Cons x xs)
  then show ?case by (cases i) (use Cons.IH in fastforce)+
qed simp

lemma set_update_all:
  "\<forall>x\<in>set xs. Q x \<Longrightarrow> Q y \<Longrightarrow> \<forall>x\<in>set (xs[i := y]). Q x"
  using set_update_subset_insert [of xs i y] by blast

lemma race_invI:
  assumes "race_inv r" "i < length (race_pcs r)" "symtab_wf tab" "symtab_extends (race_table r) tab"
    and "pc_good tab pc"
    and "length (filter pc_open ((race_pcs r)[i := pc])) \<le> st_room tab"
  shows "race_inv (r\<lparr>race_table := tab, race_pcs := (race_pcs r)[i := pc]\<rparr>)"
proof -
  have "\<forall>x\<in>set (race_pcs r). pc_good tab x"
    using assms(1,4) pc_good_extends by (auto simp: race_inv_def)
  then have "\<forall>x\<in>set ((race_pcs r)[i := pc]). pc_good tab x"
    by (rule set_update_all) (rule assms(5))
  with assms(3,6) show ?thesis by (simp add: race_inv_def)
qed

lemma race_step_inv: "race_step r r' \<Longrightarrow> race_inv r \<Longrightarrow> race_inv r'"
proof (induction rule: race_step.induct)
  case (read_hit i r s n)
  have "race_inv (r\<lparr>race_table := race_table r, race_pcs := (race_pcs r)[i := Got s n]\<rparr>)"
    using read_hit internalize_read_spec [of "race_table r" s n]
      length_filter_update [of i "race_pcs r" pc_open "Got s n"]
    by (intro race_invI) (simp_all add: race_inv_def)
  then show ?case by simp
next
  case (read_miss i r s)
  have "race_inv (r\<lparr>race_table := race_table r, race_pcs := (race_pcs r)[i := Missed s]\<rparr>)"
    using read_miss length_filter_update [of i "race_pcs r" pc_open "Missed s"]
    by (intro race_invI) (simp_all add: race_inv_def)
  then show ?case by simp
next
  case (write_back i r s n tab)
  have wf: "symtab_wf (race_table r)" using write_back by (simp add: race_inv_def)
  have count: "Suc (length (filter pc_open ((race_pcs r)[i := Got s n]))) =
      length (filter pc_open (race_pcs r))"
    using write_back length_filter_update [of i "race_pcs r" pc_open "Got s n"] by simp
  moreover have le: "length (filter pc_open (race_pcs r)) \<le> st_room (race_table r)"
    using write_back by (simp add: race_inv_def)
  ultimately have "0 < st_room (race_table r)" by linarith
  note spec = internalize_write_spec [OF wf this write_back(3)]
  show ?case
    using write_back(1,4) spec count le by (intro race_invI) simp_all
qed

lemma race_run_inv: "race_run r r' \<Longrightarrow> race_inv r \<Longrightarrow> race_inv r'"
  by (induction rule: race_run.induct) (auto intro: race_step_inv)

text \<open>C11: Whatever the interleaving of threads that internalize strings, the table stays
  well formed, and two threads that are done hold the same symbol exactly when they asked for
  the same string.\<close>

theorem internalize_race_safe:
  assumes "race_run r r'" "symtab_wf (race_table r)"
    and "length (race_pcs r) \<le> st_room (race_table r)" "\<forall>pc\<in>set (race_pcs r). pc_open pc"
    and "Got s m \<in> set (race_pcs r')" "Got t n \<in> set (race_pcs r')"
  shows "symtab_wf (race_table r') \<and> (m = n \<longleftrightarrow> s = t) \<and> resolve m (race_table r') = s"
proof -
  have "pc_good (race_table r) pc" if "pc_open pc" for pc
    using that by (cases pc) simp_all
  with assms(2-4) have "race_inv r"
    using length_filter_le [of pc_open "race_pcs r"] by (auto simp: race_inv_def)
  then have "race_inv r'" by (rule race_run_inv [OF assms(1)])
  then have wf: "symtab_wf (race_table r')"
    and m: "pc_good (race_table r') (Got s m)" and n: "pc_good (race_table r') (Got t n)"
    using assms(5,6) by (auto simp: race_inv_def)
  then show ?thesis
    using resolve_inj [OF wf, of m n] by auto
qed

text \<open>Two threads race for one new string: both miss, both come to write, one inserts.\<close>

theorem internalize_race_safe_witness:
  "fst (internalize_write ''x'' (snd (internalize_write ''x'' boot_table))) =
   fst (internalize_write ''x'' boot_table)"
proof -
  define n where "n = fst (internalize_write ''x'' boot_table)"
  define tab where "tab = snd (internalize_write ''x'' boot_table)"
  define m where "m = fst (internalize_write ''x'' tab)"
  define tab' where "tab' = snd (internalize_write ''x'' tab)"
  let ?r = "\<lambda>t p q. \<lparr>race_table = t, race_pcs = [p, q]\<rparr>"
  have miss: "internalize_read ''x'' boot_table = None"
    by code_simp
  have s1: "race_step (?r boot_table (Wants ''x'') (Wants ''x'')) (?r boot_table (Missed ''x'') (Wants ''x''))"
    using race_step.read_miss [of 0 "?r boot_table (Wants ''x'') (Wants ''x'')" "''x''"] miss by simp
  have s2: "race_step (?r boot_table (Missed ''x'') (Wants ''x''))
      (?r boot_table (Missed ''x'') (Missed ''x''))"
    using race_step.read_miss [of 1 "?r boot_table (Missed ''x'') (Wants ''x'')" "''x''"] miss by simp
  have s3: "race_step (?r boot_table (Missed ''x'') (Missed ''x''))
      (?r tab (Got ''x'' n) (Missed ''x''))"
    using race_step.write_back [of 0 "?r boot_table (Missed ''x'') (Missed ''x'')" "''x''" n tab]
    by (simp add: n_def tab_def)
  have s4: "race_step (?r tab (Got ''x'' n) (Missed ''x'')) (?r tab' (Got ''x'' n) (Got ''x'' m))"
    using race_step.write_back [of 1 "?r tab (Got ''x'' n) (Missed ''x'')" "''x''" m tab']
    by (simp add: m_def tab'_def)
  have run: "race_run (?r boot_table (Wants ''x'') (Wants ''x''))
      (?r tab' (Got ''x'' n) (Got ''x'' m))"
    by (rule race_next [OF race_next [OF race_next [OF race_next [OF race_start s1] s2] s3] s4])
  have "length (race_pcs (?r boot_table (Wants ''x'') (Wants ''x''))) \<le>
      st_room (race_table (?r boot_table (Wants ''x'') (Wants ''x'')))"
    using boot_table_room by simp
  from internalize_race_safe [OF run _ this, of "''x''" m "''x''" n]
  have "m = n" using symtab_wf_boot by simp
  then show ?thesis by (simp add: m_def n_def tab_def)
qed

end
