(* ===== verification/SymbolVariables.thy ===== *)
theory SymbolVariables
  imports SymbolTable
begin

text \<open>
  The class \<open>Symbol\<close> of \<open>symbol.h\<close> and \<open>symbol.cpp\<close> as a program uses it: variables that hold
  symbols, made and assigned by the constructors and assignment operators and read by the
  comparisons.  The variables of a program are a function from their names, here numbers;
  next to it is a program over variables that hold strings.
\<close>

section \<open>Construction and assignment\<close>

type_synonym symbol_vars = "nat \<Rightarrow> symbol"

definition symbol_new :: "string \<Rightarrow> symtab \<Rightarrow> symbol \<times> symtab" where
  "symbol_new str tab = internalize str tab"

definition assign_copy :: "nat \<Rightarrow> nat \<Rightarrow> symbol_vars \<Rightarrow> symbol_vars" where
  "assign_copy this other vars = vars(this := vars other)"

text \<open>The two variables may be the same one, which is then null.\<close>

definition assign_move :: "nat \<Rightarrow> nat \<Rightarrow> symbol_vars \<Rightarrow> symbol_vars" where
  "assign_move this other vars =
    (let vars = vars(this := vars other); vars = vars(other := symbol_null) in vars)"

text \<open>Assigning a string makes a temporary symbol and moves it.\<close>

definition assign_string :: "nat \<Rightarrow> string \<Rightarrow> symtab \<times> symbol_vars \<Rightarrow> symtab \<times> symbol_vars" where
  "assign_string this str st =
    (let (temporary, tab) = symbol_new str (fst st); (moved, temporary) = symbol_move temporary
     in (tab, (snd st)(this := moved)))"

datatype symbol_op =
    Construct nat
  | ConstructString nat string
  | ConstructMaybe nat string
  | ConstructCopy nat nat
  | ConstructMove nat nat
  | AssignCopy nat nat
  | AssignMove nat nat
  | AssignString nat string

fun symbol_step :: "symbol_op \<Rightarrow> symtab \<times> symbol_vars \<Rightarrow> symtab \<times> symbol_vars" where
  "symbol_step (Construct x) (tab, vars) = (tab, vars(x := symbol_null))"
| "symbol_step (ConstructString x s) (tab, vars) =
    (let (n, tab) = symbol_new s tab in (tab, vars(x := n)))"
| "symbol_step (ConstructMaybe x s) (tab, vars) = (tab, vars(x := symbol_maybe s tab))"
| "symbol_step (ConstructCopy x y) (tab, vars) = (tab, vars(x := vars y))"
| "symbol_step (ConstructMove x y) (tab, vars) =
    (let (n, rest) = symbol_move (vars y) in (tab, vars(x := n, y := rest)))"
| "symbol_step (AssignCopy x y) (tab, vars) = (tab, assign_copy x y vars)"
| "symbol_step (AssignMove x y) (tab, vars) = (tab, assign_move x y vars)"
| "symbol_step (AssignString x s) st = assign_string x s st"

section \<open>Comparison, hash and output\<close>

definition symbol_eq :: "symbol \<Rightarrow> symbol \<Rightarrow> bool" where "symbol_eq a b \<longleftrightarrow> a = b"
definition symbol_neq :: "symbol \<Rightarrow> symbol \<Rightarrow> bool" where "symbol_neq a b \<longleftrightarrow> a \<noteq> b"
definition symbol_le :: "symtab \<Rightarrow> symbol \<Rightarrow> symbol \<Rightarrow> bool" where "symbol_le tab a b \<longleftrightarrow> symbol_compare tab a b \<le> 0"
definition symbol_gt :: "symtab \<Rightarrow> symbol \<Rightarrow> symbol \<Rightarrow> bool" where "symbol_gt tab a b \<longleftrightarrow> symbol_compare tab a b > 0"
definition symbol_ge :: "symtab \<Rightarrow> symbol \<Rightarrow> symbol \<Rightarrow> bool" where "symbol_ge tab a b \<longleftrightarrow> symbol_compare tab a b \<ge> 0"

definition symbol_hash :: "symbol \<Rightarrow> u64" where
  "symbol_hash s = ucast s"

definition symbol_ostream :: "symtab \<Rightarrow> symbol \<Rightarrow> string" where
  "symbol_ostream tab s = ''['' @ to_chars (uint s) @ '':'' @ resolve s tab @ '']''"

section \<open>The same over strings\<close>

text \<open>The strings that have been interned, and the variables.\<close>

fun string_step :: "symbol_op \<Rightarrow> string set \<times> (nat \<Rightarrow> string) \<Rightarrow> string set \<times> (nat \<Rightarrow> string)" where
  "string_step (Construct x) (known, vals) = (known, vals(x := ''''))"
| "string_step (ConstructString x s) (known, vals) = (insert s known, vals(x := s))"
| "string_step (ConstructMaybe x s) (known, vals) = (known, vals(x := if s \<in> known then s else ''''))"
| "string_step (ConstructCopy x y) (known, vals) = (known, vals(x := vals y))"
| "string_step (ConstructMove x y) (known, vals) = (known, vals(x := vals y, y := ''''))"
| "string_step (AssignCopy x y) (known, vals) = (known, vals(x := vals y))"
| "string_step (AssignMove x y) (known, vals) = (known, vals(x := vals y, y := ''''))"
| "string_step (AssignString x s) (known, vals) = (insert s known, vals(x := s))"

definition vars_rel :: "symtab \<times> symbol_vars \<Rightarrow> string set \<times> (nat \<Rightarrow> string) \<Rightarrow> bool" where
  "vars_rel st ss \<longleftrightarrow> symtab_wf (fst st) \<and> fst ss = set (st_strings (fst st)) \<and>
    (\<forall>x. symbol_valid (fst st) (snd st x) \<and> resolve (snd st x) (fst st) = snd ss x)"

fun symbol_cost :: "symbol_op \<Rightarrow> nat" where
  "symbol_cost (ConstructString x s) = 1"
| "symbol_cost (AssignString x s) = 1"
| "symbol_cost _ = 0"

lemma symbol_null_names:
  assumes "symtab_wf tab"
  shows "symbol_valid tab symbol_null" "resolve symbol_null tab = ''''"
  using assms by (auto simp: symtab_wf_def hd_conv_nth symbol_valid_def resolve_def symbol_null_def)

lemma internalize_strings:
  assumes "symtab_wf tab" "0 < st_room tab"
  shows "set (st_strings (snd (internalize s tab))) = insert s (set (st_strings tab))"
proof (cases "s \<in> set (st_strings tab)")
  case True
  then show ?thesis
    using internalize_write_hit [OF assms(1) True]
    by (auto simp: internalize_def split: option.split)
next
  case False
  then have "internalize_read s tab = None"
    using internalize_read_spec [OF assms(1), of s] by (cases "internalize_read s tab")
      (auto simp: symbol_valid_def resolve_def)
  with False show ?thesis
    using symtab_wf_index_None [OF assms(1), of s]
    by (simp add: internalize_def internalize_write_def Let_def)
qed

text \<open>A variable that gets a valid symbol on a table that has grown.\<close>

lemma vars_rel_update:
  assumes "vars_rel (tab, vars) (known, vals)" "0 < st_room tab"
  shows "vars_rel (snd (internalize s tab), vars(x := fst (internalize s tab))) (insert s known, vals(x := s))"
  using assms sym.wf_intern [of tab s] sym.valid_intern [of tab s] sym.name_intern [of tab s]
    sym.keep_valid [of tab] sym.keep_name [of tab] internalize_strings [of tab s]
  by (simp add: vars_rel_def)

lemma symbol_step_rel:
  assumes "vars_rel st ss" "symbol_cost op \<le> st_room (fst st)"
  shows "vars_rel (symbol_step op st) (string_step op ss)"
    and "st_room (fst st) \<le> symbol_cost op + st_room (fst (symbol_step op st))"
proof -
  obtain tab vars known vals where st: "st = (tab, vars)" "ss = (known, vals)"
    by fastforce
  have rel: "vars_rel (tab, vars) (known, vals)" and wf: "symtab_wf tab"
    using assms(1) by (simp_all add: st vars_rel_def)
  have make: "vars_rel (snd (internalize s tab), vars(x := fst (internalize s tab))) (insert s known, vals(x := s))"
    "st_room tab \<le> Suc (st_room (snd (internalize s tab)))" if "0 < st_room tab" for x s
    using vars_rel_update [OF rel that] sym.room_intern [OF wf that] by auto
  note null = symbol_null_names [OF wf] and maybe = symbol_maybe_spec [OF wf]
  show "vars_rel (symbol_step op st) (string_step op ss)"
    using make rel null maybe assms(2) unfolding st
    by (cases op) (simp_all add: symbol_new_def assign_copy_def assign_move_def assign_string_def
        symbol_move_def split_beta Let_def vars_rel_def)
  show "st_room (fst st) \<le> symbol_cost op + st_room (fst (symbol_step op st))"
    using make(2) assms(2) unfolding st
    by (cases op) (simp_all add: symbol_new_def assign_string_def symbol_move_def split_beta Let_def)
qed

lemma symbol_steps_rel:
  assumes "vars_rel st ss" "sum_list (map symbol_cost ops) \<le> st_room (fst st)"
  shows "vars_rel (fold symbol_step ops st) (fold string_step ops ss)"
  using assms
proof (induction ops arbitrary: st ss)
  case (Cons op ops)
  then show ?case
    using symbol_step_rel [of st ss op] by simp
qed simp

lemma compare_as_strings:
  assumes "vars_rel (tab, vars) (known, vals)"
  shows "symbol_compare tab (vars x) (vars y) = sv_compare (vals x) (vals y)"
    and "vars x = vars y \<longleftrightarrow> vals x = vals y"
proof -
  have v: "symtab_wf tab" "symbol_valid tab (vars x)" "symbol_valid tab (vars y)"
    "resolve (vars x) tab = vals x" "resolve (vars y) tab = vals y"
    using assms by (simp_all add: vars_rel_def)
  then show "vars x = vars y \<longleftrightarrow> vals x = vals y"
    using resolve_inj [OF v(1-3)] by auto
  then show "symbol_compare tab (vars x) (vars y) = sv_compare (vals x) (vals y)"
    using v(4,5) by (simp add: symbol_compare_def sv_compare_def)
qed

lemma sv_compare_signs:
  "sv_compare a b < 0 \<longleftrightarrow> a < b" "sv_compare a b \<le> 0 \<longleftrightarrow> a \<le> b"
  "sv_compare a b > 0 \<longleftrightarrow> a > b" "sv_compare a b \<ge> 0 \<longleftrightarrow> a \<ge> b"
  by (cases a b rule: linorder_cases; simp add: sv_compare_def order_less_imp_le leD)+

section \<open>The property\<close>

text \<open>C12: Variables of type \<open>Symbol\<close> are values like strings: after any constructions, copies, moves
  and assignments every variable holds a number of the table, never one that only resolves to
  the marker of invalid symbols, it names the string that a program over strings has in its
  place, and all comparisons, the test for null and the hash give what they give for strings.\<close>

theorem symbols_are_values:
  assumes "symtab_wf tab" "sum_list (map symbol_cost ops) \<le> st_room tab"
    and "fold symbol_step ops (tab, \<lambda>x. symbol_null) = (tab', vars)"
    and "fold string_step ops (set (st_strings tab), \<lambda>x. '''') = (known, vals)"
  shows "symbol_valid tab' (vars x) \<and> resolve (vars x) tab' = vals x \<and>
    (symbol_eq (vars x) (vars y) \<longleftrightarrow> vals x = vals y) \<and>
    (symbol_neq (vars x) (vars y) \<longleftrightarrow> vals x \<noteq> vals y) \<and>
    (symbol_less tab' (vars x) (vars y) \<longleftrightarrow> vals x < vals y) \<and>
    (symbol_le tab' (vars x) (vars y) \<longleftrightarrow> vals x \<le> vals y) \<and>
    (symbol_gt tab' (vars x) (vars y) \<longleftrightarrow> vals x > vals y) \<and>
    (symbol_ge tab' (vars x) (vars y) \<longleftrightarrow> vals x \<ge> vals y) \<and>
    (symbol_bool (vars x) \<longleftrightarrow> vals x \<noteq> '''') \<and>
    (symbol_hash (vars x) = symbol_hash (vars y) \<longleftrightarrow> vals x = vals y)"
proof -
  have "vars_rel (tab, \<lambda>x. symbol_null) (set (st_strings tab), \<lambda>x. '''')"
    using assms(1) symbol_null_names [OF assms(1)] by (simp add: vars_rel_def)
  from symbol_steps_rel [OF this, of ops, unfolded assms(3,4)]
  have rel: "vars_rel (tab', vars) (known, vals)"
    using assms(2) by simp
  then have v: "symtab_wf tab'" "symbol_valid tab' (vars x)" "resolve (vars x) tab' = vals x"
    by (simp_all add: vars_rel_def)
  have "vars x = 0 \<longleftrightarrow> vals x = ''''"
    using resolve_inj [OF v(1,2) symbol_null_names(1) [OF v(1)]] symbol_null_names [OF v(1)] v(3)
    by (auto simp: symbol_null_def)
  moreover have "symbol_hash (vars x) = symbol_hash (vars y) \<longleftrightarrow> vars x = vars y"
    by (simp add: symbol_hash_def word_uint_eq_iff uint_up_ucast is_up)
  ultimately show ?thesis
    using v(2,3) compare_as_strings [OF rel]
    by (simp only: symbol_eq_def symbol_neq_def symbol_less_def symbol_le_def symbol_gt_def symbol_ge_def
        symbol_bool_def sv_compare_signs simp_thms)
qed

text \<open>Moving a symbol to itself leaves the null symbol.\<close>

theorem symbols_are_values_witness:
  "resolve (snd (fold symbol_step [AssignString 1 ''X-A'', AssignMove 2 1, AssignMove 2 2, AssignString 1 ''X-B'']
      (boot_table, \<lambda>x. symbol_null)) 1)
     (fst (fold symbol_step [AssignString 1 ''X-A'', AssignMove 2 1, AssignMove 2 2, AssignString 1 ''X-B'']
      (boot_table, \<lambda>x. symbol_null))) = ''X-B'' \<and>
   \<not> symbol_bool (snd (fold symbol_step [AssignString 1 ''X-A'', AssignMove 2 1, AssignMove 2 2, AssignString 1 ''X-B'']
      (boot_table, \<lambda>x. symbol_null)) 2)"
proof -
  let ?ops = "[AssignString 1 ''X-A'', AssignMove 2 1, AssignMove 2 2, AssignString 1 ''X-B'']"
  obtain known vals where vals: "fold string_step ?ops (set (st_strings boot_table), \<lambda>x. '''') = (known, vals)"
    by fastforce
  then have "vals 1 = ''X-B''" "vals 2 = ''''"
    by auto
  moreover have "sum_list (map symbol_cost ?ops) \<le> st_room boot_table"
    by (simp add: st_room_def boot_table_strings builtin_names_def)
  note same = symbols_are_values [OF symtab_wf_boot this surjective_pairing vals]
  ultimately show ?thesis
    using same by metis
qed

end
