(* ===== verification/Utf8.thy ===== *)
theory Utf8
  imports Prelude
begin

text \<open>
  The functions of \<open>utils.cpp\<close>: hexadecimal pairs, and the UTF-8 decoder and encoder that
  the request and the formatters share.  The decoder is a state machine fed one byte at a
  time; the theory shows that it never counts more than three pending bytes, that it is back
  at a boundary after at most three bytes, and that it inverts the encoder.
\<close>

section \<open>Hexadecimal pairs\<close>

text \<open>The three ranges \<open>unhex\<close> tests, with \<open>char\<close> compared as C++ compares it.\<close>

definition char_le :: "char \<Rightarrow> char \<Rightarrow> bool" where
  "char_le a b \<longleftrightarrow> char_int a \<le> char_int b"

definition nibble :: "char \<Rightarrow> u8 option" where
  "nibble ch =
    (if char_le (CHR ''0'') ch \<and> char_le ch (CHR ''9'') then
       Some (char_byte ch - char_byte (CHR ''0''))
     else if char_le (CHR ''a'') ch \<and> char_le ch (CHR ''f'') then
       Some (char_byte ch - char_byte (CHR ''a'') + 10)
     else if char_le (CHR ''A'') ch \<and> char_le ch (CHR ''F'') then
       Some (char_byte ch - char_byte (CHR ''A'') + 10)
     else None)"

definition unhex :: "char \<Rightarrow> char \<Rightarrow> bool \<times> u8" where
  "unhex ch0 ch1 =
    (let v = (0 :: u8) in
     case nibble ch0 of
       None \<Rightarrow> (False, 0)
     | Some d0 \<Rightarrow>
         (let v = push_bit 4 (v + d0) in
          case nibble ch1 of
            None \<Rightarrow> (False, 0)
          | Some d1 \<Rightarrow> (True, v + d1)))"

section \<open>The decoder\<close>

record convert_state =
  cs_glyph :: u32
  cs_remaining :: u8
  cs_valid :: bool

definition convert_init :: convert_state where
  "convert_init = \<lparr>cs_glyph = 0, cs_remaining = 0, cs_valid = False\<rparr>"

text \<open>One byte into the state: the two halves of the \<open>if\<close> on \<open>state.remaining\<close>.\<close>

definition utf8_continue :: "u8 \<Rightarrow> convert_state \<Rightarrow> convert_state" where
  "utf8_continue b st =
    (let st =
      (if cs_valid st then
         (if b AND 0xc0 = 0x80
          then st\<lparr>cs_glyph := push_bit 6 (cs_glyph st) OR ucast (b AND 0x3f)\<rparr>
          else st\<lparr>cs_valid := False\<rparr>)
       else st)
     in st\<lparr>cs_remaining := cs_remaining st - 1\<rparr>)"

definition utf8_start :: "u8 \<Rightarrow> convert_state \<Rightarrow> convert_state" where
  "utf8_start b st =
    (if b AND 0x80 = 0x00 then
       st\<lparr>cs_valid := True, cs_glyph := ucast b\<rparr>
     else if b AND 0xe0 = 0xc0 then
       st\<lparr>cs_valid := True, cs_remaining := 1, cs_glyph := ucast (b AND 0x1f)\<rparr>
     else if b AND 0xf0 = 0xe0 then
       st\<lparr>cs_valid := True, cs_remaining := 2, cs_glyph := ucast (b AND 0x0f)\<rparr>
     else if b AND 0xf8 = 0xf0 then
       st\<lparr>cs_valid := True, cs_remaining := 3, cs_glyph := ucast (b AND 0x07)\<rparr>
     else st\<lparr>cs_valid := False\<rparr>)"

definition replacement_char :: u32 where
  "replacement_char = 65533"

text \<open>The returned glyph: 0 while bytes are pending, U+FFFD for an invalid sequence.\<close>

definition utf8_to_32 :: "u8 \<Rightarrow> convert_state \<Rightarrow> u32 \<times> convert_state" where
  "utf8_to_32 b st =
    (let st = (if 0 < cs_remaining st then utf8_continue b st else utf8_start b st)
     in (if 0 < cs_remaining st then 0
         else if cs_valid st then cs_glyph st
         else replacement_char, st))"

section \<open>The encoder\<close>

text \<open>The bytes written to \<open>buf\<close>; their number is the returned length.\<close>

definition utf32_to_8 :: "u32 \<Rightarrow> u8 list" where
  "utf32_to_8 g =
    (if g < 0x80 then [ucast g]
     else if g < 0x800 then
       [ucast (0xc0 + drop_bit 6 g),
        ucast (0x80 + (g AND 0x3f))]
     else if g < 0x10000 then
       [ucast (0xe0 + drop_bit 12 g),
        ucast (0x80 + (drop_bit 6 g AND 0x3f)),
        ucast (0x80 + (g AND 0x3f))]
     else if g < 0x110000 then
       [ucast (0xf0 + drop_bit 18 g),
        ucast (0x80 + (drop_bit 12 g AND 0x3f)),
        ucast (0x80 + (drop_bit 6 g AND 0x3f)),
        ucast (0x80 + (g AND 0x3f))]
     else [])"

text \<open>Feeding a run of bytes: what every caller's loop does, one returned glyph per byte.\<close>

fun utf8_run :: "u8 list \<Rightarrow> convert_state \<Rightarrow> u32 list \<times> convert_state" where
  "utf8_run [] st = ([], st)"
| "utf8_run (b # bs) st =
     (let (g, st1) = utf8_to_32 b st; (gs, st2) = utf8_run bs st1 in (g # gs, st2))"

section \<open>The bit tests read as ranges\<close>

lemma high_masks: "(0x80::u8) = NOT (mask 7)" "(0xc0::u8) = NOT (mask 6)" "(0xe0::u8) = NOT (mask 5)"
   "(0xf0::u8) = NOT (mask 4)" "(0xf8::u8) = NOT (mask 3)"
  by (simp_all add: mask_eq_exp_minus_1)
lemma low_masks: "(0x3f::u8) = mask 6" "(0x1f::u8) = mask 5" "(0x0f::u8) = mask 4" "(0x07::u8) = mask 3" "(0x3f::u32) = mask 6"
  by (simp_all add: mask_eq_exp_minus_1)

lemma lead_tests:
  "b AND 0x80 = (0x00::u8) \<longleftrightarrow> unat b < 128"
  "b AND 0xc0 = (0x80::u8) \<longleftrightarrow> 128 \<le> unat b \<and> unat b < 192"
  "b AND 0xe0 = (0xc0::u8) \<longleftrightarrow> 192 \<le> unat b \<and> unat b < 224"
  "b AND 0xf0 = (0xe0::u8) \<longleftrightarrow> 224 \<le> unat b \<and> unat b < 240"
  "b AND 0xf8 = (0xf0::u8) \<longleftrightarrow> 240 \<le> unat b \<and> unat b < 248"
proof -
  have "b AND NOT (mask 7) = (0x00::u8) \<longleftrightarrow> unat b div 128 * 128 = 0"
    by (simp only: word_unat_eq_iff unat_and_high) simp
  then show "b AND 0x80 = (0x00::u8) \<longleftrightarrow> unat b < 128" unfolding high_masks(1) by auto
next
  have "b AND NOT (mask 6) = (0x80::u8) \<longleftrightarrow> unat b div 64 * 64 = 128"
    by (simp only: word_unat_eq_iff unat_and_high) simp
  then show "b AND 0xc0 = (0x80::u8) \<longleftrightarrow> 128 \<le> unat b \<and> unat b < 192"
    unfolding high_masks(2) by auto
next
  have "b AND NOT (mask 5) = (0xc0::u8) \<longleftrightarrow> unat b div 32 * 32 = 192"
    by (simp only: word_unat_eq_iff unat_and_high) simp
  then show "b AND 0xe0 = (0xc0::u8) \<longleftrightarrow> 192 \<le> unat b \<and> unat b < 224"
    unfolding high_masks(3) by auto
next
  have "b AND NOT (mask 4) = (0xe0::u8) \<longleftrightarrow> unat b div 16 * 16 = 224"
    by (simp only: word_unat_eq_iff unat_and_high) simp
  then show "b AND 0xf0 = (0xe0::u8) \<longleftrightarrow> 224 \<le> unat b \<and> unat b < 240"
    unfolding high_masks(4) by auto
next
  have "b AND NOT (mask 3) = (0xf0::u8) \<longleftrightarrow> unat b div 8 * 8 = 240"
    by (simp only: word_unat_eq_iff unat_and_high) simp
  then show "b AND 0xf8 = (0xf0::u8) \<longleftrightarrow> 240 \<le> unat b \<and> unat b < 248"
    unfolding high_masks(5) by auto
qed

lemma low_bits:
  "unat (b AND (0x3f::u8)) = unat b mod 64"
  "unat (b AND (0x1f::u8)) = unat b mod 32"
  "unat (b AND (0x0f::u8)) = unat b mod 16"
  "unat (b AND (0x07::u8)) = unat b mod 8"
  "unat (g AND (0x3f::u32)) = unat g mod 64"
  unfolding low_masks unat_and_low by simp_all

lemma unat_ucast_8_32: "unat (ucast (b :: u8) :: u32) = unat b"
  by (simp add: unsigned_ucast_eq take_bit_nat_eq_self unsigned_less less_trans [OF unsigned_less])

lemma unat_shift_or:
  assumes "unat x < 64"
  shows "unat (push_bit 6 g OR (x :: u32)) = (unat g * 64 + unat x) mod 2 ^ 32"
proof -
  have "push_bit 6 g AND x = 0"
  proof (rule bit_word_eqI)
    fix n
    assume "n < LENGTH(32)"
    have "\<not> bit x n" if "6 \<le> n"
    proof -
      have "x = take_bit 6 x"
        using assms by (simp add: word_unat_eq_iff unsigned_take_bit_eq take_bit_nat_eq_self)
      then show ?thesis using that by (metis bit_take_bit_iff not_less)
    qed
    then show "bit (push_bit 6 g AND x) n = bit 0 n"
      by (auto simp: bit_simps)
  qed
  then have "push_bit 6 g OR x = push_bit 6 g + x"
    by (simp add: disjunctive_add_eq_or)
  then show ?thesis
    by (simp add: unat_word_ariths unsigned_push_bit_eq take_bit_eq_mod push_bit_eq_mult mod_simps)
qed

section \<open>The decoder step by step\<close>

text \<open>A valid state with the collected glyph given as a number.\<close>

definition pending :: "nat \<Rightarrow> u8 \<Rightarrow> convert_state" where
  "pending n r = \<lparr>cs_glyph = word_of_nat n, cs_remaining = r, cs_valid = True\<rparr>"

lemma pending_sel [simp]:
  "cs_glyph (pending n r) = word_of_nat n" "cs_remaining (pending n r) = r"
  "cs_valid (pending n r)"
  by (simp_all add: pending_def)

lemma utf8_continue_ok:
  assumes "128 \<le> unat b" "unat b < 192" "n < 2 ^ 26"
  shows "utf8_continue b (pending n r) = pending (n * 64 + unat b mod 64) (r - 1)"
proof -
  have "unat (ucast (b AND 0x3f) :: u32) = unat b mod 64"
    by (simp add: unat_ucast_8_32 low_bits)
  moreover have "unat (word_of_nat n :: u32) = n"
    using assms(3) by (simp add: unat_of_nat)
  ultimately have "unat (push_bit 6 (word_of_nat n :: u32) OR ucast (b AND 0x3f)) =
      n * 64 + unat b mod 64"
    using assms(3) by (subst unat_shift_or) simp_all
  then have "push_bit 6 (word_of_nat n :: u32) OR ucast (b AND 0x3f) =
      word_of_nat (n * 64 + unat b mod 64)"
    by (metis word_of_nat_unat)
  then show ?thesis
    using assms(1,2) by (simp add: utf8_continue_def pending_def lead_tests Let_def)
qed

lemma ucast_8_32_nat: "(ucast (b :: u8) :: u32) = word_of_nat (unat b)"
  by (metis unat_ucast_8_32 word_of_nat_unat)

lemma utf8_start_ok:
  "unat b < 128 \<Longrightarrow> utf8_start b st = pending (unat b) (cs_remaining st)"
  "192 \<le> unat b \<Longrightarrow> unat b < 224 \<Longrightarrow> utf8_start b st = pending (unat b mod 32) 1"
  "224 \<le> unat b \<Longrightarrow> unat b < 240 \<Longrightarrow> utf8_start b st = pending (unat b mod 16) 2"
  "240 \<le> unat b \<Longrightarrow> unat b < 248 \<Longrightarrow> utf8_start b st = pending (unat b mod 8) 3"
  "128 \<le> unat b \<Longrightarrow> unat b < 192 \<Longrightarrow> utf8_start b st = st\<lparr>cs_valid := False\<rparr>"
  "248 \<le> unat b \<Longrightarrow> utf8_start b st = st\<lparr>cs_valid := False\<rparr>"
  unfolding utf8_start_def lead_tests ucast_8_32_nat low_bits pending_def by simp_all

lemma utf8_run_Cons:
  "utf8_run (b # bs) st =
    (fst (utf8_to_32 b st) # fst (utf8_run bs (snd (utf8_to_32 b st))),
     snd (utf8_run bs (snd (utf8_to_32 b st))))"
  by (simp add: Let_def split: prod.splits)

declare utf8_run.simps(2) [simp del]

lemma utf8_run_append:
  "fst (utf8_run (xs @ ys) st) = fst (utf8_run xs st) @ fst (utf8_run ys (snd (utf8_run xs st)))"
  "snd (utf8_run (xs @ ys) st) = snd (utf8_run ys (snd (utf8_run xs st)))"
  by (induction xs arbitrary: st) (simp_all add: utf8_run_Cons)

lemma length_utf8_run [simp]: "length (fst (utf8_run bs st)) = length bs"
  by (induction bs arbitrary: st) (simp_all add: utf8_run_Cons)

text \<open>What the encoder writes, as numbers.\<close>

lemma utf32_to_8_nat:
  assumes "unat g = n"
  shows "map unat (utf32_to_8 g) =
    (if n < 0x80 then [n]
     else if n < 0x800 then [192 + n div 64, 128 + n mod 64]
     else if n < 0x10000 then [224 + n div 4096, 128 + n div 64 mod 64, 128 + n mod 64]
     else if n < 0x110000 then
       [240 + n div 262144, 128 + n div 4096 mod 64, 128 + n div 64 mod 64, 128 + n mod 64]
     else [])"
proof -
  have lt: "g < 0x80 \<longleftrightarrow> n < 0x80" "g < 0x800 \<longleftrightarrow> n < 0x800" "g < 0x10000 \<longleftrightarrow> n < 0x10000"
      "g < 0x110000 \<longleftrightarrow> n < 0x110000"
    using assms by (simp_all add: word_less_nat_alt)
  have narrow: "unat (ucast (w :: u32) :: u8) = unat w mod 256" for w
    by (simp add: unsigned_ucast_eq take_bit_eq_mod)
  have plus: "unat (c + w) mod 256 = (unat c + unat w) mod 256" for c w :: u32
    by (simp add: unat_word_ariths mod_mod_cancel)
  have parts: "unat (drop_bit 6 g) = n div 64" "unat (drop_bit 12 g) = n div 4096"
      "unat (drop_bit 18 g) = n div 262144"
    using assms by (simp_all add: unat_drop)
  show ?thesis
    using assms unfolding utf32_to_8_def lt
    by (auto simp: narrow plus parts low_bits)
qed

lemma offset_mod:
  fixes n k :: nat
  shows "n = 192 + k \<Longrightarrow> k < 32 \<Longrightarrow> n mod 32 = k"
    "n = 224 + k \<Longrightarrow> k < 16 \<Longrightarrow> n mod 16 = k"
    "n = 240 + k \<Longrightarrow> k < 8 \<Longrightarrow> n mod 8 = k"
    "n = 128 + k \<Longrightarrow> k < 64 \<Longrightarrow> n mod 64 = k"
  using mod_mult_self2 [of k 32 6] mod_mult_self2 [of k 16 14]
    mod_mult_self2 [of k 8 30] mod_mult_self2 [of k 64 2]
  by (simp_all add: add.commute)

lemma base64_split:
  fixes n :: nat
  shows "n div 64 = n div 4096 * 64 + n div 64 mod 64"
    "n div 4096 = n div 262144 * 64 + n div 4096 mod 64"
proof -
  have "n div 4096 = n div 64 div 64" "n div 262144 = n div 4096 div 64"
    by (simp_all add: div_mult2_eq [symmetric])
  then show "n div 64 = n div 4096 * 64 + n div 64 mod 64"
    "n div 4096 = n div 262144 * 64 + n div 4096 mod 64"
    using div_mult_mod_eq [of "n div 64" 64] div_mult_mod_eq [of "n div 4096" 64] by simp_all
qed

text \<open>One byte at a boundary and one byte inside a valid sequence.\<close>

lemma utf8_to_32_boundary:
  assumes "cs_remaining st = 0"
  shows "unat b = k \<Longrightarrow> k < 128 \<Longrightarrow> utf8_to_32 b st = (word_of_nat k, pending k 0)"
    "unat b = 192 + k \<Longrightarrow> k < 32 \<Longrightarrow> utf8_to_32 b st = (0, pending k 1)"
    "unat b = 224 + k \<Longrightarrow> k < 16 \<Longrightarrow> utf8_to_32 b st = (0, pending k 2)"
    "unat b = 240 + k \<Longrightarrow> k < 8 \<Longrightarrow> utf8_to_32 b st = (0, pending k 3)"
proof -
  assume "unat b = k" "k < 128"
  then have "utf8_start b st = pending k 0"
    using assms utf8_start_ok(1) by metis
  then show "utf8_to_32 b st = (word_of_nat k, pending k 0)"
    using assms by (simp add: utf8_to_32_def)
next
  assume b: "unat b = 192 + k" "k < 32"
  then have "unat b mod 32 = k" "192 \<le> unat b" "unat b < 224"
    using offset_mod [of "unat b" k] by simp_all
  then have "utf8_start b st = pending k 1"
    using utf8_start_ok(2) [of b st] by metis
  then show "utf8_to_32 b st = (0, pending k 1)"
    using assms by (simp add: utf8_to_32_def)
next
  assume b: "unat b = 224 + k" "k < 16"
  then have "unat b mod 16 = k" "224 \<le> unat b" "unat b < 240"
    using offset_mod [of "unat b" k] by simp_all
  then have "utf8_start b st = pending k 2"
    using utf8_start_ok(3) [of b st] by metis
  then show "utf8_to_32 b st = (0, pending k 2)"
    using assms by (simp add: utf8_to_32_def)
next
  assume b: "unat b = 240 + k" "k < 8"
  then have "unat b mod 8 = k" "240 \<le> unat b" "unat b < 248"
    using offset_mod [of "unat b" k] by simp_all
  then have "utf8_start b st = pending k 3"
    using utf8_start_ok(4) [of b st] by metis
  then show "utf8_to_32 b st = (0, pending k 3)"
    using assms by (simp add: utf8_to_32_def)
qed

lemma utf8_to_32_inside:
  assumes "0 < r" "unat b = 128 + k" "k < 64" "n < 2 ^ 26" "m = n * 64 + k"
  shows "utf8_to_32 b (pending n r) = (if r = 1 then word_of_nat m else 0, pending m (r - 1))"
proof -
  have "unat b mod 64 = k" "128 \<le> unat b" "unat b < 192"
    using assms(2,3) offset_mod [of "unat b" k] by simp_all
  then have "utf8_continue b (pending n r) = pending m (r - 1)"
    using utf8_continue_ok [of b n r] assms(4,5) by metis
  moreover have "0 < r - 1 \<longleftrightarrow> r \<noteq> 1"
    by (simp add: word_gt_0)
  ultimately show ?thesis
    using assms(1) by (simp add: utf8_to_32_def)
qed

text \<open>Decoding the bytes of one encoded glyph gives it back, and only at its last byte.\<close>

lemma utf8_run_utf32_to_8:
  assumes g: "g < 0x110000" and st: "cs_remaining st = 0"
  shows "utf8_run (utf32_to_8 g) st =
    (replicate (length (utf32_to_8 g) - 1) 0 @ [g], pending (unat g) 0)"
proof -
  define n where "n = unat g"
  have n: "unat g = n" "n < 0x110000" and gn: "g = word_of_nat n"
    using g by (simp_all add: n_def word_less_nat_alt)
  note enc = utf32_to_8_nat [OF n(1)]
  note start = utf8_to_32_boundary [OF st]
  consider "n < 0x80" | "0x80 \<le> n" "n < 0x800" | "0x800 \<le> n" "n < 0x10000"
    | "0x10000 \<le> n" "n < 0x110000"
    using n by linarith
  then show ?thesis
  proof cases
    case 1
    with enc obtain b where bs: "utf32_to_8 g = [b]" and "unat b = n"
      by (auto simp: map_eq_Cons_conv)
    with 1 start(1) [of b n] show ?thesis
      unfolding bs n(1) utf8_run_Cons by (simp add: gn)
  next
    case 2
    with enc obtain b c where bs: "utf32_to_8 g = [b, c]"
      and b: "unat b = 192 + n div 64" and c: "unat c = 128 + n mod 64"
      by (auto simp: map_eq_Cons_conv)
    have "utf8_to_32 b st = (0, pending (n div 64) 1)"
      using 2 by (intro start(2) b) simp
    moreover have "utf8_to_32 c (pending (n div 64) 1) = (word_of_nat n, pending n 0)"
      using utf8_to_32_inside [OF _ c, of 1 "n div 64" n] 2 by simp
    ultimately show ?thesis
      unfolding bs n(1) utf8_run_Cons by (simp add: gn)
  next
    case 3
    with enc obtain b c d where bs: "utf32_to_8 g = [b, c, d]"
      and b: "unat b = 224 + n div 4096" and c: "unat c = 128 + n div 64 mod 64"
      and d: "unat d = 128 + n mod 64"
      by (auto simp: map_eq_Cons_conv)
    have "utf8_to_32 c (pending (n div 4096) 2) = (0, pending (n div 64) 1)"
      using utf8_to_32_inside [OF _ c, of 2 "n div 4096" "n div 64"] 3 base64_split(1) [of n] by simp
    moreover have "utf8_to_32 b st = (0, pending (n div 4096) 2)"
      using 3 by (intro start(3) b) simp
    moreover have "utf8_to_32 d (pending (n div 64) 1) = (word_of_nat n, pending n 0)"
      using utf8_to_32_inside [OF _ d, of 1 "n div 64" n] 3 by simp
    ultimately show ?thesis
      unfolding bs n(1) utf8_run_Cons by (simp add: gn)
  next
    case 4
    with enc obtain b c d e where bs: "utf32_to_8 g = [b, c, d, e]"
      and b: "unat b = 240 + n div 262144" and c: "unat c = 128 + n div 4096 mod 64"
      and d: "unat d = 128 + n div 64 mod 64" and e: "unat e = 128 + n mod 64"
      by (auto simp: map_eq_Cons_conv)
    have "utf8_to_32 c (pending (n div 262144) 3) = (0, pending (n div 4096) 2)"
      using utf8_to_32_inside [OF _ c, of 3 "n div 262144" "n div 4096"] 4 base64_split(2) [of n] by simp
    moreover have "utf8_to_32 d (pending (n div 4096) 2) = (0, pending (n div 64) 1)"
      using utf8_to_32_inside [OF _ d, of 2 "n div 4096" "n div 64"] 4 base64_split(1) [of n] by simp
    moreover have "utf8_to_32 b st = (0, pending (n div 262144) 3)"
      using 4 by (intro start(4) b) simp
    moreover have "utf8_to_32 e (pending (n div 64) 1) = (word_of_nat n, pending n 0)"
      using utf8_to_32_inside [OF _ e, of 1 "n div 64" n] 4 by simp
    ultimately show ?thesis
      unfolding bs n(1) utf8_run_Cons by (simp add: gn)
  qed
qed
section \<open>Resynchronisation\<close>

text \<open>The count of pending bytes never passes three, whatever the bytes are.\<close>

definition utf8_wf :: "convert_state \<Rightarrow> bool" where
  "utf8_wf st \<longleftrightarrow> cs_remaining st \<le> 3"

lemma utf8_step_remaining:
  "0 < cs_remaining st \<Longrightarrow> cs_remaining (snd (utf8_to_32 b st)) = cs_remaining st - 1"
  "cs_remaining st = 0 \<Longrightarrow> cs_remaining (snd (utf8_to_32 b st)) \<le> 3"
  by (simp_all add: utf8_to_32_def utf8_continue_def utf8_start_def Let_def)

lemma utf8_wf_init: "utf8_wf convert_init"
  by (simp add: utf8_wf_def convert_init_def)

lemma utf8_wf_step: "utf8_wf st \<Longrightarrow> utf8_wf (snd (utf8_to_32 b st))"
proof (cases "0 < cs_remaining st")
  case True
  assume "utf8_wf st"
  with True show ?thesis
    using utf8_step_remaining(1) [OF True, of b]
    by (simp add: utf8_wf_def) unat_arith
next
  case False
  then show ?thesis
    using utf8_step_remaining(2) [of st b] by (simp add: utf8_wf_def word_gt_0)
qed

lemma utf8_wf_run: "utf8_wf st \<Longrightarrow> utf8_wf (snd (utf8_run bs st))"
  by (induction bs arbitrary: st) (simp_all add: utf8_run_Cons utf8_wf_step)

lemma utf8_run_to_boundary:
  "length bs = unat (cs_remaining st) \<Longrightarrow> cs_remaining (snd (utf8_run bs st)) = 0"
proof (induction bs arbitrary: st)
  case Nil
  then show ?case by (simp add: unat_eq_zero)
next
  case (Cons b bs)
  then have pos: "0 < cs_remaining st"
    by (simp add: word_gt_0 unat_gt_0 flip: unat_gt_0)
  then have "unat (cs_remaining st - 1) = length bs"
    using Cons.prems by (simp add: unat_minus_one)
  then show ?case
    using Cons.IH [of "snd (utf8_to_32 b st)"] utf8_step_remaining(1) [OF pos, of b]
    by (simp add: utf8_run_Cons)
qed

section \<open>A reference decoder\<close>

text \<open>
  The same decoding sequence by sequence: the lead byte says how many bytes follow, those are
  taken whatever they are, and the glyph is U+FFFD unless all of them are continuation bytes.
  A sequence cut off by the end of the input produces nothing.
\<close>

definition lead_length :: "u8 \<Rightarrow> nat" where
  "lead_length b = (let n = unat b in
    if 192 \<le> n \<and> n < 224 then 1 else if 224 \<le> n \<and> n < 240 then 2
    else if 240 \<le> n \<and> n < 248 then 3 else 0)"

definition lead_bits :: "u8 \<Rightarrow> nat option" where
  "lead_bits b = (let n = unat b in
    if n < 128 then Some n else if n < 192 then None
    else if n < 224 then Some (n mod 32) else if n < 240 then Some (n mod 16)
    else if n < 248 then Some (n mod 8) else None)"

definition is_continuation :: "u8 \<Rightarrow> bool" where
  "is_continuation b \<longleftrightarrow> 128 \<le> unat b \<and> unat b < 192"

definition collect_bits :: "nat \<Rightarrow> u8 list \<Rightarrow> nat" where
  "collect_bits = foldl (\<lambda>n b. n * 64 + unat b mod 64)"

definition sequence_glyph :: "u8 \<Rightarrow> u8 list \<Rightarrow> u32" where
  "sequence_glyph b cs =
    (case lead_bits b of
       Some n \<Rightarrow> if list_all is_continuation cs then word_of_nat (collect_bits n cs)
                 else replacement_char
     | None \<Rightarrow> replacement_char)"

fun utf8_reference :: "u8 list \<Rightarrow> u32 list" where
  "utf8_reference [] = []"
| "utf8_reference (b # bs) =
     (let k = lead_length b in
      if length bs < k then []
      else sequence_glyph b (take k bs) # utf8_reference (drop k bs))"

lemma utf8_run_invalid:
  assumes "\<not> cs_valid st" "length bs \<le> unat (cs_remaining st)"
  shows "fst (utf8_run bs st) =
    (if length bs = unat (cs_remaining st) \<and> bs \<noteq> []
     then replicate (length bs - 1) 0 @ [replacement_char] else replicate (length bs) 0)"
  using assms
proof (induction bs arbitrary: st)
  case Nil
  then show ?case by simp
next
  case (Cons b bs)
  then have pos: "0 < cs_remaining st"
    by (cases "cs_remaining st = 0") (auto simp: word_gt_0)
  let ?st = "snd (utf8_to_32 b st)"
  have "?st = st\<lparr>cs_remaining := cs_remaining st - 1\<rparr>"
    and g: "fst (utf8_to_32 b st) = (if cs_remaining st = 1 then replacement_char else 0)"
    using pos Cons.prems(1) by (auto simp: utf8_to_32_def utf8_continue_def Let_def word_gt_0)
  moreover have un: "unat (cs_remaining st - 1) = unat (cs_remaining st) - 1"
    using pos by (simp add: unat_minus_one word_gt_0)
  ultimately have "fst (utf8_run bs ?st) =
    (if length bs = unat (cs_remaining st) - 1 \<and> bs \<noteq> []
     then replicate (length bs - 1) 0 @ [replacement_char] else replicate (length bs) 0)"
    using Cons.IH [of ?st] Cons.prems by simp
  moreover have "cs_remaining st = 1 \<longleftrightarrow> unat (cs_remaining st) = 1"
    by (simp add: word_unat_eq_iff)
  moreover obtain m where "unat (cs_remaining st) = Suc m"
    using pos by (metis word_gt_0 unat_gt_0 gr0_implies_Suc)
  ultimately show ?case
    using g Cons.prems by (cases bs) (auto simp: utf8_run_Cons)
qed

lemma utf8_run_valid:
  assumes "length cs = unat r" "cs \<noteq> []" "length cs \<le> 3" "n < 2 ^ (32 - 6 * length cs)"
  shows "fst (utf8_run cs (pending n r)) =
    replicate (length cs - 1) 0 @
    [if list_all is_continuation cs then word_of_nat (collect_bits n cs) else replacement_char]"
  using assms
proof (induction cs arbitrary: n r)
  case Nil
  then show ?case by simp
next
  case (Cons c cs)
  then have r: "0 < r" by (metis length_greater_0_conv unat_gt_0 word_gt_0)
  have un: "unat (r - 1) = length cs"
    using r Cons.prems(1) by (simp add: unat_minus_one word_gt_0)
  have one: "r = 1 \<longleftrightarrow> cs = []"
    using Cons.prems(1) by (auto simp: word_unat_eq_iff)
  show ?case
  proof (cases "is_continuation c")
    case False
    then have inv: "utf8_continue c (pending n r) =
        \<lparr>cs_glyph = word_of_nat n, cs_remaining = r - 1, cs_valid = False\<rparr>" (is "_ = ?bad")
      by (simp add: utf8_continue_def lead_tests is_continuation_def Let_def pending_def)
    have "fst (utf8_run cs ?bad) = (if cs \<noteq> [] then replicate (length cs - 1) 0 @ [replacement_char]
        else replicate (length cs) 0)"
      using un by (subst utf8_run_invalid) simp_all
    moreover have "utf8_to_32 c (pending n r) = (if cs = [] then replacement_char else 0, ?bad)"
      using r one inv by (auto simp: utf8_to_32_def word_gt_0)
    ultimately show ?thesis
      using False by (cases cs) (auto simp: utf8_run_Cons)
  next
    case True
    let ?m = "n * 64 + unat c mod 64"
    have low: "unat c mod 64 < 64" by simp
    have "length cs \<le> 2"
      using Cons.prems(3) by simp
    then consider "length cs = 0" | "length cs = 1" | "length cs = 2"
      by linarith
    then have bound: "n < 2 ^ 26 \<and> ?m < 2 ^ (32 - 6 * length cs)"
      by cases (use Cons.prems(4) low in simp_all)
    have "utf8_continue c (pending n r) = pending ?m (r - 1)"
      using True bound by (simp add: utf8_continue_ok is_continuation_def)
    then have "utf8_to_32 c (pending n r) =
        (if cs = [] then word_of_nat ?m else 0, pending ?m (r - 1))"
      using r one by (auto simp: utf8_to_32_def word_gt_0)
    then show ?thesis
      using True Cons.IH [of "r - 1" ?m] Cons.prems(3) un bound
      by (cases cs) (auto simp: utf8_run_Cons collect_bits_def)
  qed
qed

lemma utf8_run_short:
  "length bs < unat (cs_remaining st) \<Longrightarrow> fst (utf8_run bs st) = replicate (length bs) 0"
proof (induction bs arbitrary: st)
  case Nil
  then show ?case by simp
next
  case (Cons b bs)
  then have pos: "0 < cs_remaining st"
    by (metis less_nat_zero_code not_gr_zero unat_gt_0 word_gt_0)
  have "unat (cs_remaining st - 1) = unat (cs_remaining st) - 1"
    using pos by (simp add: unat_minus_one word_gt_0)
  moreover have "0 < cs_remaining st - 1"
    using Cons.prems by (auto simp: word_gt_0)
  then have "fst (utf8_to_32 b st) = 0"
    using pos by (simp add: utf8_to_32_def utf8_continue_def Let_def)
  ultimately show ?case
    using Cons utf8_step_remaining(1) [OF pos, of b] by (simp add: utf8_run_Cons)
qed

text \<open>The first byte of a sequence.\<close>

lemma utf8_to_32_lead:
  assumes st: "cs_remaining st = 0"
  shows "lead_length b = 0 \<Longrightarrow>
      fst (utf8_to_32 b st) = sequence_glyph b [] \<and> cs_remaining (snd (utf8_to_32 b st)) = 0"
    and "lead_length b = Suc k \<Longrightarrow> \<exists>n. lead_bits b = Some n \<and> n < 2 ^ (32 - 6 * Suc k) \<and> Suc k \<le> 3 \<and>
      utf8_to_32 b st = (0, pending n (word_of_nat (Suc k)))"
proof -
  assume len: "lead_length b = 0"
  then consider "unat b < 128" | "128 \<le> unat b" "unat b < 192" | "248 \<le> unat b"
    by (force simp: lead_length_def Let_def split: if_splits)
  then show "fst (utf8_to_32 b st) = sequence_glyph b [] \<and> cs_remaining (snd (utf8_to_32 b st)) = 0"
  proof cases
    case 1
    then show ?thesis
      using utf8_to_32_boundary(1) [OF st refl 1]
      by (simp add: sequence_glyph_def lead_bits_def collect_bits_def)
  qed (simp_all add: utf8_to_32_def utf8_start_ok st sequence_glyph_def lead_bits_def)
next
  assume len: "lead_length b = Suc k"
  then consider (2) "192 \<le> unat b" "unat b < 224" "k = 0" | (3) "224 \<le> unat b" "unat b < 240" "k = 1"
    | (4) "240 \<le> unat b" "unat b < 248" "k = 2"
    by (force simp: lead_length_def Let_def split: if_splits)
  then show "\<exists>n. lead_bits b = Some n \<and> n < 2 ^ (32 - 6 * Suc k) \<and> Suc k \<le> 3 \<and>
      utf8_to_32 b st = (0, pending n (word_of_nat (Suc k)))"
  proof cases
    case 2
    have "unat b mod 32 < 67108864" by (rule less_trans [OF mod_less_divisor]) simp_all
    with 2 show ?thesis by (simp add: utf8_to_32_def utf8_start_ok st lead_bits_def)
  next
    case 3
    have "unat b mod 16 < 1048576" by (rule less_trans [OF mod_less_divisor]) simp_all
    with 3 show ?thesis by (simp add: utf8_to_32_def utf8_start_ok st lead_bits_def)
  next
    case 4
    have "unat b mod 8 < 16384" by (rule less_trans [OF mod_less_divisor]) simp_all
    with 4 show ?thesis by (simp add: utf8_to_32_def utf8_start_ok st lead_bits_def)
  qed
qed

lemma utf8_run_reference:
  "cs_remaining st = 0 \<Longrightarrow>
   filter (\<lambda>g. g \<noteq> 0) (fst (utf8_run bs st)) = filter (\<lambda>g. g \<noteq> 0) (utf8_reference bs)"
proof (induction bs arbitrary: st rule: utf8_reference.induct)
  case 1
  then show ?case by simp
next
  case (2 b bs)
  show ?case
  proof (cases "lead_length b")
    case 0
    then show ?thesis
      using utf8_to_32_lead(1) [OF "2.prems" 0] "2.IH" [OF refl, of "snd (utf8_to_32 b st)"]
      by (simp add: utf8_run_Cons)
  next
    case (Suc k)
    then obtain n where n: "lead_bits b = Some n" "n < 2 ^ (32 - 6 * Suc k)" "Suc k \<le> 3"
      and b: "utf8_to_32 b st = (0, pending n (word_of_nat (Suc k)))"
      using utf8_to_32_lead(2) [OF "2.prems" Suc] by blast
    let ?st = "pending n (word_of_nat (Suc k))"
    have un: "unat (cs_remaining ?st) = Suc k"
      using n(3) by (simp add: unat_of_nat del: of_nat_Suc)
    show ?thesis
    proof (cases "length bs < Suc k")
      case True
      then show ?thesis
        using utf8_run_short [of bs ?st] un b Suc by (simp add: utf8_run_Cons del: of_nat_Suc)
    next
      case False
      let ?cs = "take (Suc k) bs" and ?ds = "drop (Suc k) bs"
      have len: "length ?cs = unat (word_of_nat (Suc k) :: u8)" and ne: "?cs \<noteq> []"
        using False un by auto
      have "fst (utf8_run (?cs @ ?ds) ?st) =
          (replicate (length ?cs - 1) 0 @ [sequence_glyph b ?cs]) @
          fst (utf8_run ?ds (snd (utf8_run ?cs ?st)))"
        using utf8_run_valid [OF len ne, of n] n False
        by (simp add: utf8_run_append sequence_glyph_def del: of_nat_Suc append_take_drop_id)
      moreover have "cs_remaining (snd (utf8_run ?cs ?st)) = 0"
        using len by (intro utf8_run_to_boundary) simp
      ultimately show ?thesis
        using "2.IH" [OF refl, of "snd (utf8_run ?cs ?st)"] False Suc b
        by (simp add: utf8_run_Cons del: of_nat_Suc)
    qed
  qed
qed
section \<open>Hexadecimal pairs read back\<close>

text \<open>The digits a percent escape may use, in either case.\<close>

definition hex_digit :: "bool \<Rightarrow> nat \<Rightarrow> char" where
  "hex_digit upper d = (if upper then ''0123456789ABCDEF'' ! d else ''0123456789abcdef'' ! d)"

lemma nibble_hex_digit: "d < 16 \<Longrightarrow> nibble (hex_digit up d) = Some (word_of_nat d)"
proof -
  have "list_all (\<lambda>d. nibble (hex_digit True d) = Some (word_of_nat d) \<and>
      nibble (hex_digit False d) = Some (word_of_nat d)) [0..<16]"
    by code_simp
  then show "d < 16 \<Longrightarrow> nibble (hex_digit up d) = Some (word_of_nat d)"
    by (cases up) (auto simp: list_all_iff)
qed

lemma unhex_hex_digits:
  assumes "h < 16" "l < 16"
  shows "unhex (hex_digit up h) (hex_digit up' l) = (True, word_of_nat (16 * h + l))"
proof -
  have "unat (push_bit 4 (word_of_nat h :: u8) + word_of_nat l) = 16 * h + l"
    using assms by (simp add: push_bit_eq_mult unat_word_ariths unat_of_nat mod_simps)
  then have "push_bit 4 (word_of_nat h :: u8) + word_of_nat l = word_of_nat (16 * h + l)"
    by (metis word_of_nat_unat)
  with assms show ?thesis
    by (simp add: unhex_def nibble_hex_digit)
qed

section \<open>Whole strings: the request's \<open>utf8_decode\<close> and \<open>utf8_encode\<close>\<close>

fun utf8_decode_loop :: "string \<Rightarrow> convert_state \<Rightarrow> u32 list \<Rightarrow> u32 list" where
  "utf8_decode_loop [] mbstate result = result"
| "utf8_decode_loop (c # value) mbstate result =
     (let (glyph, mbstate) = utf8_to_32 (char_byte c) mbstate in
      if glyph \<noteq> 0 then utf8_decode_loop value mbstate (result @ [glyph])
      else utf8_decode_loop value mbstate result)"

definition utf8_decode :: "string \<Rightarrow> u32 list" where
  "utf8_decode value = utf8_decode_loop value convert_init []"

fun utf8_encode_loop :: "u32 list \<Rightarrow> string \<Rightarrow> string" where
  "utf8_encode_loop [] result = result"
| "utf8_encode_loop (glyph # value) result =
     (let tmp = utf32_to_8 glyph in
      if 0 < length tmp then utf8_encode_loop value (result @ map byte_char tmp)
      else utf8_encode_loop value result)"

definition utf8_encode :: "u32 list \<Rightarrow> string" where
  "utf8_encode value = utf8_encode_loop value []"

lemma utf8_decode_loop_run:
  "utf8_decode_loop s st acc = acc @ filter (\<lambda>g. g \<noteq> 0) (fst (utf8_run (map char_byte s) st))"
  by (induction s arbitrary: st acc) (simp_all add: utf8_run_Cons split: prod.splits)

lemma utf8_decode_run:
  "utf8_decode s = filter (\<lambda>g. g \<noteq> 0) (fst (utf8_run (map char_byte s) convert_init))"
  by (simp add: utf8_decode_def utf8_decode_loop_run)

lemma utf8_encode_loop_concat:
  "utf8_encode_loop gs acc = acc @ concat (map (\<lambda>g. map byte_char (utf32_to_8 g)) gs)"
  by (induction gs arbitrary: acc) (auto simp: Let_def)

lemma utf8_encode_concat: "utf8_encode gs = concat (map (\<lambda>g. map byte_char (utf32_to_8 g)) gs)"
  by (simp add: utf8_encode_def utf8_encode_loop_concat)

lemma utf8_encode_simps [simp]:
  "utf8_encode [] = []"
  "utf8_encode (g # gs) = map byte_char (utf32_to_8 g) @ utf8_encode gs"
  "utf8_encode (gs @ hs) = utf8_encode gs @ utf8_encode hs"
  by (simp_all add: utf8_encode_concat)

lemma utf32_to_8_empty_iff: "utf32_to_8 g = [] \<longleftrightarrow> \<not> g < 0x110000"
  by (auto simp: utf32_to_8_def word_less_nat_alt)

lemma length_utf32_to_8: "length (utf32_to_8 g) \<le> 4"
  by (simp add: utf32_to_8_def)

lemma utf8_run_encoded:
  assumes "\<forall>g\<in>set gs. 0 < g \<and> g < 0x110000" "cs_remaining st = 0"
  shows "filter (\<lambda>g. g \<noteq> 0) (fst (utf8_run (map char_byte (utf8_encode gs)) st)) = gs \<and>
    cs_remaining (snd (utf8_run (map char_byte (utf8_encode gs)) st)) = 0"
  using assms
proof (induction gs arbitrary: st)
  case Nil
  then show ?case by simp
next
  case (Cons g gs)
  then have "utf8_run (utf32_to_8 g) st =
      (replicate (length (utf32_to_8 g) - 1) 0 @ [g], pending (unat g) 0)"
    by (intro utf8_run_utf32_to_8) auto
  then show ?case
    using Cons.IH [of "pending (unat g) 0"] Cons.prems(1)
    by (simp add: utf8_run_append comp_def word_gt_0)
qed

section \<open>Properties\<close>

text \<open>C26: Encoding a sequence of glyphs and decoding the bytes gives the glyphs back, for
  every glyph from U+0001 to U+10FFFF.\<close>

theorem utf8_roundtrip:
  assumes "\<forall>g\<in>set gs. 0 < g \<and> g < 0x110000"
  shows "utf8_decode (utf8_encode gs) = gs"
  using utf8_run_encoded [OF assms, of convert_init]
  by (simp add: utf8_decode_run convert_init_def)

theorem utf8_roundtrip_witness:
  "utf8_decode (utf8_encode [0x41, 0xe9, 0x2122, 0x1f600]) = [0x41, 0xe9, 0x2122, 0x1f600]"
  by (rule utf8_roundtrip) simp

text \<open>C24: The byte-at-a-time decoder computes what the sequence-at-a-time reference does:
  the lead byte fixes the length, a sequence with a wrong continuation byte is one U+FFFD, a
  sequence cut off at the end is dropped, and so are zero glyphs.\<close>

theorem utf8_decode_is_reference:
  "utf8_decode s = filter (\<lambda>g. g \<noteq> 0) (utf8_reference (map char_byte s))"
  by (simp add: utf8_decode_run utf8_run_reference convert_init_def)

text \<open>Whatever bytes the decoder has seen, at most three more are pending, and after
  that many further bytes, whatever they are, it is at a sequence boundary again.\<close>

theorem utf8_resynchronises:
  assumes "st = snd (utf8_run bs convert_init)" "length cs = unat (cs_remaining st)"
  shows "cs_remaining st \<le> 3 \<and> cs_remaining (snd (utf8_run cs st)) = 0"
  using utf8_wf_run [OF utf8_wf_init, of bs] utf8_run_to_boundary [OF assms(2)] assms(1)
  by (simp add: utf8_wf_def)

theorem utf8_resynchronises_witness:
  "cs_remaining (snd (utf8_run [0x3c, 0xff, 0x41] (snd (utf8_run [0x41, 0xf0] convert_init)))) = 0"
proof -
  have "length [0x3c, 0xff, 0x41 :: u8] =
      unat (cs_remaining (snd (utf8_run [0x41, 0xf0] convert_init)))"
    by code_simp
  then show ?thesis
    using utf8_resynchronises [OF refl] by blast
qed

end
