(* ===== verification/Formatter.thy ===== *)
theory Formatter
  imports Utf8 SymbolTable
begin

text \<open>
  \<open>generic_formatter.cpp\<close> and \<open>line_formatter.cpp\<close>.  Every \<open>operator<<\<close> is modelled by
  the sequence of strings it hands to the virtual \<open>real_append\<close>, together with a flag that
  records whether it wrote past a buffer of its own or read beyond what it had stored there; the flag is not in the code, and the theory
  shows that it is never set.  What a derived class does with the strings is the interface
  \<open>text_sink\<close>.
\<close>

section \<open>Formats and the output of an operator\<close>

datatype GenericFormat = GF_Verbatim | GF_HTML | GF_HTMLContent | GF_UTF8

text \<open>The arguments of the successive \<open>real_append\<close> calls, and whether a buffer overflowed.\<close>

type_synonym put_output = "string list \<times> bool"

abbreviation out_text :: "put_output \<Rightarrow> string" where
  "out_text out \<equiv> concat (fst out)"

section \<open>Strings\<close>

record fmt_state =
  fs_mbstate :: convert_state
  fs_tmp :: string
  fs_out :: "string list"
  fs_overrun :: bool

definition tmp_size :: nat where
  "tmp_size = 128"

text \<open>Bytes stored at \<open>tmp + offset\<close>; the offset is the length of \<open>fs_tmp\<close>.\<close>

definition tmp_put :: "string \<Rightarrow> fmt_state \<Rightarrow> fmt_state" where
  "tmp_put s st =
    st\<lparr>fs_tmp := fs_tmp st @ s,
       fs_overrun := (fs_overrun st \<or> tmp_size < length (fs_tmp st) + length s)\<rparr>"

text \<open>
  \<open>snprintf\<close> into the rest of the buffer: it also stores a zero byte, and would truncate a
  text that does not fit although the offset advances by its full length.
\<close>

definition tmp_snprintf :: "string \<Rightarrow> fmt_state \<Rightarrow> fmt_state" where
  "tmp_snprintf s st =
    st\<lparr>fs_tmp := fs_tmp st @ s,
       fs_overrun := (fs_overrun st \<or> tmp_size - length (fs_tmp st) \<le> length s)\<rparr>"

text \<open>\<open>"&#x%x;"\<close>\<close>

definition html_entity :: "u32 \<Rightarrow> string" where
  "html_entity glyph = ''&#x'' @ digits 16 (unat glyph) @ '';''"

definition put_glyph :: "GenericFormat \<Rightarrow> char \<Rightarrow> u32 \<Rightarrow> fmt_state \<Rightarrow> fmt_state" where
  "put_glyph fmt c glyph st =
    (if fmt = GF_UTF8 then tmp_put (map byte_char (utf32_to_8 glyph)) st
     else if glyph < 0x80 then
       (if c = CHR ''<'' \<and> fmt = GF_HTMLContent then tmp_put ''&lt;'' st
        else if c = CHR ''>'' \<and> fmt = GF_HTMLContent then tmp_put ''&rt;'' st
        else if c = CHR ''&'' then tmp_put ''&amp;'' st
        else tmp_put [c] st)
     else tmp_snprintf (html_entity glyph) st)"

definition tmp_flush :: "fmt_state \<Rightarrow> fmt_state" where
  "tmp_flush st =
    (if 100 \<le> length (fs_tmp st)
     then st\<lparr>fs_out := fs_out st @ [fs_tmp st], fs_tmp := ''''\<rparr> else st)"

fun fmt_loop :: "GenericFormat \<Rightarrow> string \<Rightarrow> fmt_state \<Rightarrow> fmt_state" where
  "fmt_loop fmt [] st = st"
| "fmt_loop fmt (c # s) st =
     (let (glyph, mb) = utf8_to_32 (char_byte c) (fs_mbstate st);
          st = st\<lparr>fs_mbstate := mb\<rparr>
      in if glyph = 0 then fmt_loop fmt s st
         else fmt_loop fmt s (tmp_flush (put_glyph fmt c glyph st)))"

definition fmt_init :: fmt_state where
  "fmt_init = \<lparr>fs_mbstate = convert_init, fs_tmp = '''', fs_out = [], fs_overrun = False\<rparr>"

definition fmt_finish :: "fmt_state \<Rightarrow> put_output" where
  "fmt_finish st =
    (fs_out st @ (if 0 < length (fs_tmp st) then [fs_tmp st] else []), fs_overrun st)"

text \<open>\<open>operator<< (std::string_view)\<close>; \<open>const char*\<close> stops at the first zero byte.\<close>

definition put_string_view :: "GenericFormat \<Rightarrow> string \<Rightarrow> put_output" where
  "put_string_view fmt s =
    (if fmt = GF_Verbatim then ([s], False) else fmt_finish (fmt_loop fmt s fmt_init))"

definition c_string :: "string \<Rightarrow> string" where
  "c_string s = takeWhile (\<lambda>c. c \<noteq> CHR 0x00) s"

definition put_c_string :: "GenericFormat \<Rightarrow> string \<Rightarrow> put_output" where
  "put_c_string fmt s = put_string_view fmt (c_string s)"

definition put_symbol :: "symtab \<Rightarrow> GenericFormat \<Rightarrow> symbol \<Rightarrow> put_output" where
  "put_symbol tab fmt s = put_string_view fmt (resolve s tab)"

text \<open>
  \<open>operator<< (std::u32string_view)\<close>.  The verbatim form passes the memory of the string
  through, four bytes a glyph, least significant first.
\<close>

definition u32_memory :: "u32 \<Rightarrow> string" where
  "u32_memory g = map (\<lambda>k. byte_char (ucast (drop_bit (8 * k) g))) [0, 1, 2, 3]"

definition put_glyph32 :: "GenericFormat \<Rightarrow> u32 \<Rightarrow> fmt_state \<Rightarrow> fmt_state" where
  "put_glyph32 fmt glyph st =
    (if fmt = GF_UTF8 then tmp_put (map byte_char (utf32_to_8 glyph)) st
     else if glyph < 0x80 then
       (if glyph = ucast (char_byte (CHR ''<'')) \<and> fmt = GF_HTMLContent then tmp_put ''&lt;'' st
        else if glyph = ucast (char_byte (CHR ''>'')) \<and> fmt = GF_HTMLContent then
          tmp_put ''&rt;'' st
        else if glyph = ucast (char_byte (CHR ''&'')) then tmp_put ''&amp;'' st
        else tmp_put [byte_char (ucast (glyph AND 0xff))] st)
     else tmp_snprintf (html_entity glyph) st)"

fun fmt_loop32 :: "GenericFormat \<Rightarrow> u32 list \<Rightarrow> fmt_state \<Rightarrow> fmt_state" where
  "fmt_loop32 fmt [] st = st"
| "fmt_loop32 fmt (glyph # s) st = fmt_loop32 fmt s (tmp_flush (put_glyph32 fmt glyph st))"

definition put_u32string :: "GenericFormat \<Rightarrow> u32 list \<Rightarrow> put_output" where
  "put_u32string fmt s =
    (if fmt = GF_Verbatim then ([concat (map u32_memory s)], False)
     else fmt_finish (fmt_loop32 fmt s fmt_init))"

section \<open>Characters, truth values and integers\<close>

definition put_bool :: "bool \<Rightarrow> put_output" where
  "put_bool b = ([if b then ''true'' else ''false''], False)"

definition put_char :: "char \<Rightarrow> put_output" where
  "put_char c = ([[c]], False)"

text \<open>
  \<open>std::to_chars\<close> into a local array of \<open>cap\<close> bytes: when the digits do not fit it
  reports an error the code does not look at, which is flagged here as an overrun.
\<close>

definition put_integer :: "nat \<Rightarrow> int \<Rightarrow> put_output" where
  "put_integer cap i = ([to_chars i], cap < length (to_chars i))"

definition put_uint8 :: "u8 \<Rightarrow> put_output" where "put_uint8 i = put_integer 8 (uint i)"
definition put_int8 :: "u8 \<Rightarrow> put_output" where "put_int8 i = put_integer 8 (sint i)"
definition put_uint16 :: "u16 \<Rightarrow> put_output" where "put_uint16 i = put_integer 8 (uint i)"
definition put_int16 :: "u16 \<Rightarrow> put_output" where "put_int16 i = put_integer 8 (sint i)"
definition put_uint32 :: "u32 \<Rightarrow> put_output" where "put_uint32 i = put_integer 12 (uint i)"
definition put_int32 :: "u32 \<Rightarrow> put_output" where "put_int32 i = put_integer 12 (sint i)"
definition put_uint64 :: "u64 \<Rightarrow> put_output" where "put_uint64 i = put_integer 24 (uint i)"
definition put_int64 :: "u64 \<Rightarrow> put_output" where "put_int64 i = put_integer 24 (sint i)"

text \<open>
  For \<open>float\<close> and \<open>double\<close> the text \<open>std::to_chars\<close> chooses, the shortest one that reads back as the
  number, is a parameter; the array has 32 bytes.
\<close>

definition put_floating :: "nat \<Rightarrow> string \<Rightarrow> put_output" where
  "put_floating cap repr = ([repr], cap < length repr)"

definition put_float :: "string \<Rightarrow> put_output" where "put_float repr = put_floating 32 repr"
definition put_double :: "string \<Rightarrow> put_output" where "put_double repr = put_floating 32 repr"

section \<open>\<open>printf\<close>\<close>

text \<open>
  The text \<open>std::vsnprintf\<close> would print with unlimited room is a parameter (\<open>None\<close> when
  it reports an error).  Told that its buffer has \<open>n\<close> bytes, it stores the first \<open>n - 1\<close>
  characters and a zero byte, and anything in those \<open>n\<close> bytes before an error; the buffer really
  has \<open>cap\<close>.  It answers the length of the whole text, or a negative number.
\<close>

definition vsnprintf_buffer :: "nat \<Rightarrow> string \<Rightarrow> string" where
  "vsnprintf_buffer n text = (if n = 0 then [] else take (n - 1) text @ [CHR 0x00])"

definition vsnprintf_into :: "nat \<Rightarrow> nat \<Rightarrow> string option \<Rightarrow> int \<times> string \<times> bool" where
  "vsnprintf_into cap n expansion =
    (case expansion of
       None \<Rightarrow> (- 1, [], cap < n)
     | Some text \<Rightarrow>
         (int (length text), vsnprintf_buffer n text, cap < length (vsnprintf_buffer n text)))"

text \<open>\<open>std::string_view (tmp, n)\<close>: the flag is set when it reaches beyond what has been stored.\<close>

definition buffer_view :: "string \<Rightarrow> nat \<Rightarrow> string \<times> bool" where
  "buffer_view stored n = (take n stored, length stored < n)"

text \<open>\<open>char tmp[128]\<close> of \<open>vprintf\<close>, and the size it passes for it.\<close>

definition vprintf_tmp :: nat where "vprintf_tmp = 128"

definition put_vprintf :: "GenericFormat \<Rightarrow> string \<Rightarrow> string option \<Rightarrow> put_output" where
  "put_vprintf gf fmt expansion =
    (let (retval, tmp, o1) = vsnprintf_into vprintf_tmp vprintf_tmp expansion in
     if retval < 0 then
       (let (ts, o2) = put_string_view gf (c_string fmt) in (ts, o1 \<or> o2))
     else if retval = 0 then ([], o1)
     else if nat retval \<le> vprintf_tmp then
       (let (view, o2) = buffer_view tmp (nat retval); (ts, o3) = put_string_view gf view
        in (ts, o1 \<or> o2 \<or> o3))
     else
       (let large_size = nat (retval + 1);
            (_, large_tmp, o2) = vsnprintf_into large_size large_size expansion;
            (view, o3) = buffer_view large_tmp (nat retval); (ts, o4) = put_string_view gf view
        in (ts, o1 \<or> o2 \<or> o3 \<or> o4)))"

text \<open>\<open>printf\<close> and the overloads for string objects hand their arguments on.\<close>

definition put_printf :: "GenericFormat \<Rightarrow> string \<Rightarrow> string option \<Rightarrow> put_output" where
  "put_printf gf fmt expansion = put_vprintf gf fmt expansion"

definition put_string :: "GenericFormat \<Rightarrow> string \<Rightarrow> put_output" where
  "put_string gf s = put_string_view gf s"

definition put_u32string_object :: "GenericFormat \<Rightarrow> u32 list \<Rightarrow> put_output" where
  "put_u32string_object gf s = put_u32string gf s"

section \<open>The overload set and \<open>append\<close>\<close>

datatype fmt_arg =
    Bool bool | Char char
  | U8 u8 | I8 u8 | U16 u16 | I16 u16 | U32 u32 | I32 u32 | U64 u64 | I64 u64
  | Float string | Double string
  | CString string | View string | View32 "u32 list" | Sym symbol

fun put_arg :: "symtab \<Rightarrow> GenericFormat \<Rightarrow> fmt_arg \<Rightarrow> put_output" where
  "put_arg tab fmt (Bool b) = put_bool b"
| "put_arg tab fmt (Char c) = put_char c"
| "put_arg tab fmt (U8 i) = put_uint8 i"
| "put_arg tab fmt (I8 i) = put_int8 i"
| "put_arg tab fmt (U16 i) = put_uint16 i"
| "put_arg tab fmt (I16 i) = put_int16 i"
| "put_arg tab fmt (U32 i) = put_uint32 i"
| "put_arg tab fmt (I32 i) = put_int32 i"
| "put_arg tab fmt (U64 i) = put_uint64 i"
| "put_arg tab fmt (I64 i) = put_int64 i"
| "put_arg tab fmt (Float repr) = put_float repr"
| "put_arg tab fmt (Double repr) = put_double repr"
| "put_arg tab fmt (CString s) = put_c_string fmt s"
| "put_arg tab fmt (View s) = put_string_view fmt s"
| "put_arg tab fmt (View32 s) = put_u32string fmt s"
| "put_arg tab fmt (Sym s) = put_symbol tab fmt s"

fun put_args :: "symtab \<Rightarrow> GenericFormat \<Rightarrow> fmt_arg list \<Rightarrow> put_output" where
  "put_args tab fmt [] = ([], False)"
| "put_args tab fmt (a # as) =
     (let (cs, o1) = put_arg tab fmt a; (ds, o2) = put_args tab fmt as in (cs @ ds, o1 \<or> o2))"

section \<open>Where the text goes\<close>

text \<open>
  The contract of \<open>real_append\<close>: in a state that is ready for output, it adds the string to
  the end of what has been collected and stays ready.
\<close>

locale text_sink =
  fixes real_append :: "string \<Rightarrow> 's \<Rightarrow> 's"
    and contents :: "'s \<Rightarrow> string"
    and ready :: "'s \<Rightarrow> bool"
  assumes append_contents: "ready s \<Longrightarrow> contents (real_append t s) = contents s @ t"
    and append_ready: "ready s \<Longrightarrow> ready (real_append t s)"
begin

lemma append_all:
  "ready s \<Longrightarrow>
   contents (fold real_append ts s) = contents s @ concat ts \<and> ready (fold real_append ts s)"
  by (induction ts arbitrary: s) (simp_all add: append_contents append_ready)

lemma emit_text: "ready s \<Longrightarrow> contents (fold real_append (fst out) s) = contents s @ out_text out"
  by (simp add: append_all)

text \<open>Only the text matters, not how it was cut into calls.\<close>

lemma emit_cong:
  "ready s \<Longrightarrow> ready s' \<Longrightarrow> contents s = contents s' \<Longrightarrow> out_text a = out_text b \<Longrightarrow>
   contents (fold real_append (fst a) s) = contents (fold real_append (fst b) s')"
  by (simp add: append_all)

end

section \<open>The line formatter\<close>

record line_formatter =
  lf_format :: GenericFormat
  lf_buffer :: string

definition lf_new :: "GenericFormat \<Rightarrow> line_formatter" where
  "lf_new fmt = \<lparr>lf_format = fmt, lf_buffer = ''''\<rparr>"

definition lf_new_buffer :: "string \<Rightarrow> GenericFormat \<Rightarrow> line_formatter" where
  "lf_new_buffer buf fmt = \<lparr>lf_format = fmt, lf_buffer = buf\<rparr>"

definition lf_clear :: "line_formatter \<Rightarrow> line_formatter" where
  "lf_clear lf = lf\<lparr>lf_buffer := ''''\<rparr>"

definition lf_empty :: "line_formatter \<Rightarrow> bool" where
  "lf_empty lf \<longleftrightarrow> lf_buffer lf = ''''"

definition lf_real_append :: "string \<Rightarrow> line_formatter \<Rightarrow> line_formatter" where
  "lf_real_append s lf = lf\<lparr>lf_buffer := lf_buffer lf @ s\<rparr>"

definition lf_append :: "symtab \<Rightarrow> fmt_arg list \<Rightarrow> line_formatter \<Rightarrow> line_formatter" where
  "lf_append tab args lf = fold lf_real_append (fst (put_args tab (lf_format lf) args)) lf"

interpretation lf: text_sink lf_real_append lf_buffer "\<lambda>_. True"
  by unfold_locales (simp_all add: lf_real_append_def)

section \<open>What one glyph adds\<close>

text \<open>The text an iteration adds for a glyph completed by the byte \<open>c\<close>.\<close>

definition glyph_text :: "GenericFormat \<Rightarrow> char \<Rightarrow> u32 \<Rightarrow> string" where
  "glyph_text fmt c glyph =
    (if fmt = GF_UTF8 then map byte_char (utf32_to_8 glyph)
     else if glyph < 0x80 then
       (if c = CHR ''<'' \<and> fmt = GF_HTMLContent then ''&lt;''
        else if c = CHR ''>'' \<and> fmt = GF_HTMLContent then ''&rt;''
        else if c = CHR ''&'' then ''&amp;''
        else [c])
     else html_entity glyph)"

lemma length_html_entity: "length (html_entity glyph) \<le> 12"
proof -
  have "unat glyph < 16 ^ 8"
    using unsigned_less [of glyph] by simp
  then show ?thesis
    using digits_length [of 16 "unat glyph" 8] by (simp add: html_entity_def)
qed

lemma length_glyph_text: "length (glyph_text fmt c glyph) \<le> 12"
  using length_html_entity [of glyph] length_utf32_to_8 [of glyph] by (simp add: glyph_text_def)

text \<open>The loop's invariant: less than 100 bytes wait in the buffer, which never overflowed,
  and every string handed on is between 100 and 111 bytes long.\<close>

definition fmt_inv :: "fmt_state \<Rightarrow> bool" where
  "fmt_inv st \<longleftrightarrow> length (fs_tmp st) < 100 \<and> \<not> fs_overrun st \<and>
     (\<forall>s\<in>set (fs_out st). 100 \<le> length s \<and> length s \<le> 111)"

definition fmt_text :: "fmt_state \<Rightarrow> string" where
  "fmt_text st = concat (fs_out st) @ fs_tmp st"

lemma fmt_inv_init: "fmt_inv (fmt_init)" "fmt_text fmt_init = ''''" "fs_mbstate fmt_init = convert_init"
  by (simp_all add: fmt_inv_def fmt_init_def fmt_text_def)

lemma fmt_add:
  assumes "fmt_inv st" "length s \<le> 12" "st' = tmp_put s st \<or> st' = tmp_snprintf s st"
  shows "fmt_inv (tmp_flush st')" "fmt_text (tmp_flush st') = fmt_text st @ s"
    "fs_mbstate (tmp_flush st') = fs_mbstate st"
  using assms
  by (auto simp: fmt_inv_def fmt_text_def tmp_put_def tmp_snprintf_def tmp_flush_def tmp_size_def)

lemma fmt_inv_mbstate [simp]:
  "fmt_inv (st\<lparr>fs_mbstate := mb\<rparr>) = fmt_inv st" "fmt_text (st\<lparr>fs_mbstate := mb\<rparr>) = fmt_text st"
  by (simp_all add: fmt_inv_def fmt_text_def)

lemma put_glyph_cases:
  "put_glyph fmt c g st = tmp_put (glyph_text fmt c g) st \<or>
   put_glyph fmt c g st = tmp_snprintf (glyph_text fmt c g) st"
  by (simp add: put_glyph_def glyph_text_def)

lemma fmt_loop_spec:
  assumes "fmt_inv st"
  shows "fmt_inv (fmt_loop fmt s st) \<and>
    fmt_text (fmt_loop fmt s st) = fmt_text st @
      concat (map (\<lambda>(c, g). glyph_text fmt c g)
        (filter (\<lambda>(c, g). g \<noteq> 0) (zip s (fst (utf8_run (map char_byte s) (fs_mbstate st))))))"
  using assms
proof (induction s arbitrary: st)
  case (Cons c s)
  obtain g mb where gm: "utf8_to_32 (char_byte c) (fs_mbstate st) = (g, mb)"
    by (cases "utf8_to_32 (char_byte c) (fs_mbstate st)")
  show ?case
  proof (cases "g = 0")
    case True
    then show ?thesis
      using Cons.IH [of "st\<lparr>fs_mbstate := mb\<rparr>"] Cons.prems gm by (simp add: utf8_run_Cons)
  next
    case False
    let ?st = "tmp_flush (put_glyph fmt c g (st\<lparr>fs_mbstate := mb\<rparr>))"
    have "fmt_inv ?st" "fmt_text ?st = fmt_text st @ glyph_text fmt c g" "fs_mbstate ?st = mb"
      using fmt_add [OF _ length_glyph_text put_glyph_cases, of "st\<lparr>fs_mbstate := mb\<rparr>" fmt c g]
        Cons.prems by simp_all
    then show ?thesis
      using Cons.IH [of ?st] False gm by (simp add: utf8_run_Cons)
  qed
qed simp

lemma fmt_finish_spec:
  "fmt_inv st \<Longrightarrow> out_text (fmt_finish st) = fmt_text st \<and> \<not> snd (fmt_finish st) \<and>
    (\<forall>s\<in>set (fst (fmt_finish st)). s \<noteq> '''' \<and> length s \<le> 111)"
  by (auto simp: fmt_finish_def fmt_text_def fmt_inv_def)

text \<open>The text for a string in any format but the verbatim one.\<close>

lemma put_string_view_text:
  assumes "fmt \<noteq> GF_Verbatim"
  shows "out_text (put_string_view fmt s) =
    concat (map (\<lambda>(c, g). glyph_text fmt c g)
      (filter (\<lambda>(c, g). g \<noteq> 0) (zip s (fst (utf8_run (map char_byte s) convert_init)))))"
  using assms fmt_loop_spec [OF fmt_inv_init(1), of fmt s] fmt_finish_spec fmt_inv_init
  by (simp add: put_string_view_def)

section \<open>The same for UTF-32 strings\<close>

lemma ucast_32_8_char:
  "g < 0x80 \<Longrightarrow> g = ucast (char_byte c) \<longleftrightarrow> byte_char (ucast (g AND 0xff)) = c"
  for g :: u32
proof -
  assume "g < 0x80"
  have "g AND 0xff = g AND mask 8"
    by (simp add: mask_eq_exp_minus_1)
  then have "unat (g AND 0xff) = unat g"
    using \<open>g < 0x80\<close> by (simp add: unat_and_low word_less_nat_alt)
  then have eq: "g AND 0xff = g"
    by (simp add: word_unat_eq_iff)
  have "unat (ucast g :: u8) = unat g"
    using \<open>g < 0x80\<close> by (simp add: unsigned_ucast_eq take_bit_eq_mod word_less_nat_alt)
  then have "g = ucast (char_byte c) \<longleftrightarrow> (ucast g :: u8) = char_byte c"
    by (simp add: word_unat_eq_iff unat_ucast_8_32)
  then show ?thesis
    unfolding eq by (metis byte_char_char_byte char_byte_byte_char)
qed

definition glyph32_text :: "GenericFormat \<Rightarrow> u32 \<Rightarrow> string" where
  "glyph32_text fmt g = glyph_text fmt (byte_char (ucast (g AND 0xff))) g"

lemma put_glyph32_cases:
  "put_glyph32 fmt g st = tmp_put (glyph32_text fmt g) st \<or>
   put_glyph32 fmt g st = tmp_snprintf (glyph32_text fmt g) st"
  by (simp add: put_glyph32_def glyph32_text_def glyph_text_def ucast_32_8_char)

lemma length_glyph32_text: "length (glyph32_text fmt g) \<le> 12"
  by (simp add: glyph32_text_def length_glyph_text)

lemma fmt_loop32_spec:
  "fmt_inv st \<Longrightarrow> fmt_inv (fmt_loop32 fmt gs st) \<and>
    fmt_text (fmt_loop32 fmt gs st) = fmt_text st @ concat (map (glyph32_text fmt) gs)"
proof (induction gs arbitrary: st)
  case (Cons g gs)
  then show ?case
    using fmt_add [OF Cons.prems length_glyph32_text put_glyph32_cases, of fmt g] by simp
qed simp

lemma put_u32string_text:
  "fmt \<noteq> GF_Verbatim \<Longrightarrow>
   out_text (put_u32string fmt gs) = concat (map (glyph32_text fmt) gs)"
  using fmt_loop32_spec [OF fmt_inv_init(1), of fmt gs] fmt_finish_spec fmt_inv_init
  by (simp add: put_u32string_def)

text \<open>On well-formed text the two overloads agree: what they add depends on the glyph only.\<close>

lemma utf32_to_8_ascii: "g < 0x80 \<Longrightarrow> utf32_to_8 g = [ucast (g AND 0xff)]"
proof -
  assume g: "g < 0x80"
  have "g AND 0xff = g AND mask 8"
    by (simp add: mask_eq_exp_minus_1)
  then have "unat (g AND 0xff) = unat g"
    using g by (simp add: unat_and_low word_less_nat_alt)
  then have "g AND 0xff = g"
    by (simp add: word_unat_eq_iff)
  then show ?thesis
    using g by (simp add: utf32_to_8_def)
qed

lemma filter_zip_last:
  "length cs = Suc n \<Longrightarrow> g \<noteq> 0 \<Longrightarrow>
   filter (\<lambda>(c, g). g \<noteq> 0) (zip cs (replicate n 0 @ [g])) = [(last cs, g :: u32)]"
proof (induction n arbitrary: cs)
  case 0
  then obtain c where "cs = [c]" by (cases cs) auto
  with 0 show ?case by simp
next
  case (Suc n)
  then obtain c ds where "cs = c # ds" "length ds = Suc n" by (cases cs) auto
  with Suc show ?case by (cases ds) auto
qed

lemma encoded_glyph_texts:
  assumes "\<forall>g\<in>set gs. 0 < g \<and> g < 0x110000" "cs_remaining st = 0"
  shows "concat (map (\<lambda>(c, g). glyph_text fmt c g) (filter (\<lambda>(c, g). g \<noteq> 0)
      (zip (utf8_encode gs) (fst (utf8_run (map char_byte (utf8_encode gs)) st))))) =
    concat (map (glyph32_text fmt) gs)"
  using assms
proof (induction gs arbitrary: st)
  case (Cons g gs)
  then have run: "utf8_run (utf32_to_8 g) st =
      (replicate (length (utf32_to_8 g) - 1) 0 @ [g], pending (unat g) 0)"
    by (intro utf8_run_utf32_to_8) auto
  have ne: "utf32_to_8 g \<noteq> []" and g: "g \<noteq> 0"
    using Cons.prems by (auto simp: utf32_to_8_empty_iff)
  have "filter (\<lambda>(c, g). g \<noteq> 0) (zip (map byte_char (utf32_to_8 g))
      (replicate (length (utf32_to_8 g) - 1) 0 @ [g])) =
      [(last (map byte_char (utf32_to_8 g)), g)]"
    using ne g by (intro filter_zip_last) (simp_all add: Suc_diff_Suc)
  moreover have "glyph_text fmt (last (map byte_char (utf32_to_8 g))) g = glyph32_text fmt g"
    by (auto simp: glyph32_text_def glyph_text_def utf32_to_8_ascii)
  moreover have "zip (map byte_char (utf32_to_8 g) @ cs) ((replicate (length (utf32_to_8 g) - 1) 0 @ [g]) @ ys) =
      zip (map byte_char (utf32_to_8 g)) (replicate (length (utf32_to_8 g) - 1) 0 @ [g]) @ zip cs ys"
    for cs ys
    using ne by (intro zip_append) (simp add: Suc_diff_Suc)
  ultimately show ?case
    using Cons.IH [of "pending (unat g) 0"] Cons.prems(1) run
    by (simp add: utf8_run_append comp_def)
qed simp

section \<open>Which characters an escaped text can contain\<close>

lemma digit_char_range: "d < 16 \<Longrightarrow> digit_char d \<in> set ''0123456789abcdef''"
  unfolding digit_char_def by (rule nth_mem) simp

lemma digits_charset: "2 \<le> b \<Longrightarrow> b \<le> 16 \<Longrightarrow> set (digits b n) \<subseteq> set ''0123456789abcdef''"
proof (induction b n rule: digits.induct)
  case (1 b n)
  show ?case
  proof (cases "n < b")
    case True
    then have "digits b n = [digit_char n]"
      by (subst digits.simps) simp
    with digit_char_range [of n] True "1.prems" show ?thesis
      by auto
  next
    case False
    then have eq: "digits b n = digits b (n div b) @ [digit_char (n mod b)]"
      using "1.prems" by (subst digits.simps) simp
    have "n mod b < 16"
      using "1.prems" mod_less_divisor [of b n] by linarith
    then show ?thesis
      using "1.IH" "1.prems" False digit_char_range [of "n mod b"] unfolding eq by simp
  qed
qed

lemma html_entity_charset: "set (html_entity g) \<subseteq> set ''&#x;'' \<union> set ''0123456789abcdef''"
proof -
  have "set (html_entity g) = set ''&#x;'' \<union> set (digits 16 (unat g))"
    unfolding html_entity_def set_append by auto
  then show ?thesis
    using Un_mono [OF subset_refl digits_charset [of 16 "unat g"]] by simp
qed

lemma glyph_text_no_markup:
  "CHR ''<'' \<notin> set (glyph_text GF_HTMLContent c g)" "CHR ''>'' \<notin> set (glyph_text GF_HTMLContent c g)"
proof -
  have "CHR ''<'' \<notin> set (html_entity g)" "CHR ''>'' \<notin> set (html_entity g)"
    using subsetD [OF html_entity_charset [of g]] by fastforce+
  then show "CHR ''<'' \<notin> set (glyph_text GF_HTMLContent c g)"
    "CHR ''>'' \<notin> set (glyph_text GF_HTMLContent c g)"
    by (auto simp: glyph_text_def)
qed

section \<open>Integers fit their buffers\<close>

lemma length_to_chars:
  assumes "\<bar>i\<bar> < 10 ^ k" "0 < k"
  shows "length (to_chars i) \<le> Suc k"
proof -
  have "nat \<bar>i\<bar> < 10 ^ k"
    using assms(1) by (simp add: nat_less_iff)
  then have "length (digits 10 (nat \<bar>i\<bar>)) \<le> k"
    using assms(2) by (intro digits_length) auto
  then show ?thesis
    by (auto simp: to_chars_def)
qed

lemma put_integer_fits:
  fixes w :: "'a::len word"
  assumes "2 ^ LENGTH('a) \<le> (10 :: int) ^ k" "0 < k" "k < cap"
  shows "\<not> snd (put_integer cap (uint w))" "\<not> snd (put_integer cap (sint w))"
proof -
  have "(2 :: int) ^ (LENGTH('a) - 1) < 2 ^ LENGTH('a)"
    by (rule power_strict_increasing) simp_all
  then have "\<bar>sint w\<bar> < 10 ^ k"
    using assms(1) sint_greater_eq [of w] sint_less [of w] unfolding abs_less_iff One_nat_def
    by linarith
  moreover have "uint w < 10 ^ k"
    by (rule order.strict_trans2 [OF uint_bounded assms(1)])
  then have "\<bar>uint w\<bar> < 10 ^ k"
    by simp
  ultimately show "\<not> snd (put_integer cap (uint w))" "\<not> snd (put_integer cap (sint w))"
    using length_to_chars [of "uint w" k] length_to_chars [of "sint w" k] assms(2,3)
    by (simp_all add: put_integer_def)
qed

lemma put_string_view_safe: "\<not> snd (put_string_view fmt s)"
  using fmt_loop_spec [OF fmt_inv_init(1), of fmt s] fmt_finish_spec
  by (simp add: put_string_view_def)

lemma put_u32string_safe: "\<not> snd (put_u32string fmt gs)"
  using fmt_loop32_spec [OF fmt_inv_init(1), of fmt gs] fmt_finish_spec
  by (simp add: put_u32string_def)

lemma put_integers_safe:
  "\<not> snd (put_uint8 a)" "\<not> snd (put_int8 a)" "\<not> snd (put_uint16 b)" "\<not> snd (put_int16 b)"
  "\<not> snd (put_uint32 c)" "\<not> snd (put_int32 c)" "\<not> snd (put_uint64 d)" "\<not> snd (put_int64 d)"
  unfolding put_uint8_def put_int8_def put_uint16_def put_int16_def put_uint32_def put_int32_def
    put_uint64_def put_int64_def
  by (rule put_integer_fits [where k = 5] put_integer_fits [where k = 10]
      put_integer_fits [where k = 20]; simp; fail)+

lemmas formatter_eval =
  put_string_view_def put_u32string_def fmt_init_def utf8_to_32_def utf8_start_def
  utf8_continue_def convert_init_def char_byte_def tmp_put_def tmp_flush_def put_glyph_def
  put_glyph32_def tmp_size_def fmt_finish_def html_entity_def tmp_snprintf_def digits.simps
  digit_char_def

text \<open>The longest texts of a \<open>float\<close> and a \<open>double\<close> have 15 and 24 characters, for example
  \<open>-1.17549435e-38\<close> and \<open>-2.2250738585072014e-308\<close>.\<close>

fun digits_fit :: "fmt_arg \<Rightarrow> bool" where
  "digits_fit (Float repr) \<longleftrightarrow> length repr \<le> 15"
| "digits_fit (Double repr) \<longleftrightarrow> length repr \<le> 24"
| "digits_fit _ = True"

lemma put_arg_safe: "digits_fit a \<Longrightarrow> \<not> snd (put_arg tab fmt a)"
  by (cases a) (simp_all add: put_integers_safe put_string_view_safe put_u32string_safe
      put_c_string_def put_symbol_def put_bool_def put_char_def put_float_def put_double_def put_floating_def)

lemma put_args_safe: "list_all digits_fit as \<Longrightarrow> \<not> snd (put_args tab fmt as)"
proof (induction as)
  case (Cons a as)
  then show ?case
    using put_arg_safe [of a tab fmt] by (auto split: prod.splits)
qed simp

lemma vsnprintf_fits: "\<not> snd (snd (vsnprintf_into n n expansion))"
  by (auto simp: vsnprintf_into_def vsnprintf_buffer_def split: option.split)

lemma put_vprintf_safe: "\<not> snd (put_vprintf gf fmt expansion)"
proof (cases expansion)
  case None
  then show ?thesis
    using put_string_view_safe [of gf "c_string fmt"]
    by (simp add: put_vprintf_def vsnprintf_into_def split_beta)
next
  case (Some printed)
  have "\<not> snd (buffer_view (vsnprintf_buffer n printed) (length printed))" if "length printed \<le> n" "0 < n" for n
    using that by (auto simp: buffer_view_def vsnprintf_buffer_def)
  then show ?thesis
    using Some put_string_view_safe vsnprintf_fits [of vprintf_tmp expansion]
      vsnprintf_fits [of "nat (int (length printed) + 1)" expansion]
    by (simp add: put_vprintf_def split_beta Let_def vsnprintf_into_def vprintf_tmp_def)
qed

lemma put_args_text: "out_text (put_args tab fmt as) = concat (map (\<lambda>a. out_text (put_arg tab fmt a)) as)"
  by (induction as) (auto split: prod.splits)

lemma put_utf8_text: "out_text (put_string_view GF_UTF8 s) = utf8_encode (utf8_decode s)"
proof -
  have "concat (map (\<lambda>(c, g). glyph_text GF_UTF8 c g) (filter (\<lambda>(c, g). g \<noteq> 0) (zip cs gs))) =
      utf8_encode (filter (\<lambda>g. g \<noteq> 0) gs)" if "length cs = length gs" for cs and gs :: "u32 list"
    using that by (induction cs gs rule: list_induct2) (simp_all add: glyph_text_def)
  then show ?thesis
    by (simp add: put_string_view_text utf8_decode_run)
qed

lemma put_utf8_valid:
  "\<forall>g\<in>set gs. 0 < g \<and> g < 0x110000 \<Longrightarrow>
   out_text (put_string_view fmt (utf8_encode gs)) =
     (if fmt = GF_Verbatim then utf8_encode gs else concat (map (glyph32_text fmt) gs))"
  using encoded_glyph_texts [of gs convert_init fmt]
  by (simp add: put_string_view_text convert_init_def) (simp add: put_string_view_def)

section \<open>Properties\<close>

text \<open>C10: No sequence of insertions, whatever the types, values and format, writes past one of
  the formatter's stack buffers (128 bytes for strings; 8, 12 and 24 for integers; 32 for
  floating-point numbers), and \<open>vprintf\<close> neither writes past its own 128 bytes or the larger
  buffer it makes for a longer text nor reads beyond what was stored there.\<close>

theorem formatter_no_overrun:
  assumes "list_all digits_fit args"
  shows "\<not> snd (put_args tab fmt args) \<and> (\<forall>expansion. \<not> snd (put_vprintf fmt format expansion))"
  using assms by (simp add: put_args_safe put_vprintf_safe)

theorem formatter_no_overrun_witness:
  "\<not> snd (put_args boot_table GF_HTML
      [Double ''-2.2250738585072014e-308'', Float ''-1.17549435e-38'', View ''<&>'', I64 (- 1)])"
  using formatter_no_overrun [of
      "[Double ''-2.2250738585072014e-308'', Float ''-1.17549435e-38'', View ''<&>'', I64 (- 1)]"
      boot_table GF_HTML "''''"] by simp

text \<open>In the UTF8 format a string comes out as the encoding of what the decoder reads from
  it: invalid sequences become U+FFFD, zero bytes and a cut-off tail vanish.\<close>

theorem utf8_format_normalises:
  "out_text (put_string_view GF_UTF8 s) =
    utf8_encode (filter (\<lambda>g. g \<noteq> 0) (utf8_reference (map char_byte s)))"
  by (simp add: put_utf8_text utf8_decode_run utf8_run_reference convert_init_def)

text \<open>C23: Escaped for HTML content, no string of bytes, valid UTF-8 or not, produces a character
  that opens or closes a tag.\<close>

theorem html_content_has_no_tags:
  "{CHR ''<'', CHR ''>''} \<inter> set (out_text (put_string_view GF_HTMLContent s)) = {}"
proof -
  have "CHR ''<'' \<notin> set (out_text (put_string_view GF_HTMLContent s)) \<and>
      CHR ''>'' \<notin> set (out_text (put_string_view GF_HTMLContent s))"
    using glyph_text_no_markup by (auto simp: put_string_view_text simp del: glyph_text_def)
  then show ?thesis by blast
qed

text \<open>C36: For text made of glyphs from U+0001 to U+10FFFF, the UTF-8 and the UTF-32 overloads
  produce the same output in every format that looks at the text.\<close>

theorem utf8_and_utf32_agree:
  assumes "fmt \<noteq> GF_Verbatim" "\<forall>g\<in>set gs. 0 < g \<and> g < 0x110000"
  shows "out_text (put_string_view fmt (utf8_encode gs)) = out_text (put_u32string fmt gs)"
  using assms by (simp add: put_utf8_valid put_u32string_text)

theorem utf8_and_utf32_agree_witness:
  "out_text (put_string_view GF_HTMLContent (utf8_encode [0x3c, 0x2122])) =
   out_text (put_u32string GF_HTMLContent [0x3c, 0x2122])"
  by (rule utf8_and_utf32_agree) simp_all

text \<open>C37: \<open>vprintf\<close> formats the expansion as if it had been inserted as a string, except that an
  expansion of exactly 128 characters loses its last one to a zero byte.\<close>

theorem vprintf_output:
  "out_text (put_vprintf gf fmt (Some text)) =
    out_text (put_string_view gf
      (if length text = 128 then butlast text @ [CHR 0x00] else text))"
proof -
  have empty: "out_text (put_string_view gf []) = []"
    by (simp add: put_string_view_def fmt_finish_def fmt_init_def)
  have "take 127 text @ [CHR 0x00] = butlast text @ [CHR 0x00]" if "length text = 128"
    using that by (simp add: butlast_conv_take)
  then show ?thesis
    using empty
    by (auto simp: put_vprintf_def vsnprintf_into_def vsnprintf_buffer_def buffer_view_def vprintf_tmp_def
        nat_add_distrib Let_def split_beta)
qed

text \<open>The entity written for the character \<open>>\<close> is \<open>&rt;\<close>.\<close>

theorem html_greater_entity:
  "out_text (put_string_view GF_HTMLContent ''a>b'') = ''a&rt;b''"
  by (simp add: formatter_eval)

end
