(* ===== verification/Logger.thy ===== *)
theory Logger
  imports Formatter "HOL-Library.Signed_Division"
begin

text \<open>
  \<open>logger.cpp\<close>, \<open>i_log_callback.h\<close> and \<open>console_log_callback.cpp\<close>: a logger cuts a
  message into lines and hands them to a callback, if it has one.  The callback's state is of
  an arbitrary type and its virtual function \<open>log_message\<close> is an argument of the logger's
  operations; the contract of a callback that only ever adds output is the locale
  \<open>log_sink\<close>, met by the console callback and by the recording callback of the tests.
\<close>

section \<open>Levels, callbacks, loggers\<close>

datatype LogLevel = Debug | Info | Error

type_synonym 'c log_message = "LogLevel \<Rightarrow> string \<Rightarrow> 'c \<Rightarrow> 'c"

record 'c logger =
  lg_callback :: "'c option"

definition logger_new :: "'c logger" where
  "logger_new = \<lparr>lg_callback = None\<rparr>"

definition logger_new_callback :: "'c \<Rightarrow> 'c logger" where
  "logger_new_callback cb = \<lparr>lg_callback = Some cb\<rparr>"

definition set_log_callback :: "'c option \<Rightarrow> 'c logger \<Rightarrow> 'c logger" where
  "set_log_callback cb lg = lg\<lparr>lg_callback := cb\<rparr>"

definition log_callback :: "'c logger \<Rightarrow> 'c option" where
  "log_callback lg = lg_callback lg"

section \<open>\<open>Logger::log\<close>\<close>

text \<open>Plain characters are compared as signed numbers, as the code does.\<close>

fun trim_end :: "string \<Rightarrow> nat \<Rightarrow> nat \<Rightarrow> nat" where
  "trim_end message start e =
    (if start < e \<and> char_int (message ! (e - 1)) \<le> 32 then trim_end message start (e - 1)
     else e)"

declare trim_end.simps [simp del]

definition line_end :: "string \<Rightarrow> nat \<Rightarrow> nat" where
  "line_end message start =
    (case sv_find (CHR 0x0A) start message of None \<Rightarrow> length message | Some i \<Rightarrow> i)"

lemma sv_find_if_ge: "sv_find_if P pos s = Some i \<Longrightarrow> pos \<le> i \<and> i < length s"
  by (auto simp: sv_find_if_def find_Some_iff)

lemma line_end_ge: "start < length message \<Longrightarrow> start \<le> line_end message start"
  by (auto simp: line_end_def sv_find_def dest: sv_find_if_ge split: option.split)

function (sequential) log_loop ::
  "'c log_message \<Rightarrow> LogLevel \<Rightarrow> string \<Rightarrow> nat \<Rightarrow> 'c \<Rightarrow> 'c" where
  "log_loop log_message level message start cb =
    (if start < length message then
       (let newline = line_end message start;
            e = trim_end message start newline;
            cb' = (if start < e
                   then log_message level (sv_substr start (Some (e - start)) message) cb
                   else cb)
        in log_loop log_message level message (newline + 1) cb')
     else cb)"
  by pat_completeness auto
termination
proof (relation "measure (\<lambda>(_, _, message, start, _). length message - start)", goal_cases)
  case 1
  then show ?case by simp
next
  case (2 log_message level message start cb x xa xb)
  then show ?case
    using line_end_ge [of start message] by (auto simp: Let_def)
qed

declare log_loop.simps [simp del]

definition logger_log :: "'c log_message \<Rightarrow> LogLevel \<Rightarrow> string \<Rightarrow> 'c logger \<Rightarrow> 'c logger" where
  "logger_log log_message level message lg =
    (case lg_callback lg of
       None \<Rightarrow> lg
     | Some cb \<Rightarrow> lg\<lparr>lg_callback := Some (log_loop log_message level message 0 cb)\<rparr>)"

section \<open>Log streams\<close>

text \<open>
  A \<open>LogStream\<close> is a line formatter in the UTF8 format whose destructor logs what it
  collected; \<open>logf\<close> writes into a temporary one.
\<close>

record log_stream = line_formatter +
  ls_level :: LogLevel

definition log_stream_new :: "LogLevel \<Rightarrow> log_stream" where
  "log_stream_new level = line_formatter.extend (lf_new GF_UTF8) \<lparr>ls_level = level\<rparr>"

definition log_stream_append :: "symtab \<Rightarrow> fmt_arg list \<Rightarrow> log_stream \<Rightarrow> log_stream" where
  "log_stream_append tab args ls =
    ls\<lparr>lf_buffer := lf_buffer (lf_append tab args (line_formatter.truncate ls))\<rparr>"

definition log_stream_destroy :: "'c log_message \<Rightarrow> log_stream \<Rightarrow> 'c logger \<Rightarrow> 'c logger" where
  "log_stream_destroy log_message ls lg = logger_log log_message (ls_level ls) (lf_buffer ls) lg"

definition log_line ::
  "'c log_message \<Rightarrow> symtab \<Rightarrow> LogLevel \<Rightarrow> fmt_arg list \<Rightarrow> 'c logger \<Rightarrow> 'c logger" where
  "log_line log_message tab level args lg =
    log_stream_destroy log_message (log_stream_append tab args (log_stream_new level)) lg"

definition logf ::
  "'c log_message \<Rightarrow> LogLevel \<Rightarrow> string \<Rightarrow> string option \<Rightarrow> 'c logger \<Rightarrow> 'c logger" where
  "logf log_message level fmt expansion lg =
    (let out = put_vprintf GF_UTF8 fmt expansion;
         ls = log_stream_new level
     in log_stream_destroy log_message
          (ls\<lparr>lf_buffer := lf_buffer (fold lf_real_append (fst out) (line_formatter.truncate ls))\<rparr>)
          lg)"

text \<open>The streams of a logger, by level.\<close>

definition logger_stream :: "LogLevel \<Rightarrow> log_stream" where "logger_stream level = log_stream_new level"
definition logger_debug :: log_stream where "logger_debug = log_stream_new Debug"
definition logger_info :: log_stream where "logger_info = log_stream_new Info"
definition logger_error :: log_stream where "logger_error = log_stream_new Error"

section \<open>The console callback\<close>

datatype console_stream = Stdout | Stderr

record console =
  con_stdout :: string
  con_stderr :: string

definition console_prefix :: "LogLevel \<Rightarrow> string" where
  "console_prefix level =
    (case level of Debug \<Rightarrow> ''[DEBUG] '' | Info \<Rightarrow> ''[INFO] '' | Error \<Rightarrow> ''[ERROR] '')"

definition console_log_message :: "LogLevel \<Rightarrow> string \<Rightarrow> console \<Rightarrow> console" where
  "console_log_message level message con =
    (let text = console_prefix level @ message @ [CHR 0x0A]
     in case level of
          Debug \<Rightarrow> con\<lparr>con_stdout := con_stdout con @ text\<rparr>
        | Info \<Rightarrow> con\<lparr>con_stdout := con_stdout con @ text\<rparr>
        | Error \<Rightarrow> con\<lparr>con_stderr := con_stderr con @ text\<rparr>)"

definition console_text :: "console_stream \<Rightarrow> console \<Rightarrow> string" where
  "console_text k con = (case k of Stdout \<Rightarrow> con_stdout con | Stderr \<Rightarrow> con_stderr con)"

definition console_piece :: "console_stream \<Rightarrow> LogLevel \<Rightarrow> string \<Rightarrow> string" where
  "console_piece k level message =
    (if (k = Stderr) = (level = Error) then console_prefix level @ message @ [CHR 0x0A] else '''')"

section \<open>The clock of a callback\<close>

text \<open>\<open>now\<close> gives callbacks the local time.  The system clock counts nanoseconds from the epoch,
  which the cast cuts to seconds towards the epoch; \<open>localtime_r\<close> is a parameter.\<close>

definition callback_now :: "(int \<Rightarrow> 'tm) \<Rightarrow> int \<Rightarrow> 'tm" where
  "callback_now localtime_r time_since_epoch =
    (let now_time = time_since_epoch sdiv 1000000000 in localtime_r now_time)"

section \<open>The recording callback\<close>

record mock_logger =
  log_debug :: "string list"
  log_info :: "string list"
  log_error :: "string list"

definition mock_log_message :: "LogLevel \<Rightarrow> string \<Rightarrow> mock_logger \<Rightarrow> mock_logger" where
  "mock_log_message level message ml =
    (case level of
       Debug \<Rightarrow> ml\<lparr>log_debug := log_debug ml @ [message]\<rparr>
     | Info \<Rightarrow> ml\<lparr>log_info := log_info ml @ [message]\<rparr>
     | Error \<Rightarrow> ml\<lparr>log_error := log_error ml @ [message]\<rparr>)"

definition mock_lines :: "LogLevel \<Rightarrow> mock_logger \<Rightarrow> string list" where
  "mock_lines level ml =
    (case level of Debug \<Rightarrow> log_debug ml | Info \<Rightarrow> log_info ml | Error \<Rightarrow> log_error ml)"

section \<open>What is logged\<close>

text \<open>The lines of a message, without what the trimming drops and without empty ones.\<close>

fun split_lines :: "string \<Rightarrow> string list" where
  "split_lines [] = [[]]"
| "split_lines (c # s) =
     (if c = CHR 0x0A then [] # split_lines s
      else (c # hd (split_lines s)) # tl (split_lines s))"

definition trim_right :: "string \<Rightarrow> string" where
  "trim_right s = rev (dropWhile (\<lambda>c. char_int c \<le> 32) (rev s))"

definition log_lines :: "string \<Rightarrow> string list" where
  "log_lines message = filter (\<lambda>l. l \<noteq> []) (map trim_right (split_lines message))"

lemma trim_end_cases:
  "start < e \<Longrightarrow> char_int (message ! (e - 1)) \<le> 32 \<Longrightarrow>
   trim_end message start e = trim_end message start (e - 1)"
  "\<not> (start < e \<and> char_int (message ! (e - 1)) \<le> 32) \<Longrightarrow> trim_end message start e = e"
  using trim_end.simps [of message start e] by (simp, metis)

lemma trim_right_snoc:
  "trim_right [] = []"
  "trim_right (s @ [c]) = (if char_int c \<le> 32 then trim_right s else s @ [c])"
  by (simp_all add: trim_right_def)

lemma take_drop_snoc:
  "start < e \<Longrightarrow> e \<le> length s \<Longrightarrow>
   take (e - start) (drop start s) = take (e - 1 - start) (drop start s) @ [s ! (e - 1)]"
  using take_Suc_conv_app_nth [of "e - 1 - start" "drop start s"]
  by (simp add: Suc_diff_le Suc_diff_Suc)

lemma trim_end_take:
  "start \<le> e \<Longrightarrow> e \<le> length message \<Longrightarrow>
   start \<le> trim_end message start e \<and> trim_end message start e \<le> e \<and>
   take (trim_end message start e - start) (drop start message) =
   trim_right (take (e - start) (drop start message))"
proof (induction message start e rule: trim_end.induct)
  case (1 message start e)
  consider "start = e" | "start < e" "char_int (message ! (e - 1)) \<le> 32"
    | "start < e" "\<not> char_int (message ! (e - 1)) \<le> 32"
    using "1.prems"(1) by linarith
  then show ?case
  proof cases
    case 1
    then show ?thesis by (simp add: trim_end_cases(2) trim_right_snoc)
  next
    case 2
    have "start \<le> e - 1" "e - 1 \<le> length message"
      using 2(1) "1.prems" by auto
    then show ?thesis
      using "1.IH" 2 take_drop_snoc [OF 2(1) "1.prems"(2)]
      by (auto simp: trim_end_cases(1) trim_right_snoc)
  next
    case 3
    then show ?thesis
      using take_drop_snoc [OF 3(1) "1.prems"(2)]
      by (simp add: trim_end_cases(2) trim_right_snoc)
  qed
qed

lemma split_lines_nonempty [simp]: "split_lines s \<noteq> []"
  by (induction s) simp_all

lemma split_lines_cut:
  "split_lines s = takeWhile (\<lambda>c. c \<noteq> CHR 0x0A) s #
     (if CHR 0x0A \<in> set s then split_lines (tl (dropWhile (\<lambda>c. c \<noteq> CHR 0x0A) s)) else [])"
  by (induction s) auto

lemma log_lines_empty [simp]: "log_lines [] = []"
  by (simp add: log_lines_def trim_right_def)

lemma log_lines_cut:
  "log_lines s =
    (let l = trim_right (takeWhile (\<lambda>c. c \<noteq> CHR 0x0A) s)
     in (if l = [] then [] else [l]) @ log_lines (tl (dropWhile (\<lambda>c. c \<noteq> CHR 0x0A) s)))"
proof (cases "CHR 0x0A \<in> set s")
  case True
  then show ?thesis
    by (simp add: log_lines_def split_lines_cut [of s] Let_def)
next
  case False
  then have "log_lines (tl (dropWhile (\<lambda>c. c \<noteq> CHR 0x0A) s)) = []"
    by (simp only: no_separator_cut(2) list.sel log_lines_empty simp_thms)
  moreover have "split_lines s = [takeWhile (\<lambda>c. c \<noteq> CHR 0x0A) s]"
    using False split_lines_cut [of s] by simp
  ultimately show ?thesis
    by (simp add: log_lines_def [of s] Let_def)
qed

lemma line_end_cut:
  assumes "start < length message"
  shows "line_end message start =
    start + length (takeWhile (\<lambda>c. c \<noteq> CHR 0x0A) (drop start message))"
proof (cases "CHR 0x0A \<in> set (drop start message)")
  case True
  then show ?thesis
    by (simp add: line_end_def sv_find_def sv_find_if_from [of _ start] sv_find_if_0)
next
  case False
  with assms show ?thesis
    unfolding no_separator_cut(1) [OF False]
    by (simp add: line_end_def sv_find_def sv_find_if_from [of _ start] sv_find_if_0)
qed

lemma log_loop_step:
  fixes message :: string
  defines "first start \<equiv> trim_right (takeWhile (\<lambda>c. c \<noteq> CHR 0x0A) (drop start message))"
  assumes "start < length message"
  shows "start < trim_end message start (line_end message start) \<longleftrightarrow> first start \<noteq> []"
    and "take (trim_end message start (line_end message start) - start) (drop start message) =
      first start"
    and "drop (line_end message start + 1) message =
      tl (dropWhile (\<lambda>c. c \<noteq> CHR 0x0A) (drop start message))"
proof -
  let ?e = "trim_end message start (line_end message start)"
  have le: "line_end message start \<le> length message"
    using line_end_cut [OF assms(2)] length_takeWhile_le [of _ "drop start message"] assms(2)
    by (metis add_le_cancel_left le_add_diff_inverse length_drop less_imp_le)
  have e: "start \<le> ?e" "?e \<le> line_end message start" "take (?e - start) (drop start message) = first start"
    using trim_end_take [OF line_end_ge [OF assms(2)] le] line_end_cut [OF assms(2)]
    by (simp_all add: first_def)
  then have "length (first start) = ?e - start"
    using le by (metis diff_le_mono length_drop length_take min.absorb2 order_trans)
  then show "start < ?e \<longleftrightarrow> first start \<noteq> []"
    using e(1) by (metis diff_is_0_eq' le_neq_implies_less length_0_conv linorder_not_le zero_less_diff)
  show "take (?e - start) (drop start message) = first start"
    by (rule e(3))
  have "drop (line_end message start + 1) message =
      drop (Suc (length (takeWhile (\<lambda>c. c \<noteq> CHR 0x0A) (drop start message)))) (drop start message)"
    using line_end_cut [OF assms(2)] by (simp add: add.commute)
  then show "drop (line_end message start + 1) message =
      tl (dropWhile (\<lambda>c. c \<noteq> CHR 0x0A) (drop start message))"
    by (simp only: drop_Suc_length_takeWhile)
qed

lemma log_loop_lines:
  "log_loop log_message level message start cb =
   fold (log_message level) (log_lines (drop start message)) cb"
proof (induction log_message level message start cb rule: log_loop.induct)
  case (1 log_message level message start cb)
  show ?case
  proof (cases "start < length message")
    case False
    then show ?thesis by (simp add: log_loop.simps)
  next
    case True
    note step = log_loop_step [OF True]
    have "log_loop log_message level message start cb =
        log_loop log_message level message (line_end message start + 1)
          (if start < trim_end message start (line_end message start)
           then log_message level (sv_substr start (Some (trim_end message start (line_end message start) - start)) message) cb
           else cb)"
      using True by (subst log_loop.simps) (simp add: Let_def)
    also have "\<dots> = fold (log_message level) (log_lines (drop (line_end message start + 1) message))
        (if start < trim_end message start (line_end message start)
         then log_message level (sv_substr start (Some (trim_end message start (line_end message start) - start)) message) cb
         else cb)"
      by (rule "1.IH" [OF True refl refl refl])
    also have "\<dots> = fold (log_message level) (log_lines (drop start message)) cb"
      unfolding log_lines_cut [of "drop start message"] step(1,3)
      by (simp add: sv_substr_def step(2) Let_def)
    finally show ?thesis .
  qed
qed

lemma trim_right_props:
  "trim_right l \<noteq> [] \<Longrightarrow> \<not> char_int (last (trim_right l)) \<le> 32"
  "set (trim_right l) \<subseteq> set l"
proof -
  show "\<not> char_int (last (trim_right l)) \<le> 32" if "trim_right l \<noteq> []"
    using that hd_dropWhile [of "\<lambda>c. char_int c \<le> 32" "rev l"]
    by (simp add: trim_right_def last_rev)
  show "set (trim_right l) \<subseteq> set l"
    using set_dropWhileD by (fastforce simp: trim_right_def)
qed

lemma split_lines_no_newline: "l \<in> set (split_lines s) \<Longrightarrow> CHR 0x0A \<notin> set l"
proof (induction s arbitrary: l)
  case (Cons c s)
  obtain a as where "split_lines s = a # as"
    using split_lines_nonempty [of s] by (cases "split_lines s") auto
  with Cons show ?case by (auto split: if_splits)
qed simp

lemma char_int_high: "128 \<le> unat (char_byte c) \<Longrightarrow> char_int c < 0"
proof -
  assume "128 \<le> unat (char_byte c)"
  moreover have "unat (char_byte c) < 256"
    using unsigned_less [of "char_byte c"] by simp
  moreover have "of_char c = int (unat (char_byte c))"
    by (simp add: of_nat_of_char)
  ultimately show ?thesis
    by (simp add: char_int_def Let_def)
qed

lemma char_int_newline: "char_int (CHR 0x0A) = 10"
  by (simp add: char_int_def)

lemma log_lines_shape:
  "l \<in> set (log_lines s) \<Longrightarrow> l \<noteq> [] \<and> CHR 0x0A \<notin> set l \<and> 32 < char_int (last l)"
  using split_lines_no_newline trim_right_props by (fastforce simp: log_lines_def)

section \<open>What a callback has to do\<close>

text \<open>
  The contract of \<open>log_message\<close>: each of the callback's outputs grows by a piece that depends
  on the level and the message only.
\<close>

locale log_sink =
  fixes log_message :: "LogLevel \<Rightarrow> string \<Rightarrow> 'c \<Rightarrow> 'c"
    and observe :: "'k \<Rightarrow> 'c \<Rightarrow> 'e list"
    and piece :: "'k \<Rightarrow> LogLevel \<Rightarrow> string \<Rightarrow> 'e list"
  assumes observe_message:
    "observe k (log_message level s cb) = observe k cb @ piece k level s"
begin

lemma observe_fold:
  "observe k (fold (log_message level) ls cb) = observe k cb @ concat (map (piece k level) ls)"
  by (induction ls arbitrary: cb) (simp_all add: observe_message)

lemma observe_log:
  "lg_callback lg = Some cb \<Longrightarrow>
   \<exists>cb'. lg_callback (logger_log log_message level message lg) = Some cb' \<and>
     observe k cb' = observe k cb @ concat (map (piece k level) (log_lines message))"
  by (simp add: logger_log_def log_loop_lines observe_fold)

end

interpretation con: log_sink console_log_message console_text console_piece
  by unfold_locales
    (simp add: console_log_message_def console_text_def console_piece_def Let_def
      split: LogLevel.split console_stream.split)

interpretation mock: log_sink mock_log_message mock_lines "\<lambda>k level s. if k = level then [s] else []"
  by unfold_locales (simp add: mock_log_message_def mock_lines_def split: LogLevel.split)

section \<open>Properties\<close>

text \<open>C35: A message reaches the recording callback as its lines, each cut at the right of
  control characters and blanks, empty lines left out, all in order and under its own level;
  no line logged is empty, contains a newline or ends in a blank.\<close>

theorem log_records_lines:
  assumes "lg_callback lg = Some cb"
  shows "\<exists>cb'. lg_callback (logger_log mock_log_message level message lg) = Some cb' \<and>
    (\<forall>k. mock_lines k cb' =
      mock_lines k cb @ (if k = level then log_lines message else [])) \<and>
    (\<forall>l\<in>set (log_lines message). l \<noteq> [] \<and> CHR 0x0A \<notin> set l \<and> 32 < char_int (last l))"
proof -
  have "concat (map (\<lambda>s. if k = level then [s] else []) ls) = (if k = level then ls else [])"
    for k and ls :: "string list"
    by (induction ls) simp_all
  then show ?thesis
    using mock.observe_fold [of _ level "log_lines message" cb] assms log_lines_shape
    by (auto simp: logger_log_def log_loop_lines)
qed

theorem log_records_lines_witness:
  "\<exists>cb. lg_callback (logger_log mock_log_message Info ''a b \<newline>\<newline>c''
      (logger_new_callback \<lparr>log_debug = [], log_info = [''x''], log_error = []\<rparr>)) = Some cb \<and>
    mock_lines Info cb = [''x'', ''a b'', ''c''] \<and> mock_lines Error cb = []"
proof -
  let ?lg = "logger_new_callback \<lparr>log_debug = [], log_info = [''x''], log_error = []\<rparr>"
  have lines: "log_lines ''a b \<newline>\<newline>c'' = [''a b'', ''c'']"
    by (simp add: log_lines_def trim_right_def char_int_def)
  have "lg_callback ?lg = Some \<lparr>log_debug = [], log_info = [''x''], log_error = []\<rparr>"
    by (simp add: logger_new_callback_def)
  from log_records_lines [OF this, of Info "''a b \<newline>\<newline>c''"]
  obtain cb where "lg_callback (logger_log mock_log_message Info ''a b \<newline>\<newline>c'' ?lg) = Some cb"
    "\<forall>k. mock_lines k cb = mock_lines k \<lparr>log_debug = [], log_info = [''x''], log_error = []\<rparr> @
       (if k = Info then log_lines ''a b \<newline>\<newline>c'' else [])"
    by blast
  then show ?thesis
    by (intro exI [of _ cb]) (simp add: lines, simp add: mock_lines_def)
qed

text \<open>On the console every line is printed behind its level's name and before a newline,
  errors on the error stream and the other levels on the output stream, and nothing else.\<close>

theorem console_output:
  assumes "lg_callback lg = Some con"
  shows "\<exists>con'. lg_callback (logger_log console_log_message level message lg) = Some con' \<and>
    (\<forall>k. console_text k con' = console_text k con @
      (if (k = Stderr) = (level = Error)
       then concat (map (\<lambda>l. console_prefix level @ l @ [CHR 0x0A]) (log_lines message)) else ''''))"
  using con.observe_fold [of _ level "log_lines message" con] assms
  by (auto simp: logger_log_def log_loop_lines console_piece_def [abs_def])

theorem console_output_witness:
  "\<exists>con. lg_callback (logger_log console_log_message Error ''disk full''
      (logger_new_callback \<lparr>con_stdout = '''', con_stderr = ''''\<rparr>)) = Some con \<and>
    con_stderr con = ''[ERROR] disk full'' @ [CHR 0x0A] \<and> con_stdout con = ''''"
proof -
  obtain con where "lg_callback (logger_log console_log_message Error ''disk full''
      (logger_new_callback \<lparr>con_stdout = '''', con_stderr = ''''\<rparr>)) = Some con"
    "\<forall>k. console_text k con = console_text k \<lparr>con_stdout = '''', con_stderr = ''''\<rparr> @
      (if (k = Stderr) = (Error = Error)
       then concat (map (\<lambda>l. console_prefix Error @ l @ [CHR 0x0A]) (log_lines ''disk full'')) else '''')"
    using console_output [of "logger_new_callback \<lparr>con_stdout = '''', con_stderr = ''''\<rparr>" _ Error "''disk full''"]
    by (auto simp: logger_new_callback_def)
  then show ?thesis
    using spec [of _ Stdout] spec [of _ Stderr]
    by (auto simp: console_text_def console_prefix_def log_lines_def trim_right_def char_int_def
        dest: spec [of _ Stdout] spec [of _ Stderr])
qed

text \<open>C38: Trimming compares signed characters, so the bytes of a non-ASCII character at the end
  of a line count as blanks: of a line that ends in such bytes the callback gets what is before
  them, and nothing at all of a line that consists of them.\<close>

theorem log_drops_trailing_non_ascii:
  assumes "\<forall>c\<in>set tail. 128 \<le> unat (char_byte c)" "CHR 0x0A \<notin> set l" "l \<noteq> [] \<longrightarrow> 32 < char_int (last l)"
    and "lg_callback lg = Some cb"
  shows "logger_log log_message level (l @ tail) lg =
    lg\<lparr>lg_callback := Some (if l = [] then cb else log_message level l cb)\<rparr>"
proof -
  have neg: "char_int c < 0" if "c \<in> set tail" for c
    using assms(1) that by (intro char_int_high) simp
  then have "c \<noteq> CHR 0x0A" if "c \<in> set tail" for c
    using neg [OF that] by (auto simp: char_int_newline)
  then have lines: "CHR 0x0A \<notin> set (l @ tail)"
    using assms(2) by auto
  have "char_int c \<le> 32" if "c \<in> set tail" for c
    using neg [OF that] by simp
  then have "trim_right (l @ tail) = trim_right l"
    unfolding trim_right_def rev_append by (subst dropWhile_append2) simp_all
  moreover have "trim_right l = l"
    using assms(3) by (cases l rule: rev_cases) (auto simp: trim_right_def)
  ultimately have "log_lines (l @ tail) = (if l = [] then [] else [l])"
    by (subst log_lines_cut) (simp only: no_separator_cut [OF lines] Let_def list.sel log_lines_empty append_Nil2)
  then show ?thesis
    using assms(4) by (simp add: logger_log_def log_loop_lines)
qed

theorem log_drops_trailing_non_ascii_witness:
  "lg_callback (logger_log mock_log_message Info (''caf'' @ [CHR 0xC3, CHR 0xA9])
      (logger_new_callback \<lparr>log_debug = [], log_info = [], log_error = []\<rparr>)) =
    Some \<lparr>log_debug = [], log_info = [''caf''], log_error = []\<rparr>"
  using log_drops_trailing_non_ascii [of "[CHR 0xC3, CHR 0xA9]" "''caf''"
      "logger_new_callback \<lparr>log_debug = [], log_info = [], log_error = []\<rparr>"
      "\<lparr>log_debug = [], log_info = [], log_error = []\<rparr>" mock_log_message Info]
  by (simp add: char_int_def logger_new_callback_def mock_log_message_def)

end
