(* ===== verification/CgiData.thy ===== *)
theory CgiData
  imports Prelude
begin

text \<open>
  \<open>i_cgi_data.h\<close> and its two implementations.  The virtual functions of \<open>ICgiData\<close> are a
  record of functions on the object's state.  \<open>FastCgiData\<close> only forwards to libfcgi, whose
  \<open>FCGX_*\<close> functions are parameters; \<open>MockCgiData\<close> is the in-memory implementation of
  the tests.  What a request relies on is the locale \<open>cgi_streams\<close>.
\<close>

section \<open>The interface\<close>

text \<open>
  \<open>read\<close> gets the size of the caller's buffer and answers its return value and the bytes it
  stored; \<open>write\<close> and \<open>error\<close> get the bytes; \<open>env\<close> is the null-terminated array.
\<close>

record 'd cgi_ops =
  cgi_read :: "nat \<Rightarrow> 'd \<Rightarrow> (int \<times> string) \<times> 'd"
  cgi_write :: "string \<Rightarrow> 'd \<Rightarrow> int \<times> 'd"
  cgi_error :: "string \<Rightarrow> 'd \<Rightarrow> int \<times> 'd"
  cgi_flush_write :: "'d \<Rightarrow> int \<times> 'd"
  cgi_flush_error :: "'d \<Rightarrow> int \<times> 'd"
  cgi_env :: "'d \<Rightarrow> string list"

text \<open>Several writes in a row whose return values nobody looks at.\<close>

definition write_all :: "'d cgi_ops \<Rightarrow> string list \<Rightarrow> 'd \<Rightarrow> 'd" where
  "write_all ops ss d = fold (\<lambda>s d. snd (cgi_write ops s d)) ss d"

section \<open>On top of libfcgi\<close>

datatype fcgx_stream = FcgxIn | FcgxOut | FcgxErr

record 'r fcgx =
  FCGX_GetStr :: "nat \<Rightarrow> fcgx_stream \<Rightarrow> 'r \<Rightarrow> (int \<times> string) \<times> 'r"
  FCGX_PutStr :: "string \<Rightarrow> fcgx_stream \<Rightarrow> 'r \<Rightarrow> int \<times> 'r"
  FCGX_FFlush :: "fcgx_stream \<Rightarrow> 'r \<Rightarrow> int \<times> 'r"
  FCGX_Finish_r :: "'r \<Rightarrow> 'r"
  fcgx_envp :: "'r \<Rightarrow> string list"

definition fast_cgi_read :: "'r fcgx \<Rightarrow> nat \<Rightarrow> 'r \<Rightarrow> (int \<times> string) \<times> 'r" where
  "fast_cgi_read lib bufsize = FCGX_GetStr lib bufsize FcgxIn"

definition fast_cgi_write :: "'r fcgx \<Rightarrow> string \<Rightarrow> 'r \<Rightarrow> int \<times> 'r" where
  "fast_cgi_write lib buffer = FCGX_PutStr lib buffer FcgxOut"

definition fast_cgi_error :: "'r fcgx \<Rightarrow> string \<Rightarrow> 'r \<Rightarrow> int \<times> 'r" where
  "fast_cgi_error lib buffer = FCGX_PutStr lib buffer FcgxErr"

definition fast_cgi_flush_write :: "'r fcgx \<Rightarrow> 'r \<Rightarrow> int \<times> 'r" where
  "fast_cgi_flush_write lib = FCGX_FFlush lib FcgxOut"

definition fast_cgi_flush_error :: "'r fcgx \<Rightarrow> 'r \<Rightarrow> int \<times> 'r" where
  "fast_cgi_flush_error lib = FCGX_FFlush lib FcgxErr"

definition fast_cgi :: "'r fcgx \<Rightarrow> 'r cgi_ops" where
  "fast_cgi lib =
    \<lparr>cgi_read = fast_cgi_read lib, cgi_write = fast_cgi_write lib, cgi_error = fast_cgi_error lib,
     cgi_flush_write = fast_cgi_flush_write lib, cgi_flush_error = fast_cgi_flush_error lib,
     cgi_env = fcgx_envp lib\<rparr>"

definition fast_cgi_destroy :: "'r fcgx \<Rightarrow> 'r \<Rightarrow> 'r" where
  "fast_cgi_destroy lib = FCGX_Finish_r lib"

section \<open>In memory\<close>

record mock_cgi =
  m_readbuf :: string
  m_writebuf :: string
  m_errorbuf :: string
  m_envp :: "string list"

definition mock_cgi_new :: "string \<Rightarrow> string list \<Rightarrow> mock_cgi" where
  "mock_cgi_new inbuf envp =
    \<lparr>m_readbuf = inbuf, m_writebuf = '''', m_errorbuf = '''', m_envp = envp\<rparr>"

definition mock_read :: "nat \<Rightarrow> mock_cgi \<Rightarrow> (int \<times> string) \<times> mock_cgi" where
  "mock_read bufsize d =
    (if m_readbuf d = '''' then ((-1, ''''), d)
     else if length (m_readbuf d) \<le> bufsize then
       ((int (length (m_readbuf d)), m_readbuf d), d\<lparr>m_readbuf := ''''\<rparr>)
     else ((int bufsize, take bufsize (m_readbuf d)), d\<lparr>m_readbuf := drop bufsize (m_readbuf d)\<rparr>))"

definition mock_write :: "string \<Rightarrow> mock_cgi \<Rightarrow> int \<times> mock_cgi" where
  "mock_write buffer d = (int (length buffer), d\<lparr>m_writebuf := m_writebuf d @ buffer\<rparr>)"

definition mock_error :: "string \<Rightarrow> mock_cgi \<Rightarrow> int \<times> mock_cgi" where
  "mock_error buffer d = (int (length buffer), d\<lparr>m_errorbuf := m_errorbuf d @ buffer\<rparr>)"

definition mock_flush :: "mock_cgi \<Rightarrow> int \<times> mock_cgi" where
  "mock_flush d = (0, d)"

definition mock_ops :: "mock_cgi cgi_ops" where
  "mock_ops =
    \<lparr>cgi_read = mock_read, cgi_write = mock_write, cgi_error = mock_error,
     cgi_flush_write = mock_flush, cgi_flush_error = mock_flush, cgi_env = m_envp\<rparr>"

section \<open>What a request relies on\<close>

text \<open>
  The two output channels: \<open>written\<close> and \<open>reported\<close> name what has been sent on each,
  writing adds to the one and leaves the other alone, flushing adds nothing, and the environment
  never changes.
\<close>

locale cgi_streams =
  fixes ops :: "'d cgi_ops"
    and written :: "'d \<Rightarrow> string"
    and reported :: "'d \<Rightarrow> string"
  assumes write_written: "written (snd (cgi_write ops s d)) = written d @ s"
    and write_reported: "reported (snd (cgi_write ops s d)) = reported d"
    and error_reported: "reported (snd (cgi_error ops s d)) = reported d @ s"
    and error_written: "written (snd (cgi_error ops s d)) = written d"
    and flush_written: "written (snd (cgi_flush_write ops d)) = written d"
      "written (snd (cgi_flush_error ops d)) = written d"
    and flush_reported: "reported (snd (cgi_flush_write ops d)) = reported d"
      "reported (snd (cgi_flush_error ops d)) = reported d"
    and read_keeps: "written (snd (cgi_read ops n d)) = written d"
      "reported (snd (cgi_read ops n d)) = reported d"
begin

lemma write_all_written: "written (write_all ops ss d) = written d @ concat ss"
  by (induction ss arbitrary: d) (simp_all add: write_all_def write_written)

lemma write_all_reported: "reported (write_all ops ss d) = reported d"
  by (induction ss arbitrary: d) (simp_all add: write_all_def write_reported)

lemmas stream_simps = write_written write_reported error_reported error_written flush_written
  flush_reported read_keeps write_all_written write_all_reported

end

interpretation mock_streams: cgi_streams mock_ops m_writebuf m_errorbuf
  by unfold_locales
    (auto simp: mock_ops_def mock_write_def mock_error_def mock_flush_def mock_read_def)

end
