(* ===== verification/RequestText.thy ===== *)
theory RequestText
  imports Utf8
begin

text \<open>
  The text a request is asked about: the components of the document's path, the pairs of the
  query string, percent decoding, and the two numbers and flags read from variables.  These are
  the loops of \<open>Request::full_route\<close>, \<open>Request::query\<close>, \<open>Request::query_decode\<close>,
  \<open>Request::remote_port\<close> and \<open>Request::do_not_track\<close> in \<open>request.cpp\<close>, on the value of
  the variable they read.
\<close>

section \<open>Cutting at a separator\<close>

text \<open>The views before and after the first separator, as the loops compute them.\<close>

definition before_split :: "char \<Rightarrow> string \<Rightarrow> string" where
  "before_split c s = sv_substr 0 (sv_find c 0 s) s"

definition after_split :: "char \<Rightarrow> string \<Rightarrow> string" where
  "after_split c s = (case sv_find c 0 s of None \<Rightarrow> '''' | Some split \<Rightarrow> sv_substr (split + 1) None s)"

lemma before_split_takeWhile: "before_split c s = takeWhile (\<lambda>x. x \<noteq> c) s"
  by (simp add: before_split_def sv_simps)

lemma after_split_dropWhile: "after_split c s = tl (dropWhile (\<lambda>x. x \<noteq> c) s)"
proof (cases "c \<in> set s")
  case False
  then show ?thesis
    unfolding no_separator_cut(2) [OF False] by (simp add: after_split_def sv_find_0)
qed (simp add: after_split_def sv_find_0 sv_substr_def)

lemma length_after_split: "s \<noteq> '''' \<Longrightarrow> length (after_split c s) < length s"
proof -
  assume "s \<noteq> ''''"
  then have "0 < length s" by simp
  then show "length (after_split c s) < length s"
    using length_dropWhile_le [of "\<lambda>x. x \<noteq> c" s] unfolding after_split_dropWhile length_tl
    by linarith
qed

lemma split_append:
  "c \<notin> set s \<Longrightarrow> before_split c (s @ c # t) = s" "c \<notin> set s \<Longrightarrow> after_split c (s @ c # t) = t"
  "c \<notin> set s \<Longrightarrow> before_split c s = s" "c \<notin> set s \<Longrightarrow> after_split c s = ''''"
  unfolding before_split_takeWhile after_split_dropWhile by (induction s) auto

section \<open>The route of a request\<close>

function (sequential) route_loop :: "string \<Rightarrow> string list \<Rightarrow> string list" where
  "route_loop uri route =
    (if uri = '''' then route
     else let element = before_split (CHR ''/'') uri;
              uri' = after_split (CHR ''/'') uri
          in route_loop uri' (if element \<noteq> '''' then route @ [element] else route))"
  by pat_completeness auto
termination
  by (relation "measure (\<lambda>(uri, _). length uri)") (simp_all add: length_after_split)

declare route_loop.simps [simp del]

definition parse_route :: "string \<Rightarrow> string list" where
  "parse_route uri = route_loop uri []"

text \<open>The pieces between the slashes, and the non-empty ones among them.\<close>

fun split_on :: "char \<Rightarrow> string \<Rightarrow> string list" where
  "split_on c [] = [[]]"
| "split_on c (x # s) =
     (if x = c then [] # split_on c s else (x # hd (split_on c s)) # tl (split_on c s))"

lemma split_on_nonempty [simp]: "split_on c s \<noteq> []"
  by (induction s) simp_all

lemma split_on_cut:
  "split_on c s = before_split c s # (if c \<in> set s then split_on c (after_split c s) else [])"
  unfolding before_split_takeWhile after_split_dropWhile by (induction s) auto

lemma split_on_Nil: "c \<notin> set s \<Longrightarrow> split_on c s = [s]"
  by (subst split_on_cut) (simp add: split_append)

lemma split_on_append: "split_on c (s @ c # t) = split_on c s @ split_on c t"
  by (induction s) (auto simp: neq_Nil_conv)

lemma route_loop_split:
  "route_loop uri route = route @ filter (\<lambda>e. e \<noteq> '''') (split_on (CHR ''/'') uri)"
proof (induction uri route rule: route_loop.induct)
  case (1 uri route)
  show ?case
  proof (cases "uri = ''''")
    case True
    then show ?thesis by (simp add: route_loop.simps)
  next
    case False
    let ?rest = "filter (\<lambda>e. e \<noteq> '''') (split_on (CHR ''/'') (after_split (CHR ''/'') uri))"
    have "?rest = []" if "CHR ''/'' \<notin> set uri"
      using that by (simp add: split_append)
    then have "filter (\<lambda>e. e \<noteq> '''') (split_on (CHR ''/'') uri) =
        filter (\<lambda>e. e \<noteq> '''') [before_split (CHR ''/'') uri] @ ?rest"
      by (subst split_on_cut) auto
    moreover have "route_loop uri route = route_loop (after_split (CHR ''/'') uri)
        (if before_split (CHR ''/'') uri \<noteq> '''' then route @ [before_split (CHR ''/'') uri] else route)"
      using False by (subst route_loop.simps) (simp add: Let_def)
    ultimately show ?thesis
      using "1.IH" [OF False refl refl] by simp
  qed
qed

lemma parse_route_split: "parse_route uri = filter (\<lambda>e. e \<noteq> '''') (split_on (CHR ''/'') uri)"
  by (simp add: parse_route_def route_loop_split)

lemma split_on_no_separator: "e \<in> set (split_on c s) \<Longrightarrow> c \<notin> set e"
proof (induction s arbitrary: e)
  case (Cons x s)
  obtain a as where "split_on c s = a # as"
    by (meson list.exhaust split_on_nonempty)
  with Cons show ?case by (auto split: if_splits)
qed simp

text \<open>A route component: not empty and without a slash.\<close>

definition is_component :: "string \<Rightarrow> bool" where
  "is_component e \<longleftrightarrow> e \<noteq> '''' \<and> CHR ''/'' \<notin> set e"

lemma parse_route_components: "e \<in> set (parse_route uri) \<Longrightarrow> is_component e"
  using split_on_no_separator by (auto simp: parse_route_split is_component_def)

lemma parse_route_append_slash: "parse_route (s @ CHR ''/'' # t) = parse_route s @ parse_route t"
  by (simp add: parse_route_split split_on_append)

lemma parse_route_simps [simp]:
  "parse_route '''' = []" "parse_route (CHR ''/'' # t) = parse_route t"
  "is_component e \<Longrightarrow> parse_route e = [e]"
  using parse_route_append_slash [of "''''" t]
  by (simp_all add: parse_route_split split_on_Nil is_component_def)

definition print_route :: "string list \<Rightarrow> string" where
  "print_route es = concat (map (\<lambda>e. CHR ''/'' # e) es)"

lemma parse_print_route: "\<forall>e\<in>set es. is_component e \<Longrightarrow> parse_route (print_route es) = es"
proof (induction es)
  case (Cons e es)
  then show ?case
  proof (cases es)
    case (Cons e' es')
    with Cons.IH Cons.prems show ?thesis
      using parse_route_append_slash [of e "e' @ print_route es'"] by (simp add: print_route_def)
  qed (simp add: print_route_def)
qed (simp add: print_route_def)

section \<open>The query string\<close>

type_synonym query_params = "(string \<times> string) list"

function (sequential) query_loop :: "string \<Rightarrow> query_params \<Rightarrow> query_params" where
  "query_loop query_str query =
    (if query_str = '''' then query
     else let element = before_split (CHR ''&'') query_str;
              query_str' = after_split (CHR ''&'') query_str;
              key = before_split (CHR ''='') element;
              val = after_split (CHR ''='') element
          in query_loop query_str' (query @ [(key, val)]))"
  by pat_completeness auto
termination
  by (relation "measure (\<lambda>(query_str, _). length query_str)") (simp_all add: length_after_split)

declare query_loop.simps [simp del]

definition parse_query :: "string \<Rightarrow> query_params" where
  "parse_query query_str = query_loop query_str []"

text \<open>\<open>query(key)\<close>: the first pair with this key.\<close>

fun query_find :: "query_params \<Rightarrow> string \<Rightarrow> bool \<times> string" where
  "query_find [] key = (False, '''')"
| "query_find (item # params) key =
     (if fst item = key then (True, snd item) else query_find params key)"

text \<open>The elements of a query string: the pieces between the separators, where an empty piece
  at the end does not count.\<close>

definition query_pieces :: "string \<Rightarrow> string list" where
  "query_pieces s =
    (let ps = split_on (CHR ''&'') s in if last ps = '''' then butlast ps else ps)"

definition query_pair :: "string \<Rightarrow> string \<times> string" where
  "query_pair element = (before_split (CHR ''='') element, after_split (CHR ''='') element)"

lemma query_pieces_step:
  "query_pieces '''' = []"
  "s \<noteq> '''' \<Longrightarrow> query_pieces s = before_split (CHR ''&'') s # query_pieces (after_split (CHR ''&'') s)"
proof -
  show empty: "query_pieces '''' = []"
    by (simp add: query_pieces_def)
  show "query_pieces s = before_split (CHR ''&'') s # query_pieces (after_split (CHR ''&'') s)"
    if "s \<noteq> ''''"
  proof (cases "CHR ''&'' \<in> set s")
    case True
    then show ?thesis
      by (simp add: query_pieces_def split_on_cut [of _ s] Let_def)
  next
    case False
    then show ?thesis
      using that by (simp add: split_append empty) (simp add: query_pieces_def split_on_Nil)
  qed
qed

lemma query_pieces_append:
  "CHR ''&'' \<notin> set x \<Longrightarrow> query_pieces (x @ CHR ''&'' # t) = x # query_pieces t"
  by (subst query_pieces_step(2)) (simp_all add: split_append)

lemma query_loop_pieces: "query_loop s acc = acc @ map query_pair (query_pieces s)"
proof (induction s acc rule: query_loop.induct)
  case (1 s acc)
  show ?case
  proof (cases "s = ''''")
    case True
    then show ?thesis by (simp add: query_loop.simps query_pieces_step)
  next
    case False
    have "query_loop s acc =
        query_loop (after_split (CHR ''&'') s) (acc @ [query_pair (before_split (CHR ''&'') s)])"
      using False by (subst query_loop.simps) (simp add: Let_def query_pair_def)
    also have "\<dots> = acc @ map query_pair (query_pieces s)"
      using "1.IH" [OF False refl refl refl refl] query_pieces_step(2) [OF False]
      by (simp add: query_pair_def)
    finally show ?thesis .
  qed
qed

lemma parse_query_pieces: "parse_query s = map query_pair (query_pieces s)"
  by (simp add: parse_query_def query_loop_pieces)

fun print_query :: "query_params \<Rightarrow> string" where
  "print_query [] = ''''"
| "print_query [(k, v)] = k @ CHR ''='' # v"
| "print_query ((k, v) # p # ps) = (k @ CHR ''='' # v) @ CHR ''&'' # print_query (p # ps)"

text \<open>What the characters of a key and of a value may be for the pair to be read back.\<close>

definition query_printable :: "string \<times> string \<Rightarrow> bool" where
  "query_printable p \<longleftrightarrow>
     CHR ''='' \<notin> set (fst p) \<and> CHR ''&'' \<notin> set (fst p) \<and> CHR ''&'' \<notin> set (snd p)"

lemma print_query_nonempty: "print_query (p # ps) \<noteq> ''''"
  by (cases p; cases ps) simp_all

lemma query_pair_print:
  "query_printable (k, v) \<Longrightarrow> query_pair (k @ CHR ''='' # v) = (k, v)"
  by (simp add: query_pair_def split_append query_printable_def)

lemma parse_print_query: "\<forall>p\<in>set ps. query_printable p \<Longrightarrow> parse_query (print_query ps) = ps"
proof (induction ps rule: print_query.induct)
  case 1
  then show ?case by (simp add: parse_query_pieces query_pieces_step)
next
  case (2 k v)
  then have "CHR ''&'' \<notin> set (k @ CHR ''='' # v)"
    by (simp add: query_printable_def)
  with 2 show ?case
    by (simp add: parse_query_pieces query_pieces_step query_pair_print split_append)
next
  case (3 k v p ps)
  then have "CHR ''&'' \<notin> set (k @ CHR ''='' # v)"
    by (simp add: query_printable_def)
  then have "query_pieces (print_query ((k, v) # p # ps)) =
      (k @ CHR ''='' # v) # query_pieces (print_query (p # ps))"
    unfolding print_query.simps by (rule query_pieces_append)
  with 3 show ?case
    by (simp add: parse_query_pieces query_pair_print)
qed

lemma query_find_first:
  "query_find ps k = (case map_of ps k of None \<Rightarrow> (False, '''') | Some v \<Rightarrow> (True, v))"
  by (induction ps) auto

section \<open>Percent decoding\<close>

text \<open>The loop over the index, which a decoded byte advances by two more; \<open>unhex\<close> reads the
  two characters after the percent sign.\<close>

function (sequential) query_decode_loop :: "string \<Rightarrow> nat \<Rightarrow> string \<Rightarrow> string" where
  "query_decode_loop val idx result =
    (if idx < length val then
       (let c = val ! idx in
        if c = CHR ''%'' \<and> idx + 2 < length val then
          (let chr = unhex (val ! (idx + 1)) (val ! (idx + 2)) in
           if fst chr then query_decode_loop val (idx + 2 + 1) (result @ [byte_char (snd chr)])
           else query_decode_loop val (idx + 1) (result @ [c]))
        else query_decode_loop val (idx + 1) (result @ [c]))
     else result)"
  by pat_completeness auto
termination
  by (relation "measure (\<lambda>(val, idx, _). length val - idx)") auto

declare query_decode_loop.simps [simp del]

definition query_decode :: "string \<Rightarrow> string" where
  "query_decode val = query_decode_loop val 0 ''''"

text \<open>The same by recursion over the text.\<close>

fun decode_percent :: "string \<Rightarrow> string" where
  "decode_percent (c # a # b # s) =
     (if c = CHR ''%'' \<and> fst (unhex a b) then byte_char (snd (unhex a b)) # decode_percent s
      else c # decode_percent (a # b # s))"
| "decode_percent s = s"

lemma query_decode_loop_drop:
  "query_decode_loop val idx result = result @ decode_percent (drop idx val)"
proof (induction val idx result rule: query_decode_loop.induct)
  case (1 val idx result)
  consider "length val \<le> idx" | "idx < length val" "length val \<le> idx + 2" | "idx + 2 < length val"
    by linarith
  then show ?case
  proof cases
    case 1
    then show ?thesis by (simp add: query_decode_loop.simps)
  next
    case 2
    then consider "drop idx val = [val ! idx]" "drop (idx + 1) val = []"
      | "drop idx val = [val ! idx, val ! (idx + 1)]" "drop (idx + 1) val = [val ! (idx + 1)]"
      by (cases "length val = idx + 1") (auto simp: Cons_nth_drop_Suc [symmetric])
    then show ?thesis
      using "1.IH"(3) 2 by cases (subst query_decode_loop.simps; simp add: Let_def)+
  next
    case 3
    then have d: "drop idx val = val ! idx # val ! (idx + 1) # val ! (idx + 2) # drop (idx + 3) val"
      "drop (Suc idx) val = val ! (idx + 1) # val ! (idx + 2) # drop (idx + 3) val"
      by (simp_all add: Cons_nth_drop_Suc numeral_3_eq_3)
    have "query_decode_loop val idx result =
        (if val ! idx = CHR ''%'' \<and> fst (unhex (val ! (idx + 1)) (val ! (idx + 2)))
         then query_decode_loop val (idx + 2 + 1)
           (result @ [byte_char (snd (unhex (val ! (idx + 1)) (val ! (idx + 2))))])
         else query_decode_loop val (idx + 1) (result @ [val ! idx]))"
      using 3 by (subst query_decode_loop.simps) (simp add: Let_def)
    then show ?thesis
      using 3 "1.IH"(1) [OF _ refl _ refl] "1.IH"(2) [OF _ refl _ refl] "1.IH"(3) [OF _ refl]
      by (cases "val ! idx = CHR ''%''") (simp_all add: d numeral_3_eq_3 split: if_splits)
  qed
qed

lemma query_decode_percent: "query_decode val = decode_percent val"
  by (simp add: query_decode_def query_decode_loop_drop)

lemma decode_percent_plain: "c \<noteq> CHR ''%'' \<Longrightarrow> decode_percent (c # s) = c # decode_percent s"
  by (cases "c # s" rule: decode_percent.cases) auto

lemma length_decode_percent: "length (decode_percent s) \<le> length s"
  by (induction s rule: decode_percent.induct) auto

text \<open>An encoder: bytes that satisfy \<open>keep\<close> stand for themselves, the others are escaped.\<close>

definition percent_char :: "(char \<Rightarrow> bool) \<Rightarrow> bool \<Rightarrow> char \<Rightarrow> string" where
  "percent_char keep up c =
    (if keep c then [c]
     else [CHR ''%'', hex_digit up (of_char c div 16), hex_digit up (of_char c mod 16)])"

definition percent_encode :: "(char \<Rightarrow> bool) \<Rightarrow> bool \<Rightarrow> string \<Rightarrow> string" where
  "percent_encode keep up s = concat (map (percent_char keep up) s)"

lemma char_nibbles: "(of_char c :: nat) div 16 < 16" "(of_char c :: nat) mod 16 < 16"
  using nat_of_char_less_256 [of c] by (simp_all only: less_mult_imp_div_less)

lemma decode_percent_char:
  "\<not> keep (CHR ''%'') \<Longrightarrow> decode_percent (percent_char keep up c @ s) = c # decode_percent s"
proof -
  assume "\<not> keep (CHR ''%'')"
  have "unhex (hex_digit up (of_char c div 16)) (hex_digit up (of_char c mod 16)) =
      (True, word_of_nat (16 * (of_char c div 16) + of_char c mod 16))"
    by (intro unhex_hex_digits char_nibbles)
  moreover have "byte_char (word_of_nat (of_char c)) = c"
    by (metis byte_char_char_byte char_byte_def of_nat_of_char)
  ultimately show ?thesis
    using \<open>\<not> keep (CHR ''%'')\<close>
    by (cases "c = CHR ''%''") (auto simp: percent_char_def decode_percent_plain)
qed

lemma decode_percent_encode:
  "\<not> keep (CHR ''%'') \<Longrightarrow> decode_percent (percent_encode keep up s) = s"
  by (induction s) (simp_all add: percent_encode_def decode_percent_char)

section \<open>Numbers and flags\<close>

text \<open>
  \<open>std::from_chars\<close> to an \<open>unsigned short\<close>, base ten: the longest prefix of digits, no
  sign and no blanks before it; no digits and a value out of range are errors.
\<close>

definition is_digit :: "char \<Rightarrow> bool" where
  "is_digit c \<longleftrightarrow> char_le (CHR ''0'') c \<and> char_le c (CHR ''9'')"

definition digit_value :: "char \<Rightarrow> nat" where
  "digit_value c = of_char c - 48"

definition from_chars_u16 :: "string \<Rightarrow> u16 option" where
  "from_chars_u16 s =
    (let ds = takeWhile is_digit s;
         n = foldl (\<lambda>n c. 10 * n + digit_value c) 0 ds
     in if ds = [] \<or> 2 ^ 16 \<le> n then None else Some (word_of_nat n))"

definition port_number :: "string \<Rightarrow> int" where
  "port_number val = (case from_chars_u16 val of None \<Rightarrow> -1 | Some port \<Rightarrow> uint port)"

definition dnt_flag :: "string \<Rightarrow> bool" where
  "dnt_flag val \<longleftrightarrow> val = ''1''"

lemma digit_char_facts:
  "d < 10 \<Longrightarrow> is_digit (digit_char d) \<and> digit_value (digit_char d) = d"
proof -
  have "list_all (\<lambda>d. is_digit (digit_char d) \<and> digit_value (digit_char d) = d) [0..<10]"
    by code_simp
  then show "d < 10 \<Longrightarrow> is_digit (digit_char d) \<and> digit_value (digit_char d) = d"
    by (auto simp: list_all_iff)
qed

lemma digits_value:
  "foldl (\<lambda>n c. 10 * n + digit_value c) 0 (digits 10 n) = n \<and> list_all is_digit (digits 10 n)"
proof (induction n rule: less_induct)
  case (less n)
  show ?case
  proof (cases "n < 10")
    case True
    then show ?thesis
      using digit_char_facts [of n] by (subst (1 2) digits.simps) simp
  next
    case False
    then have "digits 10 n = digits 10 (n div 10) @ [digit_char (n mod 10)]"
      by (subst digits.simps) simp
    then show ?thesis
      using less.IH [of "n div 10"] False digit_char_facts [of "n mod 10"] by simp
  qed
qed

lemma from_chars_digits:
  assumes "rest = '''' \<or> \<not> is_digit (hd rest)"
  shows "from_chars_u16 (digits 10 n @ rest) = (if n < 2 ^ 16 then Some (word_of_nat n) else None)"
proof -
  have "takeWhile is_digit (digits 10 n @ rest) = digits 10 n @ takeWhile is_digit rest"
    using digits_value [of n] by (simp add: list_all_iff)
  also have "takeWhile is_digit rest = []"
    using assms by (cases rest) auto
  finally show ?thesis
    using digits_value [of n] by (simp add: from_chars_u16_def)
qed

section \<open>Properties\<close>

text \<open>The route of a path is its sequence of non-empty components: however many slashes
  separate them, lead or trail, and a path printed from components is read back as them.\<close>

theorem route_roundtrip:
  assumes "\<forall>e\<in>set es. is_component e"
  shows "parse_route (print_route es) = es \<and> parse_route (print_route es @ ''/'') = es \<and>
    parse_route (CHR ''/'' # print_route es) = es"
  using parse_print_route [OF assms] parse_route_append_slash [of "print_route es" "''''"]
  by simp

theorem route_roundtrip_witness:
  "parse_route (print_route [''api'', ''user'', ''7'']) = [''api'', ''user'', ''7'']"
  using route_roundtrip [of "[''api'', ''user'', ''7'']"] by (simp add: is_component_def)

text \<open>C13: Key and value pairs of arbitrary bytes survive the trip through a query string: escaped,
  joined, parsed and decoded they come back in order, for every choice of additional characters
  to escape and in both cases of hexadecimal digits.\<close>

theorem query_roundtrip:
  assumes "\<not> keep (CHR ''%'')" "\<not> keep (CHR ''&'')" "\<not> keep (CHR ''='')"
  shows "map (\<lambda>(k, v). (query_decode k, query_decode v))
    (parse_query (print_query
      (map (\<lambda>(k, v). (percent_encode keep up k, percent_encode keep up v)) ps))) = ps"
proof -
  have hex: "hex_digit up d \<noteq> CHR ''&'' \<and> hex_digit up d \<noteq> CHR ''=''" if "d < 16" for d
  proof -
    have "list_all (\<lambda>d. hex_digit True d \<noteq> CHR ''&'' \<and> hex_digit True d \<noteq> CHR ''='' \<and>
        hex_digit False d \<noteq> CHR ''&'' \<and> hex_digit False d \<noteq> CHR ''='') [0..<16]"
      by code_simp
    then show ?thesis
      using that by (cases up) (auto simp: list_all_iff)
  qed
  have "CHR ''&'' \<notin> set (percent_encode keep up s)" "CHR ''='' \<notin> set (percent_encode keep up s)"
    for s
  proof -
    have "x \<noteq> CHR ''&'' \<and> x \<noteq> CHR ''=''" if "x \<in> set (percent_char keep up c)" for x c
      using that assms hex [OF char_nibbles(1), of c] hex [OF char_nibbles(2), of c]
      by (auto simp: percent_char_def split: if_splits)
    then show "CHR ''&'' \<notin> set (percent_encode keep up s)"
      "CHR ''='' \<notin> set (percent_encode keep up s)"
      by (auto simp: percent_encode_def)
  qed
  then have "parse_query (print_query
      (map (\<lambda>(k, v). (percent_encode keep up k, percent_encode keep up v)) ps)) =
      map (\<lambda>(k, v). (percent_encode keep up k, percent_encode keep up v)) ps"
    by (intro parse_print_query) (auto simp: query_printable_def)
  moreover have "map ((\<lambda>(k, v). (query_decode k, query_decode v)) \<circ>
      (\<lambda>(k, v). (percent_encode keep up k, percent_encode keep up v))) ps = ps"
    using assms(1) by (intro map_idI) (auto simp: query_decode_percent decode_percent_encode)
  ultimately show ?thesis
    by simp
qed

theorem query_roundtrip_witness:
  "map (\<lambda>(k, v). (query_decode k, query_decode v))
    (parse_query (print_query
      (map (\<lambda>(k, v). (percent_encode (\<lambda>c. c = CHR ''a'') True k,
         percent_encode (\<lambda>c. c = CHR ''a'') True v)) [(''a&b'', ''1=2%'')]))) = [(''a&b'', ''1=2%'')]"
  by (rule query_roundtrip) simp_all

text \<open>The index loop of percent decoding reads a text from the left: a percent sign with two
  hexadecimal digits after it becomes the byte they spell, any other character, an incomplete
  or invalid escape's percent sign too, is kept; the result is never longer than the text.\<close>

theorem query_decode_equations:
  "query_decode '''' = '''' \<and>
   query_decode (c # s) =
     (if c = CHR ''%'' \<and> 2 \<le> length s \<and> fst (unhex (s ! 0) (s ! 1))
      then byte_char (snd (unhex (s ! 0) (s ! 1))) # query_decode (drop 2 s)
      else c # query_decode s) \<and>
   length (query_decode s) \<le> length s"
proof (cases "2 \<le> length s")
  case True
  then obtain a b t where "s = a # b # t"
    by (metis One_nat_def Suc_1 Suc_le_length_iff)
  then show ?thesis
    using length_decode_percent [of s] by (simp add: query_decode_percent)
next
  case False
  then consider "s = ''''" | a where "s = [a]"
    by (cases s; cases "tl s") auto
  then show ?thesis
    by cases (simp_all add: query_decode_percent)
qed

text \<open>The remote port is the number the variable's digits spell, up to 65535, whatever
  follows them, and -1 for a larger number or when no digit comes first.\<close>

theorem port_number_value:
  assumes "rest = '''' \<or> \<not> is_digit (hd rest)"
  shows "port_number (digits 10 n @ rest) = (if n < 65536 then int n else -1) \<and> port_number rest = -1"
proof -
  have "port_number rest = -1"
    using assms by (cases rest) (auto simp: port_number_def from_chars_u16_def)
  moreover have "uint (word_of_nat n :: u16) = int n" if "n < 65536"
    using that by (simp add: uint_nat unat_of_nat)
  ultimately show ?thesis
    using from_chars_digits [OF assms, of n] by (simp add: port_number_def)
qed

theorem port_number_value_witness:
  "port_number (digits 10 59542 @ ''x'') = 59542 \<and> port_number ''x'' = -1"
  using port_number_value [of "''x''" 59542] by (simp add: is_digit_def char_le_def char_int_def)

end
