(* ===== verification/Request.thy ===== *)
theory Request
  imports Logger CgiData RequestText
begin

text \<open>
  \<open>request.cpp\<close> and \<open>request.h\<close>: the state of a request and its operations.  The record
  holds the request's own members and the objects it refers to: the CGI data, the logger and the
  process-wide symbol table.  The virtual functions of the CGI data and of the log callback, and
  the order in which the hash map of headers is traversed, are arguments (\<open>request_io\<close>).
\<close>

section \<open>Methods and encodings\<close>

datatype RequestMethod =
    GET | HEAD | POST | PUT | DELETE | CONNECT | OPTIONS | TRACE | PATCH
  | Unknown | Other | CatchAllHere | CatchAllRecursive

datatype ContentEncoding = CE_Verbatim | CE_UTF8 | CE_HTML

definition resolve_method :: "symtab \<Rightarrow> string \<Rightarrow> RequestMethod" where
  "resolve_method tab meth =
    (let sym = symbol_maybe meth tab in
     if sym = sym_GET then GET
     else if sym = sym_PUT then PUT
     else if sym = sym_POST then POST
     else if sym = sym_HEAD then HEAD
     else if sym = sym_PATCH then PATCH
     else if sym = sym_TRACE then TRACE
     else if sym = sym_DELETE then DELETE
     else if sym = sym_CONNECT then CONNECT
     else if sym = sym_OPTIONS then OPTIONS
     else Other)"

fun to_format :: "ContentEncoding \<Rightarrow> GenericFormat" where
  "to_format CE_Verbatim = GF_Verbatim"
| "to_format CE_UTF8 = GF_UTF8"
| "to_format CE_HTML = GF_HTML"

section \<open>State\<close>

type_synonym env_map = "(symbol, string) smap"
type_synonym header_map = "(symbol \<times> string) list"

text \<open>
  The constructor leaves \<open>encoding\<close> without a value, which is \<open>None\<close> here.
\<close>

record ('c, 'd) request =
  rq_syms :: symtab
  rq_cgi :: 'd
  rq_logger :: "'c logger"
  rq_env_map :: env_map
  rq_headers :: header_map
  rq_query :: query_params
  rq_route :: "string list"
  rq_relative_route :: "string list"
  rq_encoding :: "ContentEncoding option"
  rq_headers_sent_warning :: bool
  rq_headers_sent :: bool
  rq_query_parsed :: bool
  rq_route_parsed :: bool

record ('c, 'd) request_io =
  io_log :: "'c log_message"
  io_cgi :: "'d cgi_ops"
  io_order :: "header_map \<Rightarrow> header_map"

definition request_new :: "symtab \<Rightarrow> 'd \<Rightarrow> 'c logger \<Rightarrow> ('c, 'd) request" where
  "request_new tab cgidata lg =
    \<lparr>rq_syms = tab, rq_cgi = cgidata, rq_logger = lg, rq_env_map = [], rq_headers = [],
     rq_query = [], rq_route = [], rq_relative_route = [], rq_encoding = None,
     rq_headers_sent_warning = False, rq_headers_sent = False, rq_query_parsed = False,
     rq_route_parsed = False\<rparr>"

text \<open>What a request lets its user see of its members.\<close>

definition request_cgi_data :: "('c, 'd) request \<Rightarrow> 'd" where "request_cgi_data rq = rq_cgi rq"
definition request_logger :: "('c, 'd) request \<Rightarrow> 'c logger" where "request_logger rq = rq_logger rq"
definition request_headers :: "('c, 'd) request \<Rightarrow> header_map" where "request_headers rq = rq_headers rq"
definition request_headers_sent :: "('c, 'd) request \<Rightarrow> bool" where "request_headers_sent rq = rq_headers_sent rq"

definition request_encoding :: "('c, 'd) request \<Rightarrow> ContentEncoding option" where
  "request_encoding rq = rq_encoding rq"

section \<open>The environment\<close>

text \<open>A line without an equals sign is skipped; a later line of the same name is ignored, as
  \<open>emplace\<close> keeps the first.\<close>

fun env_lines :: "string list \<Rightarrow> symtab \<Rightarrow> env_map \<Rightarrow> env_map \<times> symtab" where
  "env_lines [] tab env = (env, tab)"
| "env_lines (line # envp) tab env =
     (case sv_find (CHR ''='') 0 line of
        None \<Rightarrow> env_lines envp tab env
      | Some split_pos \<Rightarrow>
          (let key = sv_substr 0 (Some split_pos) line;
               val = sv_substr (split_pos + 1) None line;
               (sym, tab) = internalize key tab
           in env_lines envp tab (smap_emplace (symbol_less tab) sym val env)))"

definition request_env_map ::
  "('c, 'd) request_io \<Rightarrow> ('c, 'd) request \<Rightarrow> env_map \<times> ('c, 'd) request" where
  "request_env_map io rq =
    (if rq_env_map rq = [] then
       (let (env, tab) = env_lines (cgi_env (io_cgi io) (rq_cgi rq)) (rq_syms rq) (rq_env_map rq)
        in (env, rq\<lparr>rq_env_map := env, rq_syms := tab\<rparr>))
     else (rq_env_map rq, rq))"

definition request_env ::
  "('c, 'd) request_io \<Rightarrow> symbol \<Rightarrow> ('c, 'd) request \<Rightarrow> string \<times> ('c, 'd) request" where
  "request_env io key rq =
    (let (env, rq) = request_env_map io rq
     in (case smap_find (symbol_less (rq_syms rq)) key env of Some v \<Rightarrow> v | None \<Rightarrow> '''', rq))"

definition request_content_type where "request_content_type io = request_env io sym_CONTENT_TYPE"
definition request_content_length where "request_content_length io = request_env io sym_CONTENT_LENGTH"
definition request_method_string where "request_method_string io = request_env io sym_REQUEST_METHOD"
definition request_scheme where "request_scheme io = request_env io sym_REQUEST_SCHEME"
definition query_string where "query_string io = request_env io sym_QUERY_STRING"
definition script_name where "script_name io = request_env io sym_SCRIPT_NAME"
definition document_uri where "document_uri io = request_env io sym_DOCUMENT_URI"
definition path_info where "path_info io = request_env io sym_PATH_INFO"
definition remote_addr where "remote_addr io = request_env io sym_REMOTE_ADDR"
definition remote_port_string where "remote_port_string io = request_env io sym_REMOTE_PORT"
definition user_agent where "user_agent io = request_env io sym_HTTP_USER_AGENT"
definition do_not_track_string where "do_not_track_string io = request_env io sym_HTTP_DNT"

definition request_method ::
  "('c, 'd) request_io \<Rightarrow> ('c, 'd) request \<Rightarrow> RequestMethod \<times> ('c, 'd) request" where
  "request_method io rq =
    (let (val, rq) = request_method_string io rq
     in (if val = '''' then Unknown else resolve_method (rq_syms rq) val, rq))"

definition remote_port ::
  "('c, 'd) request_io \<Rightarrow> ('c, 'd) request \<Rightarrow> int \<times> ('c, 'd) request" where
  "remote_port io rq = (let (val, rq) = remote_port_string io rq in (port_number val, rq))"

definition do_not_track ::
  "('c, 'd) request_io \<Rightarrow> ('c, 'd) request \<Rightarrow> bool \<times> ('c, 'd) request" where
  "do_not_track io rq = (let (val, rq) = do_not_track_string io rq in (dnt_flag val, rq))"

section \<open>Route and query\<close>

definition full_route ::
  "('c, 'd) request_io \<Rightarrow> ('c, 'd) request \<Rightarrow> string list \<times> ('c, 'd) request" where
  "full_route io rq =
    (if \<not> rq_route_parsed rq then
       (let (uri, rq) = document_uri io rq;
            route = route_loop uri (rq_route rq)
        in (route, rq\<lparr>rq_route := route, rq_route_parsed := True, rq_relative_route := route\<rparr>))
     else (rq_route rq, rq))"

definition relative_route ::
  "('c, 'd) request_io \<Rightarrow> ('c, 'd) request \<Rightarrow> string list \<times> ('c, 'd) request" where
  "relative_route io rq =
    (let rq = (if \<not> rq_route_parsed rq then snd (full_route io rq) else rq)
     in (rq_relative_route rq, rq))"

text \<open>The caller's vector and the request's change places.\<close>

definition swap_relative_route ::
  "string list \<Rightarrow> ('c, 'd) request \<Rightarrow> string list \<times> ('c, 'd) request" where
  "swap_relative_route route rq = (rq_relative_route rq, rq\<lparr>rq_relative_route := route\<rparr>)"

definition request_query ::
  "('c, 'd) request_io \<Rightarrow> ('c, 'd) request \<Rightarrow> query_params \<times> ('c, 'd) request" where
  "request_query io rq =
    (if \<not> rq_query_parsed rq then
       (let (query_str, rq) = query_string io rq;
            query = query_loop query_str (rq_query rq)
        in (query, rq\<lparr>rq_query := query, rq_query_parsed := True\<rparr>))
     else (rq_query rq, rq))"

definition request_query_key ::
  "('c, 'd) request_io \<Rightarrow> string \<Rightarrow> ('c, 'd) request \<Rightarrow> (bool \<times> string) \<times> ('c, 'd) request"
where
  "request_query_key io key rq =
    (let (params, rq) = request_query io rq in (query_find params key, rq))"

section \<open>Headers\<close>

definition request_header :: "symbol \<Rightarrow> ('c, 'd) request \<Rightarrow> string" where
  "request_header key rq = (case map_of (rq_headers rq) key of Some v \<Rightarrow> v | None \<Rightarrow> '''')"

definition http_status :: "('c, 'd) request \<Rightarrow> string" where
  "http_status rq = request_header sym_Status rq"

definition content_type :: "('c, 'd) request \<Rightarrow> string" where
  "content_type rq = request_header sym_ContentType rq"

definition issue_headers_sent_warning ::
  "('c, 'd) request_io \<Rightarrow> symbol \<Rightarrow> ('c, 'd) request \<Rightarrow> ('c, 'd) request" where
  "issue_headers_sent_warning io key rq =
    (let ls = log_stream_append (rq_syms rq)
           [CString ''Attempted to modify header \"'', Sym key,
            CString ''\" after headers already sent - ''] (log_stream_new Error);
         (meth, rq) = request_method_string io rq;
         ls = log_stream_append (rq_syms rq) [View meth, Char (CHR '' '')] ls;
         (uri, rq) = document_uri io rq;
         ls = log_stream_append (rq_syms rq) [View uri] ls
     in rq\<lparr>rq_logger := log_stream_destroy (io_log io) ls (rq_logger rq)\<rparr>)"

definition set_header ::
  "('c, 'd) request_io \<Rightarrow> symbol \<Rightarrow> string \<Rightarrow> ('c, 'd) request \<Rightarrow> bool \<times> ('c, 'd) request"
where
  "set_header io key val rq =
    (if rq_headers_sent rq then
       (False,
        if rq_headers_sent_warning rq then rq
        else (issue_headers_sent_warning io key rq)\<lparr>rq_headers_sent_warning := True\<rparr>)
     else (True, rq\<lparr>rq_headers := umap_emplace key val (rq_headers rq)\<rparr>))"

definition set_header_int ::
  "('c, 'd) request_io \<Rightarrow> symbol \<Rightarrow> int \<Rightarrow> ('c, 'd) request \<Rightarrow> bool \<times> ('c, 'd) request"
where
  "set_header_int io key val rq = set_header io key (to_chars val) rq"

definition set_http_status ::
  "('c, 'd) request_io \<Rightarrow> u16 \<Rightarrow> ('c, 'd) request \<Rightarrow> bool \<times> ('c, 'd) request" where
  "set_http_status io code rq = set_header io sym_Status (to_chars (uint code)) rq"

definition set_content_type_encoding ::
  "('c, 'd) request_io \<Rightarrow> string \<Rightarrow> ContentEncoding \<Rightarrow> ('c, 'd) request \<Rightarrow>
   bool \<times> ('c, 'd) request"
where
  "set_content_type_encoding io ct encoding rq =
    (let (ok, rq) = set_header io sym_ContentType ct rq
     in if ok then (True, rq\<lparr>rq_encoding := Some encoding\<rparr>) else (False, rq))"

definition detect_encoding :: "string \<Rightarrow> ContentEncoding" where
  "detect_encoding ct =
    (if ct = ''text/html'' then CE_HTML
     else if sv_substr 0 (Some 5) ct = ''text/'' then CE_UTF8
     else CE_Verbatim)"

definition set_content_type ::
  "('c, 'd) request_io \<Rightarrow> string \<Rightarrow> ('c, 'd) request \<Rightarrow> bool \<times> ('c, 'd) request" where
  "set_content_type io ct rq = set_content_type_encoding io ct (detect_encoding ct) rq"

definition set_encoding :: "ContentEncoding \<Rightarrow> ('c, 'd) request \<Rightarrow> ('c, 'd) request" where
  "set_encoding encoding rq = rq\<lparr>rq_encoding := Some encoding\<rparr>"

text \<open>The four writes for a header, and all the writes of \<open>send_headers\<close>.\<close>

definition crlf :: string where
  "crlf = [CHR 0x0D, CHR 0x0A]"

definition header_writes :: "symtab \<Rightarrow> symbol \<times> string \<Rightarrow> string list" where
  "header_writes tab h = [resolve (fst h) tab, '': '', snd h, crlf]"

definition send_headers ::
  "('c, 'd) request_io \<Rightarrow> ('c, 'd) request \<Rightarrow> ('c, 'd) request" where
  "send_headers io rq =
    (if rq_headers_sent rq then rq
     else
       (let headers =
              (if map_of (rq_headers rq) sym_Status = None
               then umap_emplace sym_Status ''200'' (rq_headers rq) else rq_headers rq);
            d = write_all (io_cgi io)
                  (concat (map (header_writes (rq_syms rq)) (io_order io headers))) (rq_cgi rq);
            d = write_all (io_cgi io) [crlf] d
        in rq\<lparr>rq_headers := headers, rq_cgi := d, rq_headers_sent := True\<rparr>))"

section \<open>Reading and writing\<close>

text \<open>\<open>read\<close> is given the buffer's size, \<open>None\<close> for a null pointer.\<close>

definition request_read ::
  "('c, 'd) request_io \<Rightarrow> nat option \<Rightarrow> ('c, 'd) request \<Rightarrow> (int \<times> string) \<times> ('c, 'd) request"
where
  "request_read io buffer rq =
    (case buffer of
       None \<Rightarrow> ((0, ''''), rq)
     | Some bufsize \<Rightarrow>
         if bufsize = 0 then ((0, ''''), rq)
         else (let (r, d) = cgi_read (io_cgi io) bufsize (rq_cgi rq) in (r, rq\<lparr>rq_cgi := d\<rparr>)))"

definition request_write ::
  "('c, 'd) request_io \<Rightarrow> string \<Rightarrow> ('c, 'd) request \<Rightarrow> int \<times> ('c, 'd) request" where
  "request_write io buffer rq =
    (let rq = send_headers io rq;
         (n, d) = cgi_write (io_cgi io) buffer (rq_cgi rq)
     in (n, rq\<lparr>rq_cgi := d\<rparr>))"

definition request_error ::
  "('c, 'd) request_io \<Rightarrow> string \<Rightarrow> ('c, 'd) request \<Rightarrow> int \<times> ('c, 'd) request" where
  "request_error io buffer rq =
    (let (n, d) = cgi_error (io_cgi io) buffer (rq_cgi rq) in (n, rq\<lparr>rq_cgi := d\<rparr>))"

definition flush_write ::
  "('c, 'd) request_io \<Rightarrow> ('c, 'd) request \<Rightarrow> int \<times> ('c, 'd) request" where
  "flush_write io rq =
    (let (n, d) = cgi_flush_write (io_cgi io) (rq_cgi rq) in (n, rq\<lparr>rq_cgi := d\<rparr>))"

definition flush_error ::
  "('c, 'd) request_io \<Rightarrow> ('c, 'd) request \<Rightarrow> int \<times> ('c, 'd) request" where
  "flush_error io rq =
    (let (n, d) = cgi_flush_error (io_cgi io) (rq_cgi rq) in (n, rq\<lparr>rq_cgi := d\<rparr>))"

section \<open>The destructor\<close>

definition no_data_message :: string where
  "no_data_message = ''Data processor did not return any data''"

definition request_destroy ::
  "('c, 'd) request_io \<Rightarrow> ('c, 'd) request \<Rightarrow> ('c, 'd) request" where
  "request_destroy io rq =
    (if \<not> rq_headers_sent rq then
       (let rq = snd (set_http_status io 500 rq);
            rq = snd (set_content_type io ''text/plain'' rq);
            rq = snd (set_header_int io sym_ContentLength (int (length no_data_message)) rq)
        in snd (request_write io no_data_message rq))
     else rq)"

section \<open>What the environment holds\<close>

text \<open>The bindings of the lines that have an equals sign, cut at the first one.\<close>

definition env_bindings :: "string list \<Rightarrow> (string \<times> string) list" where
  "env_bindings envp =
    map (\<lambda>line. (before_split (CHR ''='') line, after_split (CHR ''='') line))
      (filter (\<lambda>line. CHR ''='' \<in> set line) envp)"

definition env_value :: "string list \<Rightarrow> string \<Rightarrow> string" where
  "env_value envp name = (case map_of (env_bindings envp) name of Some v \<Rightarrow> v | None \<Rightarrow> '''')"

text \<open>The map of a request as a map from names; its keys are valid and in the order of names.\<close>

definition env_names :: "symtab \<Rightarrow> env_map \<Rightarrow> (string \<times> string) list" where
  "env_names tab env = map (\<lambda>e. (resolve (fst e) tab, snd e)) env"

definition env_ok :: "symtab \<Rightarrow> env_map \<Rightarrow> bool" where
  "env_ok tab env \<longleftrightarrow> (\<forall>e\<in>set env. symbol_valid tab (fst e)) \<and>
     sorted_wrt (<) (map ((\<lambda>s. resolve s tab) \<circ> fst) env)"

lemma env_names_extends:
  "symtab_extends tab tab' \<Longrightarrow> env_ok tab env \<Longrightarrow>
   env_names tab' env = env_names tab env \<and> env_ok tab' env"
proof -
  assume *: "symtab_extends tab tab'" "env_ok tab env"
  then have eq: "resolve (fst e) tab' = resolve (fst e) tab \<and> symbol_valid tab' (fst e)"
    if "e \<in> set env" for e
    using that symtab_extends_keeps by (auto simp: env_ok_def)
  then have "map ((\<lambda>s. resolve s tab') \<circ> fst) env = map ((\<lambda>s. resolve s tab) \<circ> fst) env"
    by simp
  then have "map ((\<lambda>s. resolve s tab') \<circ> fst) env = map ((\<lambda>s. resolve s tab) \<circ> fst) env"
    by simp
  with * eq have "env_ok tab' env"
    unfolding env_ok_def by metis
  moreover have "env_names tab' env = env_names tab env"
    using eq by (simp add: env_names_def)
  ultimately show ?thesis by simp
qed

lemma env_ok_emplace:
  assumes "env_ok tab env" "symbol_valid tab s"
  shows "env_ok tab (smap_emplace (symbol_less tab) s v env)"
proof -
  let ?names = "\<lambda>m. (\<lambda>s. resolve s tab) ` fst ` set m"
  have "fst ` set (smap_emplace lt s v env) \<subseteq> insert s (fst ` set env)" for lt
    by (induction env) (auto simp: smap_emplace.simps(2) split: if_splits, (force simp: image_iff)+)
  then have "\<forall>e\<in>set (smap_emplace (symbol_less tab) s v env). symbol_valid tab (fst e)"
    using assms by (fastforce simp: env_ok_def)
  with assms(1) show ?thesis
    by (simp add: env_ok_def symord.sorted_emplace)
qed

lemma env_lines_step:
  "env_lines (line # envp) tab env =
    (if CHR ''='' \<in> set line then
       (let (sym, tab) = internalize (before_split (CHR ''='') line) tab
        in env_lines envp tab
             (smap_emplace (symbol_less tab) sym (after_split (CHR ''='') line) env))
     else env_lines envp tab env)"
  by (simp add: before_split_def after_split_def sv_find_0)

lemma env_lines_spec:
  assumes "symtab_ok tab" "length (env_bindings envp) \<le> st_room tab" "env_ok tab env"
    and "env_lines envp tab env = (env', tab')"
  shows "symtab_ok tab' \<and> symtab_extends tab tab' \<and> st_room tab \<le> length (env_bindings envp) + st_room tab' \<and>
    env_ok tab' env' \<and>
    map_of (env_names tab' env') = map_of (env_bindings envp) ++ map_of (env_names tab env)"
  using assms
proof (induction envp arbitrary: tab env)
  case Nil
  then show ?case by (simp add: env_bindings_def)
next
  case (Cons line envp)
  show ?case
  proof (cases "CHR ''='' \<in> set line")
    case False
    with Cons.prems have "env_lines envp tab env = (env', tab')"
      by (simp only: env_lines_step if_False)
    with Cons.IH [of tab env] Cons.prems(1-3) False show ?thesis
      by (simp add: env_bindings_def)
  next
    case True
    let ?k = "before_split (CHR ''='') line" and ?v = "after_split (CHR ''='') line"
    obtain sym tab1 where int: "internalize ?k tab = (sym, tab1)"
      by fastforce
    have wf: "symtab_wf tab" and room: "0 < st_room tab"
      using Cons.prems True by (auto simp: symtab_ok_def env_bindings_def)
    note i = internalize_spec [OF wf room int]
    define env1 where "env1 = smap_emplace (symbol_less tab1) sym ?v env"
    have ok: "env_ok tab1 env" and names: "env_names tab1 env = env_names tab env"
      using env_names_extends [OF i(4) Cons.prems(3)] by simp_all
    have "map_of (env_names tab1 env1) = [?k \<mapsto> ?v] ++ map_of (env_names tab env)"
      using symord.assoc_emplace [of tab1 env sym ?v] ok i(3) names
      by (simp only: env1_def env_names_def env_ok_def)
    moreover have "env_ok tab1 env1"
      unfolding env1_def by (rule env_ok_emplace [OF ok i(2)])
    moreover have "symtab_ok tab1"
      using symtab_ok_internalize [OF Cons.prems(1) room, of ?k] int by simp
    moreover have "env_lines envp tab1 env1 = (env', tab')"
      using Cons.prems(4) True int by (simp only: env_lines_step if_True env1_def) simp
    moreover have len: "length (env_bindings (line # envp)) = Suc (length (env_bindings envp))"
      using True by (simp add: env_bindings_def)
    then have "length (env_bindings envp) \<le> st_room tab1"
      using i(5) Cons.prems(2) by simp
    ultimately have IH: "symtab_ok tab'" "symtab_extends tab1 tab'"
      "st_room tab1 \<le> length (env_bindings envp) + st_room tab'" "env_ok tab' env'"
      "map_of (env_names tab' env') =
        map_of (env_bindings envp) ++ ([?k \<mapsto> ?v] ++ map_of (env_names tab env))"
      using Cons.IH [of tab1 env1] by (simp_all only:)
    have "map_of (env_bindings (line # envp)) = map_of (env_bindings envp) ++ [?k \<mapsto> ?v]"
      using True by (auto simp: env_bindings_def fun_eq_iff)
    then have "map_of (env_names tab' env') =
        map_of (env_bindings (line # envp)) ++ map_of (env_names tab env)"
      by (simp only: IH(5) map_add_assoc)
    with IH i(4,5) len show ?thesis
      by (auto intro: symtab_extends_trans)
  qed
qed

lemma env_find_names: "smap_find (symbol_less tab) k env = map_of (env_names tab env) (resolve k tab)"
  by (simp add: env_names_def symord.find_assoc)

text \<open>
  The invariant of the lazy parse: the table has the library's symbols, a map not parsed yet has
  room for its names, a parsed one holds the bindings.
\<close>

definition env_inv :: "string list \<Rightarrow> ('c, 'd) request \<Rightarrow> bool" where
  "env_inv envp rq \<longleftrightarrow> symtab_ok (rq_syms rq) \<and>
     (if rq_env_map rq = [] then length (env_bindings envp) \<le> st_room (rq_syms rq)
      else env_ok (rq_syms rq) (rq_env_map rq) \<and>
        map_of (env_names (rq_syms rq) (rq_env_map rq)) = map_of (env_bindings envp))"

lemma request_env_map_spec:
  assumes "env_inv (cgi_env (io_cgi io) (rq_cgi rq)) rq" "request_env_map io rq = (env, rq')"
  shows "env_inv (cgi_env (io_cgi io) (rq_cgi rq)) rq' \<and>
    rq' = rq\<lparr>rq_env_map := env, rq_syms := rq_syms rq'\<rparr> \<and>
    symtab_extends (rq_syms rq) (rq_syms rq') \<and>
    map_of (env_names (rq_syms rq') env) = map_of (env_bindings (cgi_env (io_cgi io) (rq_cgi rq)))"
proof (cases "rq_env_map rq = []")
  case False
  with assms show ?thesis by (auto simp: request_env_map_def env_inv_def)
next
  case True
  let ?envp = "cgi_env (io_cgi io) (rq_cgi rq)"
  obtain tab' where lines: "env_lines ?envp (rq_syms rq) [] = (env, tab')"
    and rq': "rq' = rq\<lparr>rq_env_map := env, rq_syms := tab'\<rparr>"
    using assms(2) True by (auto simp: request_env_map_def split: prod.splits)
  have spec: "symtab_ok tab' \<and> symtab_extends (rq_syms rq) tab' \<and>
      st_room (rq_syms rq) \<le> length (env_bindings ?envp) + st_room tab' \<and> env_ok tab' env \<and>
      map_of (env_names tab' env) = map_of (env_bindings ?envp) ++ map_of (env_names (rq_syms rq) [])"
    using assms(1) True by (intro env_lines_spec [OF _ _ _ lines]) (auto simp: env_inv_def env_ok_def)
  then have names: "map_of (env_names tab' env) = map_of (env_bindings ?envp)"
    by (simp add: env_names_def)
  moreover have "env_bindings ?envp = []" if "env = []"
    using names that by (simp add: env_names_def)
  ultimately show ?thesis
    using spec rq' by (auto simp: env_inv_def)
qed

lemma request_env_spec:
  assumes "env_inv (cgi_env (io_cgi io) (rq_cgi rq)) rq" "symbol_valid (rq_syms rq) key"
    and "request_env io key rq = (v, rq')"
  shows "v = env_value (cgi_env (io_cgi io) (rq_cgi rq)) (resolve key (rq_syms rq)) \<and>
    env_inv (cgi_env (io_cgi io) (rq_cgi rq)) rq' \<and>
    symtab_extends (rq_syms rq) (rq_syms rq') \<and>
    (\<exists>env tab. rq' = rq\<lparr>rq_env_map := env, rq_syms := tab\<rparr>)"
proof -
  obtain env where env: "request_env_map io rq = (env, rq')"
    and v: "v = (case smap_find (symbol_less (rq_syms rq')) key env of Some v \<Rightarrow> v | None \<Rightarrow> '''')"
    using assms(3) by (auto simp: request_env_def split: prod.splits)
  note spec = request_env_map_spec [OF assms(1) env]
  then have "resolve key (rq_syms rq') = resolve key (rq_syms rq)"
    using assms(2) symtab_extends_keeps by blast
  moreover have "\<exists>env tab. rq' = rq\<lparr>rq_env_map := env, rq_syms := tab\<rparr>"
    using spec by blast
  ultimately show ?thesis
    using spec v by (simp add: env_value_def env_find_names)
qed

text \<open>The library's symbols name what they are called after in every table of the program.\<close>

lemma builtin_symbol:
  assumes "symtab_ok tab" "n < 26"
  shows "symbol_valid tab (word_of_nat (Suc n)) \<and>
    resolve (word_of_nat (Suc n)) tab = builtin_names ! n"
proof -
  have "unat (word_of_nat (Suc n) :: symbol) = Suc n"
    using assms(2) by (simp add: unat_of_nat del: of_nat_Suc)
  moreover have "length builtin_names = 26"
    by (simp add: builtin_names_def)
  ultimately have "symbol_valid boot_table (word_of_nat (Suc n))"
    "resolve (word_of_nat (Suc n)) boot_table = builtin_names ! n"
    using assms(2) by (simp_all only: symbol_valid_def resolve_def boot_table_strings) simp_all
  with assms(1) show ?thesis
    using symtab_extends_keeps unfolding symtab_ok_def by metis
qed

lemma builtin_symbols:
  assumes "symtab_ok tab"
  shows "resolve sym_Status tab = ''Status''" "symbol_valid tab sym_Status"
    "resolve sym_ContentLength tab = ''Content-Length''" "symbol_valid tab sym_ContentLength"
    "resolve sym_ContentType tab = ''Content-Type''" "symbol_valid tab sym_ContentType"
    "resolve sym_REQUEST_METHOD tab = ''REQUEST_METHOD''" "symbol_valid tab sym_REQUEST_METHOD"
    "resolve sym_QUERY_STRING tab = ''QUERY_STRING''" "symbol_valid tab sym_QUERY_STRING"
    "resolve sym_DOCUMENT_URI tab = ''DOCUMENT_URI''" "symbol_valid tab sym_DOCUMENT_URI"
    "resolve sym_REMOTE_ADDR tab = ''REMOTE_ADDR''" "symbol_valid tab sym_REMOTE_ADDR"
    "resolve sym_REMOTE_PORT tab = ''REMOTE_PORT''" "symbol_valid tab sym_REMOTE_PORT"
    "resolve sym_HTTP_DNT tab = ''HTTP_DNT''" "symbol_valid tab sym_HTTP_DNT"
    "resolve sym_GET tab = ''GET''" "symbol_valid tab sym_GET"
    "resolve sym_wildcard tab = ''*''" "symbol_valid tab sym_wildcard"
  using builtin_symbol [OF assms, of 0] builtin_symbol [OF assms, of 1]
    builtin_symbol [OF assms, of 2] builtin_symbol [OF assms, of 5]
    builtin_symbol [OF assms, of 7] builtin_symbol [OF assms, of 9]
    builtin_symbol [OF assms, of 11] builtin_symbol [OF assms, of 12]
    builtin_symbol [OF assms, of 14] builtin_symbol [OF assms, of 15]
    builtin_symbol [OF assms, of 25]
  by (simp_all add: sym_values builtin_names_def)

lemma symbol_maybe_builtin:
  assumes "symtab_ok tab" "n < 26"
  shows "symbol_maybe s tab = word_of_nat (Suc n) \<longleftrightarrow> s = builtin_names ! n"
proof -
  have wf: "symtab_wf tab" using assms(1) by (simp add: symtab_ok_def)
  note b = builtin_symbol [OF assms]
  have "'''' \<notin> set builtin_names" "length builtin_names = 26"
    by (simp_all add: builtin_names_def)
  moreover from this have "builtin_names ! n \<in> set builtin_names"
    using assms(2) by (intro nth_mem) simp
  ultimately have "builtin_names ! n \<noteq> ''''"
    by metis
  then show ?thesis
    using symbol_maybe_spec(2) [OF wf, of s] b sym.maybe_finds [OF wf, of "word_of_nat (Suc n)"]
    by metis
qed

text \<open>The methods by their names.\<close>

definition method_names :: "(string \<times> RequestMethod) list" where
  "method_names =
    [(''GET'', GET), (''PUT'', PUT), (''POST'', POST), (''HEAD'', HEAD), (''PATCH'', PATCH),
     (''TRACE'', TRACE), (''DELETE'', DELETE), (''CONNECT'', CONNECT), (''OPTIONS'', OPTIONS)]"

definition method_of :: "string \<Rightarrow> RequestMethod" where
  "method_of s =
    (if s = '''' then Unknown
     else case map_of method_names s of Some m \<Rightarrow> m | None \<Rightarrow> Other)"

lemma resolve_method_names:
  assumes "symtab_ok tab"
  shows "resolve_method tab s = (case map_of method_names s of Some m \<Rightarrow> m | None \<Rightarrow> Other)"
proof -
  have "symbol_maybe s tab = sym_GET \<longleftrightarrow> s = ''GET''"
    "symbol_maybe s tab = sym_PUT \<longleftrightarrow> s = ''PUT''"
    "symbol_maybe s tab = sym_POST \<longleftrightarrow> s = ''POST''"
    "symbol_maybe s tab = sym_HEAD \<longleftrightarrow> s = ''HEAD''"
    "symbol_maybe s tab = sym_PATCH \<longleftrightarrow> s = ''PATCH''"
    "symbol_maybe s tab = sym_TRACE \<longleftrightarrow> s = ''TRACE''"
    "symbol_maybe s tab = sym_DELETE \<longleftrightarrow> s = ''DELETE''"
    "symbol_maybe s tab = sym_CONNECT \<longleftrightarrow> s = ''CONNECT''"
    "symbol_maybe s tab = sym_OPTIONS \<longleftrightarrow> s = ''OPTIONS''"
    using symbol_maybe_builtin [OF assms, of 15 s] symbol_maybe_builtin [OF assms, of 16 s]
      symbol_maybe_builtin [OF assms, of 17 s] symbol_maybe_builtin [OF assms, of 18 s]
      symbol_maybe_builtin [OF assms, of 19 s] symbol_maybe_builtin [OF assms, of 20 s]
      symbol_maybe_builtin [OF assms, of 21 s] symbol_maybe_builtin [OF assms, of 22 s]
      symbol_maybe_builtin [OF assms, of 23 s]
    by (simp_all add: sym_values builtin_names_def)
  then show ?thesis
    unfolding resolve_method_def Let_def by (simp add: method_names_def)
qed

lemma request_method_value:
  assumes "env_inv (cgi_env (io_cgi io) (rq_cgi rq)) rq"
  shows "fst (request_method io rq) =
    method_of (env_value (cgi_env (io_cgi io) (rq_cgi rq)) ''REQUEST_METHOD'')"
proof -
  have ok: "symtab_ok (rq_syms rq)"
    using assms by (simp add: env_inv_def)
  obtain v rq' where e: "request_env io sym_REQUEST_METHOD rq = (v, rq')"
    by fastforce
  note spec = request_env_spec [OF assms builtin_symbols(8) [OF ok] e]
  then have "symtab_ok (rq_syms rq')"
    by (simp add: env_inv_def)
  with spec e show ?thesis
    by (simp add: request_method_def request_method_string_def resolve_method_names method_of_def
        builtin_symbols [OF ok])
qed

section \<open>Properties of the environment\<close>

text \<open>A variable's value is what stands behind the first equals sign of the first line that
  begins with its name and an equals sign, and the empty text when there is no such line; asking
  keeps the parsed map consistent, so the answer is the same every time.\<close>

theorem request_env_first_binding:
  assumes "env_inv (cgi_env (io_cgi io) (rq_cgi rq)) rq" "symbol_valid (rq_syms rq) key"
    and "request_env io key rq = (v, rq')"
  shows "v = env_value (cgi_env (io_cgi io) (rq_cgi rq)) (resolve key (rq_syms rq)) \<and>
    fst (request_env io key rq') = v \<and> env_inv (cgi_env (io_cgi io) (rq_cgi rq')) rq'"
proof -
  note spec = request_env_spec [OF assms]
  then have cgi: "rq_cgi rq' = rq_cgi rq"
    by auto
  have "symbol_valid (rq_syms rq') key \<and> resolve key (rq_syms rq') = resolve key (rq_syms rq)"
    using spec assms(2) symtab_extends_keeps by blast
  then show ?thesis
    using spec request_env_spec [of io rq' key "fst (request_env io key rq')" "snd (request_env io key rq')"]
    by (simp add: cgi)
qed

definition sample_io :: "(mock_logger, mock_cgi) request_io" where
  "sample_io = \<lparr>io_log = mock_log_message, io_cgi = mock_ops, io_order = rev\<rparr>"

definition sample_request :: "string list \<Rightarrow> (mock_logger, mock_cgi) request" where
  "sample_request envp =
    request_new boot_table (mock_cgi_new '''' envp)
      (logger_new_callback \<lparr>log_debug = [], log_info = [], log_error = []\<rparr>)"

lemma sample_env: "cgi_env (io_cgi sample_io) (rq_cgi (sample_request envp)) = envp"
  by (simp add: sample_io_def sample_request_def request_new_def mock_ops_def mock_cgi_new_def)

lemma sample_env_inv:
  assumes "length envp < 1000"
  shows "env_inv (cgi_env (io_cgi sample_io) (rq_cgi (sample_request envp))) (sample_request envp)"
proof -
  have "length (env_bindings envp) \<le> length envp"
    by (simp add: env_bindings_def)
  moreover have "st_room boot_table = 4294967269"
    by (simp add: st_room_def boot_table_strings builtin_names_def)
  ultimately have "length (env_bindings envp) \<le> st_room boot_table"
    using assms by linarith
  then show ?thesis
    unfolding sample_env
    by (simp add: env_inv_def sample_request_def request_new_def symtab_ok_boot)
qed

theorem request_env_first_binding_witness:
  "fst (request_env sample_io sym_QUERY_STRING
      (sample_request [''X'', ''QUERY_STRING=a=b'', ''QUERY_STRING=c''])) = ''a=b''"
proof -
  let ?envp = "[''X'', ''QUERY_STRING=a=b'', ''QUERY_STRING=c'']"
  have ok: "symtab_ok (rq_syms (sample_request ?envp))"
    by (simp add: sample_request_def request_new_def symtab_ok_boot)
  have "env_inv (cgi_env (io_cgi sample_io) (rq_cgi (sample_request ?envp))) (sample_request ?envp)"
    by (rule sample_env_inv) simp
  from request_env_first_binding [OF this builtin_symbols(10) [OF ok] surjective_pairing]
  show ?thesis
    unfolding sample_env builtin_symbols(9) [OF ok]
    by (simp add: env_value_def env_bindings_def before_split_takeWhile after_split_dropWhile)
qed

text \<open>The method is read from \<open>REQUEST_METHOD\<close>: the nine methods by their exact names,
  \<open>Unknown\<close> when the variable is missing or empty, and \<open>Other\<close> for every other text.\<close>

theorem request_method_by_name:
  assumes "env_inv (cgi_env (io_cgi io) (rq_cgi rq)) rq"
  shows "fst (request_method io rq) =
    method_of (env_value (cgi_env (io_cgi io) (rq_cgi rq)) ''REQUEST_METHOD'')"
  by (rule request_method_value [OF assms])

theorem request_method_by_name_witness:
  "fst (request_method sample_io (sample_request [''REQUEST_METHOD=PUT''])) = PUT"
proof -
  have "env_inv (cgi_env (io_cgi sample_io) (rq_cgi (sample_request [''REQUEST_METHOD=PUT''])))
      (sample_request [''REQUEST_METHOD=PUT''])"
    by (rule sample_env_inv) simp
  from request_method_by_name [OF this] show ?thesis
    unfolding sample_env
    by (simp add: env_value_def env_bindings_def before_split_takeWhile after_split_dropWhile
        method_of_def method_names_def)
qed

text \<open>The route is the non-empty components of \<open>DOCUMENT_URI\<close>; until a router swaps it the
  relative route is the same, and swapping it leaves the full route alone.\<close>

theorem request_routes:
  assumes "env_inv (cgi_env (io_cgi io) (rq_cgi rq)) rq" "\<not> rq_route_parsed rq" "rq_route rq = []"
  shows "let r = parse_route (env_value (cgi_env (io_cgi io) (rq_cgi rq)) ''DOCUMENT_URI'');
      rq' = snd (relative_route io rq)
    in fst (full_route io rq) = r \<and> fst (relative_route io rq) = r \<and>
       fst (full_route io (snd (swap_relative_route sub rq'))) = r \<and>
       fst (relative_route io (snd (swap_relative_route sub rq'))) = sub \<and>
       fst (swap_relative_route sub rq') = r"
proof -
  have ok: "symtab_ok (rq_syms rq)"
    using assms(1) by (simp add: env_inv_def)
  obtain v rq1 where e: "request_env io sym_DOCUMENT_URI rq = (v, rq1)"
    by fastforce
  note spec = request_env_spec [OF assms(1) builtin_symbols(12) [OF ok] e]
  then have "v = env_value (cgi_env (io_cgi io) (rq_cgi rq)) ''DOCUMENT_URI''"
    and "rq_route rq1 = []" "\<not> rq_route_parsed rq1"
    using assms(2,3) builtin_symbols [OF ok] by auto
  with e assms(2) show ?thesis
    by (simp add: full_route_def relative_route_def swap_relative_route_def document_uri_def
        parse_route_def builtin_symbols [OF ok] Let_def)
qed

theorem request_routes_witness:
  "fst (full_route sample_io (sample_request [''DOCUMENT_URI=//api/user/7/''])) =
    [''api'', ''user'', ''7'']"
proof -
  let ?rq = "sample_request [''DOCUMENT_URI=//api/user/7/'']"
  have "env_inv (cgi_env (io_cgi sample_io) (rq_cgi ?rq)) ?rq"
    by (rule sample_env_inv) simp
  from request_routes [OF this] show ?thesis
    unfolding sample_env
    by (simp add: Let_def sample_request_def request_new_def env_value_def env_bindings_def
        before_split_takeWhile after_split_dropWhile parse_route_split)
qed

text \<open>Asking for a query parameter gives the first pair of \<open>QUERY_STRING\<close> with that key, and
  says so when there is none; pairs are cut at the ampersands and at the first equals sign.\<close>

theorem request_query_parameter:
  assumes "env_inv (cgi_env (io_cgi io) (rq_cgi rq)) rq" "\<not> rq_query_parsed rq" "rq_query rq = []"
  shows "fst (request_query_key io key rq) =
    (case map_of (parse_query (env_value (cgi_env (io_cgi io) (rq_cgi rq)) ''QUERY_STRING'')) key of
       None \<Rightarrow> (False, '''') | Some v \<Rightarrow> (True, v)) \<and>
    fst (request_query_key io key (snd (request_query_key io other rq))) =
      fst (request_query_key io key rq)"
proof -
  have ok: "symtab_ok (rq_syms rq)"
    using assms(1) by (simp add: env_inv_def)
  obtain v rq1 where e: "request_env io sym_QUERY_STRING rq = (v, rq1)"
    by fastforce
  note spec = request_env_spec [OF assms(1) builtin_symbols(10) [OF ok] e]
  then have "v = env_value (cgi_env (io_cgi io) (rq_cgi rq)) ''QUERY_STRING''" "rq_query rq1 = []"
    using assms(3) builtin_symbols [OF ok] by auto
  with e assms(2) show ?thesis
    by (simp add: request_query_key_def request_query_def query_string_def parse_query_def
        builtin_symbols [OF ok] query_find_first Let_def)
qed

theorem request_query_parameter_witness:
  "fst (request_query_key sample_io ''a'' (sample_request [''QUERY_STRING=b&a=1&a=2''])) = (True, ''1'')"
proof -
  let ?rq = "sample_request [''QUERY_STRING=b&a=1&a=2'']"
  have "env_inv (cgi_env (io_cgi sample_io) (rq_cgi ?rq)) ?rq"
    by (rule sample_env_inv) simp
  from request_query_parameter [OF this, of "''a''" "''b''"] show ?thesis
    unfolding sample_env
    by (simp add: sample_request_def request_new_def env_value_def env_bindings_def
        before_split_takeWhile after_split_dropWhile parse_query_pieces query_pieces_def
        query_pair_def)
qed

end
