(* ===== verification/Context.thy ===== *)
theory Context
  imports Request
begin

text \<open>
  \<open>request_context.cpp\<close>, \<open>request_context_private.h\<close> and \<open>user_context.cpp\<close>: what a
  handler is given.  A thread's context without a request is the record \<open>context_base\<close>; while
  a request is handled it is extended by that request, where the code sets a pointer.  User
  contexts are opaque; a shared pointer to one is the handle \<open>'u\<close>.
\<close>

section \<open>User contexts\<close>

text \<open>The defaults of the two virtual functions.\<close>

definition user_context_type :: "'u \<Rightarrow> int" where
  "user_context_type u = 0"

definition user_context_tick :: "'u \<Rightarrow> 'u" where
  "user_context_tick u = u"

section \<open>Request contexts\<close>

record 'u context_base =
  cx_thread_id :: nat
  cx_server :: bool
  cx_global_context :: "'u option"
  cx_thread_context :: "'u option"
  cx_replaced_global_context :: bool

record ('u, 'c, 'd) request_context = "'u context_base" +
  cx_request :: "('c, 'd) request"

definition context_new :: "'u context_base" where
  "context_new =
    \<lparr>cx_thread_id = 0, cx_server = False, cx_global_context = None, cx_thread_context = None,
     cx_replaced_global_context = False\<rparr>"

definition set_request :: "('c, 'd) request \<Rightarrow> 'u context_base \<Rightarrow> ('u, 'c, 'd) request_context" where
  "set_request rq cx = context_base.extend cx \<lparr>cx_request = rq\<rparr>"

definition context_of_request :: "('c, 'd) request \<Rightarrow> ('u, 'c, 'd) request_context" where
  "context_of_request rq = set_request rq context_new"

definition context_logger :: "('u, 'c, 'd) request_context \<Rightarrow> 'c logger" where
  "context_logger cx = rq_logger (cx_request cx)"

definition context_thread_id :: "('u, 'c, 'd) request_context \<Rightarrow> nat" where
  "context_thread_id cx = cx_thread_id cx"

definition context_server :: "('u, 'c, 'd) request_context \<Rightarrow> bool" where
  "context_server cx = cx_server cx"

definition context_request :: "('u, 'c, 'd) request_context \<Rightarrow> ('c, 'd) request" where
  "context_request cx = cx_request cx"

definition context_global_context :: "('u, 'c, 'd) request_context \<Rightarrow> 'u option" where
  "context_global_context cx = cx_global_context cx"

definition context_thread_context :: "('u, 'c, 'd) request_context \<Rightarrow> 'u option" where
  "context_thread_context cx = cx_thread_context cx"

definition replace_global_context ::
  "'u option \<Rightarrow> ('u, 'c, 'd) request_context \<Rightarrow> ('u, 'c, 'd) request_context" where
  "replace_global_context new cx =
    cx\<lparr>cx_global_context := new, cx_replaced_global_context := True\<rparr>"

definition replace_thread_context ::
  "'u option \<Rightarrow> ('u, 'c, 'd) request_context \<Rightarrow> ('u, 'c, 'd) request_context" where
  "replace_thread_context new cx = cx\<lparr>cx_thread_context := new\<rparr>"

text \<open>An operation of the request, carried out through the context's reference to it.\<close>

definition on_request ::
  "(('c, 'd) request \<Rightarrow> 'a \<times> ('c, 'd) request) \<Rightarrow> ('u, 'c, 'd) request_context \<Rightarrow>
   'a \<times> ('u, 'c, 'd) request_context"
where
  "on_request f cx = (let (a, rq) = f (cx_request cx) in (a, cx\<lparr>cx_request := rq\<rparr>))"

lemma on_request_simps [simp]:
  "fst (on_request f cx) = fst (f (cx_request cx))"
  "cx_request (snd (on_request f cx)) = snd (f (cx_request cx))"
  by (simp_all add: on_request_def split_beta)

end
