(* ===== verification/Routing.thy ===== *)
theory Routing
  imports Context
begin

text \<open>
  \<open>router.cpp\<close>, \<open>i_router.h\<close> and \<open>request_method.h\<close>: the tree of routes, its
  registration, and the dispatch of a request.  Handlers (\<open>std::function\<close>) and other routers
  (\<open>shared_ptr<IRouter>\<close>) are handles of types \<open>'f\<close> and \<open>'r\<close>; what calling one does is an
  argument of the dispatch, and may be an exception.
\<close>

section \<open>Methods in the order of the enumeration\<close>

fun method_index :: "RequestMethod \<Rightarrow> nat" where
  "method_index GET = 0"
| "method_index HEAD = 1"
| "method_index POST = 2"
| "method_index PUT = 3"
| "method_index DELETE = 4"
| "method_index CONNECT = 5"
| "method_index OPTIONS = 6"
| "method_index TRACE = 7"
| "method_index PATCH = 8"
| "method_index Unknown = 9"
| "method_index Other = 10"
| "method_index CatchAllHere = 11"
| "method_index CatchAllRecursive = 12"

lemma method_index_eq: "method_index a = method_index b \<longleftrightarrow> a = b"
  by (cases a; cases b) simp_all

instantiation RequestMethod :: linorder
begin

definition less_eq_RequestMethod :: "RequestMethod \<Rightarrow> RequestMethod \<Rightarrow> bool" where
  "less_eq_RequestMethod a b \<longleftrightarrow> method_index a \<le> method_index b"

definition less_RequestMethod :: "RequestMethod \<Rightarrow> RequestMethod \<Rightarrow> bool" where
  "less_RequestMethod a b \<longleftrightarrow> method_index a < method_index b"

instance
  by standard (auto simp: less_eq_RequestMethod_def less_RequestMethod_def method_index_eq)

end

interpretation meth: keyed_order "(<) :: RequestMethod \<Rightarrow> RequestMethod \<Rightarrow> bool" "\<lambda>m. m"
  by unfold_locales simp

section \<open>The tree\<close>

datatype RouteResult = Handled | NotFound | InvalidMethod | InternalError

datatype ('r, 'f) sub_route =
  SubRoute (sr_routes: "(symbol \<times> ('r, 'f) sub_route) list")
    (sr_router: "'r option")
    (sr_endpoints: "(RequestMethod, 'f) smap")

definition sub_route_new :: "('r, 'f) sub_route" where
  "sub_route_new = SubRoute [] None []"

definition maybe_get_subroute :: "symbol \<Rightarrow> ('r, 'f) sub_route \<Rightarrow> ('r, 'f) sub_route option" where
  "maybe_get_subroute s sr = map_of (sr_routes sr) s"

definition maybe_get_component ::
  "symtab \<Rightarrow> string \<Rightarrow> ('r, 'f) sub_route \<Rightarrow> ('r, 'f) sub_route option" where
  "maybe_get_component tab component sr = maybe_get_subroute (symbol_maybe component tab) sr"

text \<open>\<open>get_or_create_subroute\<close> hands out a pointer into the tree; here the child is read, and
  put back by \<open>put_subroute\<close> once the caller has changed it.\<close>

definition get_or_create_subroute :: "symbol \<Rightarrow> ('r, 'f) sub_route \<Rightarrow> ('r, 'f) sub_route" where
  "get_or_create_subroute s sr =
    (case map_of (sr_routes sr) s of None \<Rightarrow> sub_route_new | Some sub \<Rightarrow> sub)"

definition put_subroute ::
  "symbol \<Rightarrow> ('r, 'f) sub_route \<Rightarrow> ('r, 'f) sub_route \<Rightarrow> ('r, 'f) sub_route" where
  "put_subroute s sub sr =
    SubRoute (AList.update s sub (sr_routes sr)) (sr_router sr) (sr_endpoints sr)"

definition find_endpoint :: "RequestMethod \<Rightarrow> ('r, 'f) sub_route \<Rightarrow> 'f option" where
  "find_endpoint m sr = smap_find (<) m (sr_endpoints sr)"

definition has_catch_all_recursive :: "('r, 'f) sub_route \<Rightarrow> bool" where
  "has_catch_all_recursive sr \<longleftrightarrow> find_endpoint CatchAllRecursive sr \<noteq> None"

section \<open>Registration\<close>

definition find_route_start :: "string \<Rightarrow> string" where
  "find_route_start route =
    (case sv_find_first_not_of (CHR ''/'') 0 route of
       None \<Rightarrow> '''' | Some start \<Rightarrow> sv_substr start None route)"

definition split_first_component :: "string \<Rightarrow> string \<times> string" where
  "split_first_component route =
    (let e = sv_find (CHR ''/'') 0 route;
         nxt = (case e of None \<Rightarrow> None | Some i \<Rightarrow> sv_find_first_not_of (CHR ''/'') i route);
         answer = sv_substr 0 e route
     in (answer, case nxt of None \<Rightarrow> '''' | Some i \<Rightarrow> sv_substr i None route))"

lemma split_first_component_shorter:
  assumes "route \<noteq> ''''"
  shows "length (snd (split_first_component route)) < length route"
proof -
  have "0 < i" if "sv_find_first_not_of (CHR ''/'') k route = Some i"
    "sv_find (CHR ''/'') 0 route = Some k" for i k
  proof -
    have "k \<le> i" "route ! i \<noteq> CHR ''/''" "route ! k = CHR ''/''"
      using that by (auto simp: sv_find_first_not_of_def sv_find_def sv_find_if_def find_Some_iff)
    then show "0 < i" by (cases "i = k") auto
  qed
  with assms show ?thesis
    by (auto simp: split_first_component_def sv_substr_def Let_def split: option.splits)
qed

text \<open>The loop shared by the three operations: it walks down the components, creating what is
  missing, and changes the node it ends at.\<close>

function (sequential) route_update ::
  "string \<Rightarrow> (('r, 'f) sub_route \<Rightarrow> ('r, 'f) sub_route) \<Rightarrow> symtab \<Rightarrow> ('r, 'f) sub_route \<Rightarrow>
   ('r, 'f) sub_route \<times> symtab"
where
  "route_update remaining change tab sr =
    (if remaining = '''' then (change sr, tab)
     else
       (let component = fst (split_first_component remaining);
            sym = fst (internalize component tab);
            (sub, tab') = route_update (snd (split_first_component remaining)) change
              (snd (internalize component tab)) (get_or_create_subroute sym sr)
        in (put_subroute sym sub sr, tab')))"
  by pat_completeness auto
termination
  by (relation "measure (\<lambda>(remaining, _). length remaining)")
    (simp_all add: split_first_component_shorter)

declare route_update.simps [simp del]

definition add_route_router ::
  "'r option \<Rightarrow> string \<Rightarrow> symtab \<Rightarrow> ('r, 'f) sub_route \<Rightarrow> ('r, 'f) sub_route \<times> symtab" where
  "add_route_router router route tab root =
    route_update (find_route_start route)
      (\<lambda>sr. SubRoute (sr_routes sr) router (sr_endpoints sr)) tab root"

definition add_route_callback ::
  "'f \<Rightarrow> string \<Rightarrow> RequestMethod \<Rightarrow> symtab \<Rightarrow> ('r, 'f) sub_route \<Rightarrow>
   ('r, 'f) sub_route \<times> symtab"
where
  "add_route_callback callback route m tab root =
    route_update (find_route_start route)
      (\<lambda>sr. SubRoute (sr_routes sr) (sr_router sr) (smap_assign (<) m callback (sr_endpoints sr)))
      tab root"

text \<open>\<open>remove_route\<close> looks at the node it reached before it clears it.\<close>

function (sequential) route_reach ::
  "string \<Rightarrow> symtab \<Rightarrow> ('r, 'f) sub_route \<Rightarrow> ('r, 'f) sub_route"
where
  "route_reach remaining tab sr =
    (if remaining = '''' then sr
     else
       (let component = fst (split_first_component remaining)
        in route_reach (snd (split_first_component remaining)) (snd (internalize component tab))
             (get_or_create_subroute (fst (internalize component tab)) sr)))"
  by pat_completeness auto
termination
  by (relation "measure (\<lambda>(remaining, _). length remaining)")
    (simp_all add: split_first_component_shorter)

declare route_reach.simps [simp del]

definition remove_route ::
  "string \<Rightarrow> symtab \<Rightarrow> ('r, 'f) sub_route \<Rightarrow> bool \<times> ('r, 'f) sub_route \<times> symtab" where
  "remove_route route tab root =
    (let found = route_reach (find_route_start route) tab root;
         removed = (sr_router found \<noteq> None \<or> sr_endpoints found \<noteq> [])
     in (removed, route_update (find_route_start route) (\<lambda>sr. SubRoute (sr_routes sr) None []) tab root))"

section \<open>Dispatch\<close>

datatype exn = StdException string | UnknownException

type_synonym ('a, 'x) outcome = "(exn + 'a) \<times> 'x"

text \<open>What happens at a node: nothing, an exception or an answer of the router mounted there.\<close>

datatype visit = Thrown exn | Returned | Continue RouteResult

definition visit_router ::
  "('r \<Rightarrow> ('u, 'c, 'd) request_context \<Rightarrow> (RouteResult, ('u, 'c, 'd) request_context) outcome) \<Rightarrow>
   string list \<Rightarrow> ('r, 'f) sub_route \<Rightarrow> RouteResult \<Rightarrow> ('u, 'c, 'd) request_context \<Rightarrow>
   visit \<times> ('u, 'c, 'd) request_context"
where
  "visit_router call_router rest sr route_result cx =
    (case sr_router sr of
       None \<Rightarrow> (Continue route_result, cx)
     | Some router \<Rightarrow>
         (let (saved, cx) = on_request (swap_relative_route rest) cx;
              (new_result, cx) = call_router router cx
          in case new_result of
               Inl e \<Rightarrow> (Thrown e, cx)
             | Inr new_result \<Rightarrow>
                 (let route_result =
                        (if new_result \<noteq> NotFound then new_result else route_result)
                  in if route_result = Handled then (Returned, cx)
                     else (Continue route_result,
                           snd (on_request (swap_relative_route saved) cx)))))"

datatype ('r, 'f) walk_end =
    WalkThrown exn
  | WalkReturned
  | WalkStopped "('r, 'f) sub_route option" "('r, 'f) sub_route option" RouteResult

definition next_subroute ::
  "symtab \<Rightarrow> string \<Rightarrow> ('r, 'f) sub_route \<Rightarrow> ('r, 'f) sub_route option" where
  "next_subroute tab component sr =
    (case maybe_get_component tab component sr of
       None \<Rightarrow> maybe_get_subroute sym_wildcard sr
     | Some sub \<Rightarrow> Some sub)"

fun route_walk ::
  "('r \<Rightarrow> ('u, 'c, 'd) request_context \<Rightarrow> (RouteResult, ('u, 'c, 'd) request_context) outcome) \<Rightarrow>
   string list \<Rightarrow> ('r, 'f) sub_route \<Rightarrow> ('r, 'f) sub_route option \<Rightarrow> RouteResult \<Rightarrow>
   ('u, 'c, 'd) request_context \<Rightarrow> ('r, 'f) walk_end \<times> ('u, 'c, 'd) request_context"
where
  "route_walk call_router rest sr last_recursive route_result cx =
    (case visit_router call_router rest sr route_result cx of
       (Thrown e, cx) \<Rightarrow> (WalkThrown e, cx)
     | (Returned, cx) \<Rightarrow> (WalkReturned, cx)
     | (Continue route_result, cx) \<Rightarrow>
         (case rest of
            [] \<Rightarrow> (WalkStopped (Some sr) last_recursive route_result, cx)
          | component # rest' \<Rightarrow>
              (case next_subroute (rq_syms (cx_request cx)) component sr of
                 None \<Rightarrow> (WalkStopped None last_recursive route_result, cx)
               | Some sub \<Rightarrow>
                   route_walk call_router rest' sub
                     (if has_catch_all_recursive sub then Some sub else last_recursive)
                     route_result cx)))"

declare route_walk.simps [simp del]

text \<open>The endpoint for a method, else for any method here, else for any method from here on.\<close>

definition select_endpoint :: "RequestMethod \<Rightarrow> ('r, 'f) sub_route \<Rightarrow> 'f option" where
  "select_endpoint m sr =
    (case find_endpoint m sr of
       Some f \<Rightarrow> Some f
     | None \<Rightarrow>
         (case find_endpoint CatchAllHere sr of
            Some f \<Rightarrow> Some f
          | None \<Rightarrow> find_endpoint CatchAllRecursive sr))"

definition call_endpoint ::
  "('f \<Rightarrow> 'x \<Rightarrow> (unit, 'x) outcome) \<Rightarrow> 'f \<Rightarrow> 'x \<Rightarrow> (RouteResult, 'x) outcome" where
  "call_endpoint callback f cx =
    (case callback f cx of
       (Inl e, cx) \<Rightarrow> (Inl e, cx)
     | (Inr _, cx) \<Rightarrow> (Inr Handled, cx))"

definition fall_back ::
  "('f \<Rightarrow> 'x \<Rightarrow> (unit, 'x) outcome) \<Rightarrow> ('r, 'f) sub_route option \<Rightarrow> RouteResult \<Rightarrow> 'x \<Rightarrow>
   (RouteResult, 'x) outcome"
where
  "fall_back callback last_recursive route_result cx =
    (if route_result = NotFound then
       (case last_recursive of
          None \<Rightarrow> (Inr route_result, cx)
        | Some sr \<Rightarrow>
            (case find_endpoint CatchAllRecursive sr of
               None \<Rightarrow> (Inr route_result, cx)
             | Some f \<Rightarrow> call_endpoint callback f cx))
     else (Inr route_result, cx))"

definition handle_request ::
  "('c, 'd) request_io \<Rightarrow>
   ('r \<Rightarrow> ('u, 'c, 'd) request_context \<Rightarrow> (RouteResult, ('u, 'c, 'd) request_context) outcome) \<Rightarrow>
   ('f \<Rightarrow> ('u, 'c, 'd) request_context \<Rightarrow> (unit, ('u, 'c, 'd) request_context) outcome) \<Rightarrow>
   ('r, 'f) sub_route \<Rightarrow> ('u, 'c, 'd) request_context \<Rightarrow>
   (RouteResult, ('u, 'c, 'd) request_context) outcome"
where
  "handle_request io call_router callback root cx =
    (let last_recursive = (if has_catch_all_recursive root then Some root else None);
         (route, cx) = on_request (relative_route io) cx
     in case route_walk call_router route root last_recursive NotFound cx of
          (WalkThrown e, cx) \<Rightarrow> (Inl e, cx)
        | (WalkReturned, cx) \<Rightarrow> (Inr Handled, cx)
        | (WalkStopped None last_recursive route_result, cx) \<Rightarrow>
            fall_back callback last_recursive route_result cx
        | (WalkStopped (Some sr) last_recursive route_result, cx) \<Rightarrow>
            (if sr_endpoints sr = [] then fall_back callback last_recursive NotFound cx
             else
               (let (m, cx) = on_request (request_method io) cx
                in case select_endpoint m sr of
                     Some f \<Rightarrow> call_endpoint callback f cx
                   | None \<Rightarrow> fall_back callback last_recursive InvalidMethod cx)))"

section \<open>Routers within routers\<close>

text \<open>
  The router objects of a program: instances of \<open>Router\<close> and of other classes that implement
  \<open>IRouter\<close>.  A call through a mounted router costs one unit of fuel; a router without fuel
  left stands for the exhausted stack.
\<close>

datatype ('r, 'f, 'x) irouter =
    RouterObject "('r, 'f) sub_route"
  | UserRouter "'x \<Rightarrow> (RouteResult, 'x) outcome"

fun call_irouter ::
  "('c, 'd) request_io \<Rightarrow>
   ('f \<Rightarrow> ('u, 'c, 'd) request_context \<Rightarrow> (unit, ('u, 'c, 'd) request_context) outcome) \<Rightarrow>
   ('r \<Rightarrow> ('r, 'f, ('u, 'c, 'd) request_context) irouter) \<Rightarrow> nat \<Rightarrow> 'r \<Rightarrow>
   ('u, 'c, 'd) request_context \<Rightarrow> (RouteResult, ('u, 'c, 'd) request_context) outcome"
where
  "call_irouter io callback routers 0 r cx = (Inl UnknownException, cx)"
| "call_irouter io callback routers (Suc fuel) r cx =
     (case routers r of
        RouterObject root \<Rightarrow>
          handle_request io (call_irouter io callback routers fuel) callback root cx
      | UserRouter handle \<Rightarrow> handle cx)"

end
