(* ===== verification/RouteTable.thy ===== *)
theory RouteTable
  imports Routing
begin

text \<open>
  What the tree of a router means: a table from paths, lists of component names, to the router
  mounted there and the handler of each method.  The registration operations of \<open>Routing\<close>
  refine the obvious operations on that table.
\<close>

section \<open>The components of a registered route\<close>

lemma sv_find_first_not_of_0:
  "sv_find_first_not_of c 0 s =
    (if \<exists>x\<in>set s. x \<noteq> c then Some (length (takeWhile (\<lambda>x. x = c) s)) else None)"
  by (simp add: sv_find_first_not_of_def sv_find_if_0)

lemma dropWhile_all: "\<forall>x\<in>set s. P x \<Longrightarrow> dropWhile P s = []"
  by (induction s) auto

lemma skip_slashes:
  "(case sv_find_first_not_of (CHR ''/'') 0 s of None \<Rightarrow> '''' | Some i \<Rightarrow> drop i s) =
   dropWhile (\<lambda>x. x = CHR ''/'') s"
proof (cases "\<exists>x\<in>set s. x \<noteq> CHR ''/''")
  case True
  then show ?thesis by (simp add: sv_find_first_not_of_0)
next
  case False
  then have "dropWhile (\<lambda>x. x = CHR ''/'') s = ''''"
    by (intro dropWhile_all) simp
  with False show ?thesis
    by (simp only: sv_find_first_not_of_0 if_False option.case)
qed

lemma find_route_start_dropWhile: "find_route_start route = dropWhile (\<lambda>x. x = CHR ''/'') route"
  unfolding find_route_start_def sv_substr_def option.case by (rule skip_slashes)

lemma split_first_component_cut:
  "split_first_component route =
    (takeWhile (\<lambda>x. x \<noteq> CHR ''/'') route,
     dropWhile (\<lambda>x. x = CHR ''/'') (dropWhile (\<lambda>x. x \<noteq> CHR ''/'') route))"
proof (cases "CHR ''/'' \<in> set route")
  case False
  then show ?thesis
    by (simp add: split_first_component_def sv_find_0 sv_substr_def no_separator_cut)
next
  case True
  let ?e = "length (takeWhile (\<lambda>x. x \<noteq> CHR ''/'') route)"
  let ?rest = "dropWhile (\<lambda>x. x \<noteq> CHR ''/'') route"
  have "sv_find_first_not_of (CHR ''/'') ?e route =
      map_option (\<lambda>i. i + ?e) (sv_find_first_not_of (CHR ''/'') 0 ?rest)"
    unfolding sv_find_first_not_of_def by (subst sv_find_if_from) simp
  moreover have "drop (i + ?e) route = drop i ?rest" for i
    by (simp flip: drop_drop)
  ultimately have "(case sv_find_first_not_of (CHR ''/'') ?e route of
      None \<Rightarrow> '''' | Some i \<Rightarrow> sv_substr i None route) = dropWhile (\<lambda>x. x = CHR ''/'') ?rest"
    unfolding skip_slashes [symmetric]
    by (cases "sv_find_first_not_of (CHR ''/'') 0 ?rest") (simp_all add: sv_substr_def)
  then show ?thesis
    using True by (simp add: split_first_component_def sv_find_0 sv_substr_def)
qed

lemma parse_route_skip: "parse_route (dropWhile (\<lambda>x. x = CHR ''/'') s) = parse_route s"
  by (induction s) auto

text \<open>A view at the start of a component, or at the end.\<close>

definition at_component :: "string \<Rightarrow> bool" where
  "at_component s \<longleftrightarrow> s = '''' \<or> hd s \<noteq> CHR ''/''"

lemma at_component_skip: "at_component (dropWhile (\<lambda>x. x = CHR ''/'') s)"
  by (induction s) (auto simp: at_component_def)

lemma parse_route_first:
  assumes "at_component s" "s \<noteq> ''''"
  shows "parse_route s = fst (split_first_component s) # parse_route (snd (split_first_component s))"
    and "at_component (snd (split_first_component s))"
proof -
  let ?a = "takeWhile (\<lambda>x. x \<noteq> CHR ''/'') s" and ?b = "dropWhile (\<lambda>x. x \<noteq> CHR ''/'') s"
  have a: "is_component ?a"
  proof -
    have "?a \<noteq> ''''"
      using assms by (cases s) (simp_all add: at_component_def)
    moreover have "CHR ''/'' \<notin> set ?a"
      using set_takeWhileD [of "CHR ''/''" _ s] by blast
    ultimately show ?thesis
      by (simp add: is_component_def)
  qed
  have s: "s = ?a @ ?b"
    by (rule takeWhile_dropWhile_id [symmetric])
  have "parse_route (?a @ ?b) = ?a # parse_route ?b"
  proof (cases ?b)
    case Nil
    then show ?thesis
      using parse_route_simps(3) [OF a] by (simp only: append_Nil2 parse_route_simps(1))
  next
    case (Cons x t)
    then have "x = CHR ''/''"
      using hd_dropWhile [of "\<lambda>x. x \<noteq> CHR ''/''" s] by simp
    then show ?thesis
      using parse_route_append_slash [of ?a t] parse_route_simps(3) [OF a] unfolding Cons
      by (simp only: parse_route_simps(2) append_Cons append_Nil)
  qed
  then have "parse_route s = ?a # parse_route ?b"
    unfolding s [symmetric] .
  then show "parse_route s = fst (split_first_component s) # parse_route (snd (split_first_component s))"
    by (simp add: split_first_component_cut parse_route_skip)
  show "at_component (snd (split_first_component s))"
    by (simp add: split_first_component_cut at_component_skip)
qed

section \<open>Updates along a path of symbols\<close>

fun update_path ::
  "symbol list \<Rightarrow> (('r, 'f) sub_route \<Rightarrow> ('r, 'f) sub_route) \<Rightarrow> ('r, 'f) sub_route \<Rightarrow>
   ('r, 'f) sub_route"
where
  "update_path [] change sr = change sr"
| "update_path (s # ss) change sr =
     put_subroute s (update_path ss change (get_or_create_subroute s sr)) sr"

fun node_at :: "symbol list \<Rightarrow> ('r, 'f) sub_route \<Rightarrow> ('r, 'f) sub_route option" where
  "node_at [] sr = Some sr"
| "node_at (s # ss) sr =
     (case maybe_get_subroute s sr of None \<Rightarrow> None | Some sub \<Rightarrow> node_at ss sub)"

definition node_or_new :: "symbol list \<Rightarrow> ('r, 'f) sub_route \<Rightarrow> ('r, 'f) sub_route" where
  "node_or_new ss sr = (case node_at ss sr of None \<Rightarrow> sub_route_new | Some n \<Rightarrow> n)"

lemma route_update_path:
  "at_component remaining \<Longrightarrow>
   route_update remaining change tab sr =
     (update_path (fst (internalize_all (parse_route remaining) tab)) change sr,
      snd (internalize_all (parse_route remaining) tab))"
proof (induction remaining change tab sr rule: route_update.induct)
  case (1 remaining change tab sr)
  show ?case
  proof (cases "remaining = ''''")
    case True
    then show ?thesis by (simp add: route_update.simps)
  next
    case False
    note first = parse_route_first [OF "1.prems" False]
    show ?thesis
      using "1.IH" [OF False refl refl first(2)] False
      by (subst route_update.simps) (simp add: first(1) Let_def split_beta)
  qed
qed

lemma maybe_get_put:
  "maybe_get_subroute s (put_subroute s' sub sr) =
    (if s = s' then Some sub else maybe_get_subroute s sr)"
  by (simp add: maybe_get_subroute_def put_subroute_def update_conv')

lemma node_at_new: "node_at p sub_route_new = (if p = [] then Some sub_route_new else None)"
  by (cases p) (simp_all add: maybe_get_subroute_def sub_route_new_def)

lemma missing_is_new: "maybe_get_subroute s sr = None \<Longrightarrow> get_or_create_subroute s sr = sub_route_new"
  by (simp add: maybe_get_subroute_def get_or_create_subroute_def)

lemma node_at_Cons:
  "node_at (s # p) sr =
    (if maybe_get_subroute s sr = None then None else node_at p (get_or_create_subroute s sr))"
  by (auto simp: get_or_create_subroute_def maybe_get_subroute_def split: option.split)

lemma node_or_new_Cons: "node_or_new (s # ss) sr = node_or_new ss (get_or_create_subroute s sr)"
  using missing_is_new [of s sr]
  by (auto simp: node_or_new_def node_at_Cons node_at_new split: option.split simp del: node_at.simps(2))

lemma route_reach_node:
  "at_component remaining \<Longrightarrow>
   route_reach remaining tab sr = node_or_new (fst (internalize_all (parse_route remaining) tab)) sr"
proof (induction remaining tab sr rule: route_reach.induct)
  case (1 remaining tab sr)
  show ?case
  proof (cases "remaining = ''''")
    case True
    then show ?thesis by (simp add: route_reach.simps node_or_new_def)
  next
    case False
    note first = parse_route_first [OF "1.prems" False]
    show ?thesis
      using "1.IH" [OF False refl first(2)] False
      by (subst route_reach.simps) (simp add: first(1) Let_def split_beta node_or_new_Cons)
  qed
qed

text \<open>What a path update leaves behind, node by node.\<close>

lemma node_at_update_extending:
  "node_at (q @ p) (update_path q change sr) = node_at p (change (node_or_new q sr))"
proof (induction q arbitrary: sr)
  case (Cons s q)
  then show ?case by (simp add: maybe_get_put node_or_new_Cons)
qed (simp add: node_or_new_def)

lemma get_put: "get_or_create_subroute s (put_subroute s' sub sr) =
    (if s = s' then sub else get_or_create_subroute s sr)"
  by (simp add: get_or_create_subroute_def put_subroute_def update_conv')

lemma node_at_update_exists:
  "\<not> prefix q p \<Longrightarrow>
   node_at p (update_path q change sr) \<noteq> None \<longleftrightarrow> node_at p sr \<noteq> None \<or> prefix p q"
proof (induction q arbitrary: p sr)
  case (Cons s q)
  show ?case
  proof (cases p)
    case (Cons t p')
    show ?thesis
    proof (cases "t = s")
      case True
      then have "\<not> prefix q p'"
        using Cons.prems Cons by simp
      from Cons.IH [OF this, of "get_or_create_subroute s sr"] show ?thesis
        using Cons True missing_is_new [of s sr]
        by (cases "p' = []")
          (auto simp: node_at_Cons get_put maybe_get_put node_at_new simp del: node_at.simps(2))
    next
      case False
      with Cons show ?thesis
        by (simp add: node_at_Cons get_put maybe_get_put del: node_at.simps(2))
    qed
  qed simp
qed simp

lemma node_at_update_keeps:
  "\<not> prefix q p \<Longrightarrow>
   sr_router (node_or_new p (update_path q change sr)) = sr_router (node_or_new p sr) \<and>
   sr_endpoints (node_or_new p (update_path q change sr)) = sr_endpoints (node_or_new p sr)"
proof (induction q arbitrary: p sr)
  case (Cons s q)
  show ?case
  proof (cases p)
    case Nil
    then show ?thesis by (simp add: node_or_new_def put_subroute_def)
  next
    case (Cons t p')
    then show ?thesis
      using Cons.IH [of p' "get_or_create_subroute s sr"] Cons.prems
      by (cases "t = s") (simp_all add: node_or_new_Cons get_put)
  qed
qed simp

lemma node_at_append:
  "node_at (q @ r) sr = (case node_at q sr of None \<Rightarrow> None | Some n \<Rightarrow> node_at r n)"
  by (induction q arbitrary: sr) (auto split: option.split)

section \<open>From names to symbols\<close>

definition path_symbols :: "symtab \<Rightarrow> string list \<Rightarrow> symbol list" where
  "path_symbols tab p = map (\<lambda>c. symbol_maybe c tab) p"

text \<open>Every edge of the tree is a symbol of the table other than the null symbol.\<close>

definition tree_ok :: "symtab \<Rightarrow> ('r, 'f) sub_route \<Rightarrow> bool" where
  "tree_ok tab sr \<longleftrightarrow>
     (\<forall>p. node_at p sr \<noteq> None \<longrightarrow> (\<forall>s\<in>set p. symbol_valid tab s \<and> s \<noteq> symbol_null))"

lemma maybe_names:
  assumes "symtab_wf tab" "symbol_valid tab s" "s \<noteq> symbol_null"
  shows "symbol_maybe c tab = s \<longleftrightarrow> c = resolve s tab"
proof
  assume s: "symbol_maybe c tab = s"
  have null: "symbol_valid tab symbol_null" "resolve symbol_null tab = ''''"
    using assms(1) by (auto simp: symtab_wf_def symbol_valid_def resolve_def symbol_null_def hd_conv_nth)
  show "c = resolve s tab"
    using symbol_maybe_spec(2) [OF assms(1), of c] resolve_inj [OF assms(1,2) null(1)] null(2) s
      assms(3) by (auto split: if_splits)
qed (use sym.maybe_finds assms in auto)

lemma path_symbols_names:
  assumes "symtab_wf tab" "\<forall>s\<in>set q. symbol_valid tab s \<and> s \<noteq> symbol_null"
  shows "path_symbols tab p = q \<longleftrightarrow> p = map (\<lambda>s. resolve s tab) q"
  using assms(2)
proof (induction q arbitrary: p)
  case (Cons s q)
  then show ?case
    using maybe_names [OF assms(1), of s] by (cases p) (auto simp: path_symbols_def)
qed (simp add: path_symbols_def)

lemma path_symbols_prefix:
  assumes "symtab_wf tab" "\<forall>s\<in>set q. symbol_valid tab s \<and> s \<noteq> symbol_null"
  shows "prefix (path_symbols tab p) q \<longleftrightarrow> prefix p (map (\<lambda>s. resolve s tab) q)"
    and "prefix q (path_symbols tab p) \<longleftrightarrow> prefix (map (\<lambda>s. resolve s tab) q) p"
proof -
  have take: "prefix xs ys \<longleftrightarrow> xs = take (length xs) ys" for xs ys :: "'x list"
    by (metis append_eq_conv_conj prefix_def take_is_prefix)
  show "prefix (path_symbols tab p) q \<longleftrightarrow> prefix p (map (\<lambda>s. resolve s tab) q)"
    unfolding take [of "path_symbols tab p"] take [of p] take_map
    using assms(2) by (subst path_symbols_names [OF assms(1)])
      (auto simp: path_symbols_def dest: in_set_takeD)
  have "prefix q (path_symbols tab p) \<longleftrightarrow> path_symbols tab (take (length q) p) = q"
    unfolding take [of q] by (auto simp: path_symbols_def take_map)
  also have "\<dots> \<longleftrightarrow> take (length q) p = map (\<lambda>s. resolve s tab) q"
    by (rule path_symbols_names [OF assms])
  also have "\<dots> \<longleftrightarrow> prefix (map (\<lambda>s. resolve s tab) q) p"
    by (auto simp: take)
  finally show "prefix q (path_symbols tab p) \<longleftrightarrow> prefix (map (\<lambda>s. resolve s tab) q) p" .
qed

lemma path_symbols_stable:
  assumes "symtab_wf tab" "symtab_wf tab'" "symtab_extends tab tab'" "tree_ok tab sr"
  shows "node_at (path_symbols tab' p) sr = node_at (path_symbols tab p) sr"
proof -
  have keep: "symbol_valid tab' s \<and> resolve s tab' = resolve s tab" if "symbol_valid tab s" for s
    using assms(3) that by (rule symtab_extends_keeps)
  have eq: "path_symbols tab' p = q \<longleftrightarrow> path_symbols tab p = q" if "node_at q sr \<noteq> None" for q
  proof -
    have q: "\<forall>s\<in>set q. symbol_valid tab s \<and> s \<noteq> symbol_null"
      using assms(4) that by (auto simp: tree_ok_def)
    then have q': "\<forall>s\<in>set q. symbol_valid tab' s \<and> s \<noteq> symbol_null"
      using keep by blast
    have "map (\<lambda>s. resolve s tab') q = map (\<lambda>s. resolve s tab) q"
      using keep q by simp
    then show ?thesis
      by (simp only: path_symbols_names [OF assms(1) q] path_symbols_names [OF assms(2) q'])
  qed
  show ?thesis
    using eq by metis
qed

lemma internalize_all_spec:
  assumes "symtab_ok tab" "length ss \<le> st_room tab" "internalize_all ss tab = (ns, tab')"
  shows "symtab_ok tab' \<and> symtab_extends tab tab' \<and> st_room tab \<le> length ss + st_room tab' \<and>
    (\<forall>n\<in>set ns. symbol_valid tab' n) \<and> map (\<lambda>n. resolve n tab') ns = ss"
  using assms
proof (induction ss arbitrary: tab ns)
  case (Cons s ss)
  obtain n tab1 where n: "internalize s tab = (n, tab1)" by fastforce
  obtain ns' where ns': "internalize_all ss tab1 = (ns', tab')" "ns = n # ns'"
    using Cons.prems(3) n by (auto split: prod.splits)
  have wf: "symtab_wf tab" and room: "0 < st_room tab"
    using Cons.prems by (auto simp: symtab_ok_def)
  note i = internalize_spec [OF wf room n]
  have "symtab_ok tab1"
    using symtab_ok_internalize [OF Cons.prems(1) room, of s] n by simp
  moreover have "length ss \<le> st_room tab1"
    using i(5) Cons.prems(2) by simp
  ultimately have IH: "symtab_ok tab' \<and> symtab_extends tab1 tab' \<and>
      st_room tab1 \<le> length ss + st_room tab' \<and> (\<forall>n\<in>set ns'. symbol_valid tab' n) \<and>
      map (\<lambda>n. resolve n tab') ns' = ss"
    using Cons.IH ns'(1) by blast
  then show ?case
    using i symtab_extends_keeps [of tab1 tab' n] ns'(2) symtab_extends_trans by auto
qed simp

section \<open>The table\<close>

record ('r, 'f) route_table =
  rt_known :: "string list \<Rightarrow> bool"
  rt_router :: "string list \<Rightarrow> 'r option"
  rt_endpoint :: "string list \<Rightarrow> RequestMethod \<Rightarrow> 'f option"

definition table_of :: "symtab \<Rightarrow> ('r, 'f) sub_route \<Rightarrow> ('r, 'f) route_table" where
  "table_of tab sr =
    \<lparr>rt_known = (\<lambda>p. node_at (path_symbols tab p) sr \<noteq> None),
     rt_router = (\<lambda>p. sr_router (node_or_new (path_symbols tab p) sr)),
     rt_endpoint = (\<lambda>p m. find_endpoint m (node_or_new (path_symbols tab p) sr))\<rparr>"

definition table_empty :: "('r, 'f) route_table" where
  "table_empty = \<lparr>rt_known = (\<lambda>p. p = []), rt_router = (\<lambda>p. None), rt_endpoint = (\<lambda>p m. None)\<rparr>"

definition table_touch :: "string list \<Rightarrow> ('r, 'f) route_table \<Rightarrow> ('r, 'f) route_table" where
  "table_touch q t = t\<lparr>rt_known := (\<lambda>p. rt_known t p \<or> prefix p q)\<rparr>"

text \<open>The registration operations, on the tree and on the table.\<close>

datatype ('r, 'f) route_op =
    AddRouter "'r option" string
  | AddCallback 'f string RequestMethod
  | RemoveRoute string

fun op_route :: "('r, 'f) route_op \<Rightarrow> string" where
  "op_route (AddRouter r route) = route"
| "op_route (AddCallback f route m) = route"
| "op_route (RemoveRoute route) = route"

fun route_step ::
  "('r, 'f) route_op \<Rightarrow> ('r, 'f) sub_route \<times> symtab \<Rightarrow> ('r, 'f) sub_route \<times> symtab" where
  "route_step (AddRouter r route) (root, tab) = add_route_router r route tab root"
| "route_step (AddCallback f route m) (root, tab) = add_route_callback f route m tab root"
| "route_step (RemoveRoute route) (root, tab) = snd (remove_route route tab root)"

fun table_step :: "('r, 'f) route_op \<Rightarrow> ('r, 'f) route_table \<Rightarrow> ('r, 'f) route_table" where
  "table_step (AddRouter r route) t =
     table_touch (parse_route route) (t\<lparr>rt_router := (rt_router t)(parse_route route := r)\<rparr>)"
| "table_step (AddCallback f route m) t =
     table_touch (parse_route route)
       (t\<lparr>rt_endpoint := (rt_endpoint t)(parse_route route :=
            (rt_endpoint t (parse_route route))(m \<mapsto> f))\<rparr>)"
| "table_step (RemoveRoute route) t =
     table_touch (parse_route route)
       (t\<lparr>rt_router := (rt_router t)(parse_route route := None),
          rt_endpoint := (rt_endpoint t)(parse_route route := Map.empty)\<rparr>)"

section \<open>The tree refines the table\<close>

lemma internalize_all_nonempty:
  assumes "symtab_ok tab" "length ss \<le> st_room tab" "internalize_all ss tab = (ns, tab')"
    and "'''' \<notin> set ss"
  shows "\<forall>n\<in>set ns. symbol_valid tab' n \<and> n \<noteq> symbol_null"
proof -
  note spec = internalize_all_spec [OF assms(1-3)]
  then have wf: "symtab_wf tab'" by (simp add: symtab_ok_def)
  have "resolve symbol_null tab' = ''''"
    using wf by (auto simp: symtab_wf_def resolve_def symbol_null_def hd_conv_nth)
  moreover have "resolve n tab' \<in> set ss" if "n \<in> set ns" for n
    using spec that by (metis (no_types, lifting) image_eqI image_set)
  ultimately show ?thesis
    using spec assms(4) by metis
qed

lemma node_or_new_change:
  assumes "\<And>n. sr_routes (change n) = sr_routes n" "r \<noteq> []"
  shows "node_at r (change n) = node_at r n"
  using assms by (cases r) (simp_all add: maybe_get_subroute_def)

text \<open>One walk along a route: where the nodes are afterwards, and what they hold.\<close>

lemma route_update_refines:
  assumes ok: "symtab_ok tab" "tree_ok tab sr" and room: "length (parse_route route) \<le> st_room tab"
    and change: "\<And>n. sr_routes (change n) = sr_routes n"
    and upd: "route_update (find_route_start route) change tab sr = (sr', tab')"
  shows "symtab_ok tab' \<and> symtab_extends tab tab' \<and>
    st_room tab \<le> length (parse_route route) + st_room tab' \<and> tree_ok tab' sr' \<and>
    rt_known (table_of tab' sr') = (\<lambda>p. rt_known (table_of tab sr) p \<or> prefix p (parse_route route)) \<and>
    (\<forall>p. p \<noteq> parse_route route \<longrightarrow>
      sr_router (node_or_new (path_symbols tab' p) sr') = rt_router (table_of tab sr) p \<and>
      sr_endpoints (node_or_new (path_symbols tab' p) sr') =
        sr_endpoints (node_or_new (path_symbols tab p) sr)) \<and>
    node_or_new (path_symbols tab' (parse_route route)) sr' =
      change (node_or_new (path_symbols tab (parse_route route)) sr)"
proof -
  let ?ss = "parse_route route"
  have same: "parse_route (find_route_start route) = ?ss" "at_component (find_route_start route)"
    by (simp_all add: find_route_start_dropWhile parse_route_skip at_component_skip)
  obtain q where q: "internalize_all ?ss tab = (q, tab')" and sr': "sr' = update_path q change sr"
    using upd route_update_path [OF same(2), of change tab sr] unfolding same(1)
    by (metis fst_conv prod.collapse snd_conv)
  note spec = internalize_all_spec [OF ok(1) room q]
  have wf: "symtab_wf tab" "symtab_wf tab'"
    using ok(1) spec by (simp_all add: symtab_ok_def)
  have "'''' \<notin> set ?ss"
    using parse_route_components [of "''''" route] unfolding is_component_def by blast
  note valid = internalize_all_nonempty [OF ok(1) room q this]
  have names: "map (\<lambda>s. resolve s tab') q = ?ss"
    using spec by simp
  have old: "node_at (path_symbols tab' p) sr = node_at (path_symbols tab p) sr" for p
    using spec by (intro path_symbols_stable [OF wf _ ok(2)]) simp
  then have old_new: "node_or_new (path_symbols tab' p) sr = node_or_new (path_symbols tab p) sr" for p
    by (simp add: node_or_new_def)
  have is_q: "path_symbols tab' p = q \<longleftrightarrow> p = ?ss" for p
    unfolding path_symbols_names [OF wf(2) valid] names ..
  have in_q: "prefix (path_symbols tab' p) q \<longleftrightarrow> prefix p ?ss" for p
    unfolding path_symbols_prefix(1) [OF wf(2) valid] names ..
  have below: "node_at (q @ r) sr' = node_at (q @ r) sr" if "r \<noteq> []" for r
  proof -
    have "node_at (q @ r) sr' = node_at r (change (node_or_new q sr))"
      by (simp only: sr' node_at_update_extending)
    also have "\<dots> = node_at r (node_or_new q sr)"
      by (rule node_or_new_change [where change = change, OF change that])
    also have "\<dots> = node_at (q @ r) sr"
      using that by (simp add: node_at_append node_or_new_def node_at_new split: option.split)
    finally show ?thesis .
  qed
  have at: "node_at q sr' = Some (change (node_or_new q sr))"
    using node_at_update_extending [of q "[]" change sr] by (simp add: sr')
  have known: "node_at x sr' \<noteq> None \<longleftrightarrow> node_at x sr \<noteq> None \<or> prefix x q" for x
  proof (cases "prefix q x")
    case True
    then obtain r where "x = q @ r" by (auto simp: prefix_def)
    then show ?thesis
      using at below by (cases "r = []") auto
  next
    case False
    then show ?thesis
      unfolding sr' by (rule node_at_update_exists)
  qed
  have "symbol_valid tab' s \<and> s \<noteq> symbol_null" if "node_at p sr' \<noteq> None" "s \<in> set p" for p s
  proof -
    consider "node_at p sr \<noteq> None" | "prefix p q"
      using \<open>node_at p sr' \<noteq> None\<close> known by blast
    then show ?thesis
    proof cases
      case 1
      then have "symbol_valid tab s \<and> s \<noteq> symbol_null"
        using ok(2) \<open>s \<in> set p\<close> unfolding tree_ok_def by blast
      then show ?thesis
        using spec symtab_extends_keeps by blast
    next
      case 2
      then show ?thesis
        using valid \<open>s \<in> set p\<close> set_mono_prefix by blast
    qed
  qed
  then have "tree_ok tab' sr'"
    unfolding tree_ok_def by blast
  moreover have "rt_known (table_of tab' sr') = (\<lambda>p. rt_known (table_of tab sr) p \<or> prefix p ?ss)"
    unfolding table_of_def using known old in_q by simp
  moreover have "sr_router (node_or_new (path_symbols tab' p) sr') = rt_router (table_of tab sr) p \<and>
      sr_endpoints (node_or_new (path_symbols tab' p) sr') =
        sr_endpoints (node_or_new (path_symbols tab p) sr)" if "p \<noteq> ?ss" for p
  proof (cases "prefix q (path_symbols tab' p)")
    case True
    then obtain r where r: "path_symbols tab' p = q @ r" by (auto simp: prefix_def)
    have "r \<noteq> []"
    proof
      assume "r = []"
      with r have "path_symbols tab' p = q" by simp
      then show False using that is_q by blast
    qed
    then have "node_or_new (path_symbols tab' p) sr' = node_or_new (path_symbols tab' p) sr"
      by (simp add: node_or_new_def r below)
    then show ?thesis
      by (simp add: old_new table_of_def)
  next
    case False
    then show ?thesis
      using node_at_update_keeps [OF False, of change sr] by (simp add: sr' old_new table_of_def)
  qed
  moreover have "node_or_new (path_symbols tab' ?ss) sr' = change (node_or_new (path_symbols tab ?ss) sr)"
    using at is_q [of ?ss] old_new [of ?ss] by (simp add: node_or_new_def)
  ultimately show ?thesis
    using spec by blast
qed

lemma find_endpoint_assign:
  "find_endpoint m (SubRoute rs r (smap_assign (<) k f es)) =
    (if m = k then Some f else smap_find (<) m es)"
  by (simp add: find_endpoint_def meth.find_assign)

lemma find_endpoint_Nil [simp]: "smap_find (<) (m :: RequestMethod) [] = None"
  by (rule meth.find_Nil)

text \<open>A step of registration: the route walked and the change at its end.\<close>

lemma route_step_refines:
  assumes "symtab_ok tab" "tree_ok tab root" "length (parse_route (op_route oper)) \<le> st_room tab"
    and "route_step oper (root, tab) = (root', tab')"
  shows "symtab_ok tab' \<and> symtab_extends tab tab' \<and> tree_ok tab' root' \<and>
    st_room tab \<le> length (parse_route (op_route oper)) + st_room tab' \<and>
    table_of tab' root' = table_step oper (table_of tab root)"
proof -
  let ?change = "\<lambda>sr. case oper of
      AddRouter r _ \<Rightarrow> SubRoute (sr_routes sr) r (sr_endpoints sr)
    | AddCallback f _ m \<Rightarrow>
        SubRoute (sr_routes sr) (sr_router sr) (smap_assign (<) m f (sr_endpoints sr))
    | RemoveRoute _ \<Rightarrow> SubRoute (sr_routes sr) None []"
  have "route_update (find_route_start (op_route oper)) ?change tab root = (root', tab')"
    using assms(4)
    by (cases oper) (simp_all add: add_route_router_def add_route_callback_def remove_route_def Let_def)
  moreover have "sr_routes (?change n) = sr_routes n" for n
    by (cases oper) simp_all
  ultimately have ref: "symtab_ok tab' \<and> symtab_extends tab tab' \<and>
      st_room tab \<le> length (parse_route (op_route oper)) + st_room tab' \<and> tree_ok tab' root' \<and>
      rt_known (table_of tab' root') =
        (\<lambda>p. rt_known (table_of tab root) p \<or> prefix p (parse_route (op_route oper))) \<and>
      (\<forall>p. p \<noteq> parse_route (op_route oper) \<longrightarrow>
        sr_router (node_or_new (path_symbols tab' p) root') = rt_router (table_of tab root) p \<and>
        sr_endpoints (node_or_new (path_symbols tab' p) root') =
          sr_endpoints (node_or_new (path_symbols tab p) root)) \<and>
      node_or_new (path_symbols tab' (parse_route (op_route oper))) root' =
        ?change (node_or_new (path_symbols tab (parse_route (op_route oper))) root)"
    by (intro route_update_refines [OF assms(1-3)])
  have "rt_router (table_of tab' root') p = rt_router (table_step oper (table_of tab root)) p" for p
    using ref
    by (cases oper; cases "p = parse_route (op_route oper)")
      (simp_all add: table_touch_def table_of_def)
  moreover have "rt_endpoint (table_of tab' root') p m =
      rt_endpoint (table_step oper (table_of tab root)) p m" for p m
    using ref
    by (cases oper; cases "p = parse_route (op_route oper)")
      (simp_all add: table_touch_def table_of_def find_endpoint_def meth.find_assign)
  moreover have "rt_known (table_of tab' root') = rt_known (table_step oper (table_of tab root))"
    using ref by (cases oper) (simp_all add: table_touch_def)
  ultimately have "table_of tab' root' = table_step oper (table_of tab root)"
    by (intro route_table.equality ext) simp_all
  with ref show ?thesis by blast
qed

lemma new_node [simp]:
  "node_or_new p sub_route_new = sub_route_new" "sr_router sub_route_new = None"
  "find_endpoint m sub_route_new = None"
  by (simp_all add: node_or_new_def node_at_new) (simp_all add: sub_route_new_def find_endpoint_def)

lemma table_of_new: "table_of tab sub_route_new = table_empty"
  by (simp add: table_of_def table_empty_def node_at_new path_symbols_def)

lemma tree_ok_new: "tree_ok tab sub_route_new"
  by (auto simp: tree_ok_def node_at_new split: if_splits)

definition route_cost :: "('r, 'f) route_op list \<Rightarrow> nat" where
  "route_cost ops = sum_list (map (\<lambda>oper. length (parse_route (op_route oper))) ops)"

lemma route_steps_refine:
  assumes "symtab_ok tab" "tree_ok tab root" "route_cost ops \<le> st_room tab"
    and "fold route_step ops (root, tab) = (root', tab')"
  shows "symtab_ok tab' \<and> tree_ok tab' root' \<and> st_room tab \<le> route_cost ops + st_room tab' \<and>
    table_of tab' root' = fold table_step ops (table_of tab root)"
  using assms
proof (induction ops arbitrary: root tab)
  case (Cons oper ops)
  obtain root1 tab1 where step: "route_step oper (root, tab) = (root1, tab1)"
    by fastforce
  note ref = route_step_refines [OF Cons.prems(1,2) _ step]
  have "length (parse_route (op_route oper)) \<le> st_room tab"
    using Cons.prems(3) by (simp add: route_cost_def)
  note ref = ref [OF this]
  then have "route_cost ops \<le> st_room tab1"
    using Cons.prems(3) by (simp add: route_cost_def)
  with Cons.IH [of tab1 root1] ref Cons.prems(4) step show ?case
    by (simp add: route_cost_def)
qed (simp add: route_cost_def)

lemma endpoints_empty_iff: "sr_endpoints sr = [] \<longleftrightarrow> (\<forall>m. find_endpoint m sr = None)"
proof
  assume none: "\<forall>m. find_endpoint m sr = None"
  show "sr_endpoints sr = []"
  proof (cases "sr_endpoints sr")
    case (Cons e es)
    then have "find_endpoint (fst e) sr \<noteq> None"
      by (cases e) (simp add: find_endpoint_def meth.find_Cons)
    with none show ?thesis by simp
  qed simp
qed (simp add: find_endpoint_def)

lemma remove_route_found:
  assumes "symtab_ok tab" "tree_ok tab root" "length (parse_route route) \<le> st_room tab"
  shows "fst (remove_route route tab root) \<longleftrightarrow>
    rt_router (table_of tab root) (parse_route route) \<noteq> None \<or>
    (\<exists>m. rt_endpoint (table_of tab root) (parse_route route) m \<noteq> None)"
proof -
  have same: "parse_route (find_route_start route) = parse_route route"
    "at_component (find_route_start route)"
    by (simp_all add: find_route_start_dropWhile parse_route_skip at_component_skip)
  obtain q tab' where q: "internalize_all (parse_route route) tab = (q, tab')"
    by fastforce
  note spec = internalize_all_spec [OF assms(1,3) q]
  have wf: "symtab_wf tab" "symtab_wf tab'"
    using assms(1) spec by (simp_all add: symtab_ok_def)
  have "'''' \<notin> set (parse_route route)"
    using parse_route_components [of "''''" route] unfolding is_component_def by blast
  note valid = internalize_all_nonempty [OF assms(1,3) q this]
  have "path_symbols tab' (parse_route route) = q"
    using path_symbols_names [OF wf(2) valid] spec by simp
  then have "route_reach (find_route_start route) tab root =
      node_or_new (path_symbols tab (parse_route route)) root"
    using path_symbols_stable [OF wf _ assms(2), of "parse_route route"] spec q
    by (simp add: route_reach_node [OF same(2)] same(1) node_or_new_def)
  then show ?thesis
    unfolding remove_route_def Let_def fst_conv endpoints_empty_iff by (simp add: table_of_def)
qed

section \<open>Properties\<close>

text \<open>C5: Whatever sequence of routes is added to and removed from a fresh router, the tree is the
  table that the same sequence makes: a handler is found under exactly the path and method it
  was last registered for, a router under its path, and removing a route clears its own path
  only, wherever slashes were doubled, leading or trailing in the routes.\<close>

theorem registrations_refine_table:
  assumes "symtab_ok tab" "route_cost ops \<le> st_room tab"
    and "fold route_step ops (sub_route_new, tab) = (root, tab')"
  shows "table_of tab' root = fold table_step ops table_empty \<and> symtab_ok tab' \<and> tree_ok tab' root"
  using route_steps_refine [OF assms(1) tree_ok_new assms(2,3)] unfolding table_of_new by simp

theorem registrations_refine_table_witness:
  "rt_endpoint (case fold route_step [AddCallback (1::nat) ''/api//user/'' GET, AddCallback 2 ''api/user'' POST,
        AddRouter (Some ()) ''x'', RemoveRoute ''/x'', AddCallback 3 ''/api/user'' GET]
      (sub_route_new, boot_table) of (root, tab) \<Rightarrow> table_of tab root) [''api'', ''user''] GET = Some 3"
proof -
  let ?ops = "[AddCallback (1::nat) ''/api//user/'' GET, AddCallback 2 ''api/user'' POST,
    AddRouter (Some ()) ''x'', RemoveRoute ''/x'', AddCallback 3 ''/api/user'' GET]"
  obtain root tab where run: "fold route_step ?ops (sub_route_new, boot_table) = (root, tab)"
    by (cases "fold route_step ?ops (sub_route_new, boot_table)") blast
  have routes: "parse_route ''/api//user/'' = [''api'', ''user'']"
    "parse_route ''api/user'' = [''api'', ''user'']" "parse_route ''/api/user'' = [''api'', ''user'']"
    "parse_route ''x'' = [''x'']" "parse_route ''/x'' = [''x'']"
    "parse_route ''api//user/'' = [''api'', ''user'']"
    by (simp_all add: parse_route_split)
  have "route_cost ?ops \<le> st_room boot_table"
    by (simp add: route_cost_def routes st_room_def boot_table_strings builtin_names_def)
  from registrations_refine_table [OF symtab_ok_boot this run]
  have "table_of tab root = fold table_step ?ops table_empty"
    by blast
  then show ?thesis
    unfolding run by (simp add: routes table_touch_def)
qed

end
