(* ===== verification/Response.thy ===== *)
theory Response
  imports Request "HOL-Library.Multiset"
begin

text \<open>
  The protocol of a response.  Any sequence of calls of a request's operations, from its
  construction to its destructor, is refined by a small machine that knows the headers and the
  body only; the text a request sends is the machine's headers, once, and then its body.
\<close>

section \<open>Sequences of calls\<close>

datatype request_call =
    SetHeader symbol string
  | SetHeaderInt symbol int
  | SetHttpStatus u16
  | SetContentType string
  | SetContentTypeEncoding string ContentEncoding
  | SetEncoding ContentEncoding
  | SendHeaders
  | Write string
  | FlushWrite
  | ReportError string
  | FlushError
  | Read "nat option"
  | Env symbol
  | Method
  | FullRoute
  | RelativeRoute
  | SwapRelativeRoute "string list"
  | Query
  | QueryKey string
  | RemotePort
  | DoNotTrack

fun call_step ::
  "('c, 'd) request_io \<Rightarrow> request_call \<Rightarrow> ('c, 'd) request \<Rightarrow> ('c, 'd) request" where
  "call_step io (SetHeader k v) rq = snd (set_header io k v rq)"
| "call_step io (SetHeaderInt k i) rq = snd (set_header_int io k i rq)"
| "call_step io (SetHttpStatus code) rq = snd (set_http_status io code rq)"
| "call_step io (SetContentType ct) rq = snd (set_content_type io ct rq)"
| "call_step io (SetContentTypeEncoding ct e) rq = snd (set_content_type_encoding io ct e rq)"
| "call_step io (SetEncoding e) rq = set_encoding e rq"
| "call_step io SendHeaders rq = send_headers io rq"
| "call_step io (Write s) rq = snd (request_write io s rq)"
| "call_step io FlushWrite rq = snd (flush_write io rq)"
| "call_step io (ReportError s) rq = snd (request_error io s rq)"
| "call_step io FlushError rq = snd (flush_error io rq)"
| "call_step io (Read buffer) rq = snd (request_read io buffer rq)"
| "call_step io (Env k) rq = snd (request_env io k rq)"
| "call_step io Method rq = snd (request_method io rq)"
| "call_step io FullRoute rq = snd (full_route io rq)"
| "call_step io RelativeRoute rq = snd (relative_route io rq)"
| "call_step io (SwapRelativeRoute r) rq = snd (swap_relative_route r rq)"
| "call_step io Query rq = snd (request_query io rq)"
| "call_step io (QueryKey k) rq = snd (request_query_key io k rq)"
| "call_step io RemotePort rq = snd (remote_port io rq)"
| "call_step io DoNotTrack rq = snd (do_not_track io rq)"

definition run_request ::
  "('c, 'd) request_io \<Rightarrow> request_call list \<Rightarrow> ('c, 'd) request \<Rightarrow> ('c, 'd) request" where
  "run_request io cs rq = request_destroy io (fold (call_step io) cs rq)"

section \<open>The abstract response\<close>

text \<open>No body means that nothing has been sent.\<close>

record response =
  re_headers :: header_map
  re_body :: "string option"
  re_warned :: bool

definition re_set :: "symbol \<Rightarrow> string \<Rightarrow> response \<Rightarrow> response" where
  "re_set k v r =
    (case re_body r of
       None \<Rightarrow> r\<lparr>re_headers := umap_emplace k v (re_headers r)\<rparr>
     | Some _ \<Rightarrow> r\<lparr>re_warned := True\<rparr>)"

definition re_send :: "string \<Rightarrow> response \<Rightarrow> response" where
  "re_send s r =
    (case re_body r of
       None \<Rightarrow> r\<lparr>re_headers := umap_emplace sym_Status ''200'' (re_headers r), re_body := Some s\<rparr>
     | Some b \<Rightarrow> r\<lparr>re_body := Some (b @ s)\<rparr>)"

fun re_step :: "request_call \<Rightarrow> response \<Rightarrow> response" where
  "re_step (SetHeader k v) r = re_set k v r"
| "re_step (SetHeaderInt k i) r = re_set k (to_chars i) r"
| "re_step (SetHttpStatus code) r = re_set sym_Status (to_chars (uint code)) r"
| "re_step (SetContentType ct) r = re_set sym_ContentType ct r"
| "re_step (SetContentTypeEncoding ct e) r = re_set sym_ContentType ct r"
| "re_step SendHeaders r = re_send '''' r"
| "re_step (Write s) r = re_send s r"
| "re_step _ r = r"

definition re_init :: response where
  "re_init = \<lparr>re_headers = [], re_body = None, re_warned = False\<rparr>"

definition re_finish :: "response \<Rightarrow> response" where
  "re_finish r =
    (case re_body r of
       None \<Rightarrow> re_send no_data_message (re_set sym_ContentLength ''38''
                (re_set sym_ContentType ''text/plain'' (re_set sym_Status ''500'' r)))
     | Some _ \<Rightarrow> r)"

definition header_text :: "symtab \<Rightarrow> symbol \<times> string \<Rightarrow> string" where
  "header_text tab h = resolve (fst h) tab @ '': '' @ snd h @ crlf"

definition response_text :: "symtab \<Rightarrow> (header_map \<Rightarrow> header_map) \<Rightarrow> response \<Rightarrow> string" where
  "response_text tab order r =
    (case re_body r of
       None \<Rightarrow> ''''
     | Some b \<Rightarrow> concat (map (header_text tab) (order (re_headers r))) @ crlf @ b)"

section \<open>What the operations leave alone\<close>

text \<open>Reading the environment changes the parsed map and the symbol table only.\<close>

definition only_env :: "('c, 'd) request \<Rightarrow> ('c, 'd) request \<Rightarrow> bool" where
  "only_env rq rq' \<longleftrightarrow> symtab_extends (rq_syms rq) (rq_syms rq') \<and>
     rq_cgi rq' = rq_cgi rq \<and> rq_encoding rq' = rq_encoding rq \<and> rq_logger rq' = rq_logger rq \<and> rq_headers rq' = rq_headers rq \<and>
     rq_headers_sent rq' = rq_headers_sent rq \<and>
     rq_headers_sent_warning rq' = rq_headers_sent_warning rq"

lemma only_env_refl [simp]: "only_env rq rq"
  by (simp add: only_env_def)

lemma internalize_extends: "symtab_extends tab (snd (internalize s tab))"
  by (simp add: internalize_def internalize_write_def symtab_extends_def Let_def split: option.split)

lemma env_lines_extends: "symtab_extends tab (snd (env_lines envp tab env))"
proof (induction envp arbitrary: tab env)
  case (Cons line envp)
  then show ?case
    using internalize_extends [of tab]
    by (auto simp: Let_def split: option.split prod.split intro: symtab_extends_trans)
      (metis snd_conv symtab_extends_trans)
qed simp

lemma only_env_map: "only_env rq (snd (request_env_map io rq))"
  using env_lines_extends [of "rq_syms rq" "cgi_env (io_cgi io) (rq_cgi rq)" "rq_env_map rq"]
  by (auto simp: request_env_map_def only_env_def split: prod.splits)

lemma only_env_env: "only_env rq (snd (request_env io k rq))"
  using only_env_map [of rq io] by (auto simp: request_env_def split: prod.split)

lemmas env_accessor_defs = request_method_def request_method_string_def document_uri_def
  query_string_def remote_port_def remote_port_string_def do_not_track_def do_not_track_string_def

lemma only_env_accessors:
  "only_env rq (snd (request_method io rq))" "only_env rq (snd (full_route io rq))"
  "only_env rq (snd (relative_route io rq))" "only_env rq (snd (request_query io rq))"
  "only_env rq (snd (request_query_key io key rq))" "only_env rq (snd (remote_port io rq))"
  "only_env rq (snd (do_not_track io rq))" "only_env rq (snd (swap_relative_route r rq))"
  using only_env_env [of rq io]
  by (simp_all add: env_accessor_defs full_route_def relative_route_def request_query_def
      request_query_key_def swap_relative_route_def Let_def split_beta)
    (simp_all add: only_env_def)

section \<open>The refinement\<close>

text \<open>Headers a call may set: only symbols that are valid when the request is made.\<close>

fun call_ok :: "symtab \<Rightarrow> request_call \<Rightarrow> bool" where
  "call_ok tab (SetHeader k v) = symbol_valid tab k"
| "call_ok tab (SetHeaderInt k i) = symbol_valid tab k"
| "call_ok tab _ = True"

definition headers_valid :: "symtab \<Rightarrow> header_map \<Rightarrow> bool" where
  "headers_valid tab hs \<longleftrightarrow> (\<forall>h\<in>set hs. symbol_valid tab (fst h))"

lemma headers_valid_emplace:
  "headers_valid tab hs \<Longrightarrow> symbol_valid tab k \<Longrightarrow> headers_valid tab (umap_emplace k v hs)"
  by (auto simp: headers_valid_def umap_emplace_def split: option.split)

lemma header_text_extends:
  "symtab_extends tab tab' \<Longrightarrow> headers_valid tab hs \<Longrightarrow>
   map (header_text tab') hs = map (header_text tab) hs"
  using symtab_extends_keeps by (fastforce simp: headers_valid_def header_text_def)

lemma concat_header_writes:
  "concat (concat (map (header_writes tab) hs)) = concat (map (header_text tab) hs)"
  by (induction hs) (simp_all add: header_writes_def header_text_def)

text \<open>The request \<open>rq\<close> has sent the response \<open>r\<close> after \<open>w\<close>, which was there before,
  and has logged one message to \<open>lg\<close> if it was warned about and none otherwise.\<close>

definition refines ::
  "('d \<Rightarrow> string) \<Rightarrow> ('c, 'd) request_io \<Rightarrow> symtab \<Rightarrow> string \<Rightarrow> 'c logger \<Rightarrow> ('c, 'd) request \<Rightarrow>
   response \<Rightarrow> bool"
where
  "refines written io tab w lg rq r \<longleftrightarrow>
     symtab_extends tab (rq_syms rq) \<and> rq_headers rq = re_headers r \<and>
     (rq_headers_sent rq \<longleftrightarrow> re_body r \<noteq> None) \<and> rq_headers_sent_warning rq = re_warned r \<and>
     headers_valid tab (re_headers r) \<and> written (rq_cgi rq) = w @ response_text tab (io_order io) r \<and>
     (\<exists>msg. rq_logger rq = (if re_warned r then logger_log (io_log io) Error msg lg else lg))"

lemma refines_only_env:
  "only_env rq rq' \<Longrightarrow> refines written io tab w lg rq r \<Longrightarrow> refines written io tab w lg rq' r"
  unfolding refines_def only_env_def by (auto intro: symtab_extends_trans)

lemma refines_new:
  "refines written io tab (written d) lg (request_new tab d lg) re_init"
  by (simp add: refines_def request_new_def re_init_def headers_valid_def response_text_def)

lemma warning_effect:
  "\<exists>rq1 msg. only_env rq rq1 \<and>
     issue_headers_sent_warning io key rq =
       rq1\<lparr>rq_logger := logger_log (io_log io) Error msg (rq_logger rq)\<rparr>"
proof -
  let ?rq1 = "snd (request_method_string io rq)"
  let ?rq2 = "snd (document_uri io ?rq1)"
  have env: "only_env rq ?rq1" "only_env ?rq1 ?rq2"
    by (simp_all add: request_method_string_def document_uri_def only_env_env)
  then have "only_env rq ?rq2"
    by (auto simp: only_env_def intro: symtab_extends_trans)
  moreover have "rq_logger ?rq2 = rq_logger rq"
    using env by (simp add: only_env_def)
  moreover have "\<exists>msg. issue_headers_sent_warning io key rq =
      ?rq2\<lparr>rq_logger := logger_log (io_log io) Error msg (rq_logger ?rq2)\<rparr>"
    by (simp add: issue_headers_sent_warning_def Let_def split_beta log_stream_destroy_def
        log_stream_append_def log_stream_new_def line_formatter.defs) blast
  ultimately show ?thesis
    by auto
qed

lemma refines_set:
  assumes "refines written io tab w lg rq r" "symbol_valid tab k"
  shows "refines written io tab w lg (snd (set_header io k v rq)) (re_set k v r)"
proof (cases "rq_headers_sent rq \<and> \<not> rq_headers_sent_warning rq")
  case True
  obtain rq1 msg where "only_env rq rq1"
    "issue_headers_sent_warning io k rq =
       rq1\<lparr>rq_logger := logger_log (io_log io) Error msg (rq_logger rq)\<rparr>"
    using warning_effect by blast
  with True assms show ?thesis
    by (auto simp: refines_def only_env_def set_header_def re_set_def response_text_def
        intro: symtab_extends_trans split: option.splits)
next
  case False
  with assms show ?thesis
    by (auto simp: refines_def set_header_def re_set_def response_text_def headers_valid_emplace
        split: option.splits)
qed

lemma refines_encoding:
  "refines written io tab w lg (rq\<lparr>rq_encoding := e\<rparr>) r = refines written io tab w lg rq r"
  by (simp add: refines_def)

context cgi_streams begin

lemma send_headers_written:
  assumes "io_cgi io = ops" "\<not> rq_headers_sent rq"
  shows "written (rq_cgi (send_headers io rq)) = written (rq_cgi rq) @
      concat (map (header_text (rq_syms rq))
        (io_order io (umap_emplace sym_Status ''200'' (rq_headers rq)))) @ crlf"
    and "rq_headers (send_headers io rq) = umap_emplace sym_Status ''200'' (rq_headers rq)"
    and "rq_headers_sent (send_headers io rq)"
proof -
  have emplace: "(if map_of (rq_headers rq) sym_Status = None
      then umap_emplace sym_Status ''200'' (rq_headers rq) else rq_headers rq) =
      umap_emplace sym_Status ''200'' (rq_headers rq)"
    by (auto simp: umap_emplace_def)
  show "written (rq_cgi (send_headers io rq)) = written (rq_cgi rq) @
      concat (map (header_text (rq_syms rq))
        (io_order io (umap_emplace sym_Status ''200'' (rq_headers rq)))) @ crlf"
    using assms
    by (simp add: send_headers_def Let_def emplace write_all_written concat_header_writes)
  show "rq_headers (send_headers io rq) = umap_emplace sym_Status ''200'' (rq_headers rq)"
    "rq_headers_sent (send_headers io rq)"
    using assms by (simp_all add: send_headers_def Let_def emplace)
qed

lemma refines_send_headers:
  assumes "io_cgi io = ops" "\<And>hs. set (io_order io hs) = set hs" "symtab_ok tab"
    and "refines written io tab w lg rq r"
  shows "refines written io tab w lg (send_headers io rq) (re_send '''' r)"
proof (cases "rq_headers_sent rq")
  case True
  with assms(4) show ?thesis
    by (auto simp: refines_def send_headers_def re_send_def response_text_def)
next
  case False
  let ?hs = "umap_emplace sym_Status ''200'' (rq_headers rq)"
  have valid: "headers_valid tab ?hs"
    using assms(3,4) by (simp add: refines_def headers_valid_emplace builtin_symbols)
  then have "headers_valid tab (io_order io ?hs)"
    using assms(2) by (simp add: headers_valid_def)
  then have "concat (map (header_text (rq_syms rq)) (io_order io ?hs)) =
      concat (map (header_text tab) (io_order io ?hs))"
    using assms(4) by (intro arg_cong [of _ _ concat] header_text_extends) (simp_all add: refines_def)
  moreover have "rq_syms (send_headers io rq) = rq_syms rq"
    "rq_logger (send_headers io rq) = rq_logger rq"
    "rq_headers_sent_warning (send_headers io rq) = rq_headers_sent_warning rq"
    by (simp_all add: send_headers_def Let_def)
  ultimately show ?thesis
    using assms(4) False valid send_headers_written [OF assms(1) False]
    by (auto simp: refines_def re_send_def response_text_def split: option.splits)
qed

lemma refines_write:
  assumes "io_cgi io = ops" "\<And>hs. set (io_order io hs) = set hs" "symtab_ok tab"
    and "refines written io tab w lg rq r"
  shows "refines written io tab w lg (snd (request_write io s rq)) (re_send s r)"
proof -
  note sent = refines_send_headers [OF assms]
  have "re_body (re_send '''' r) \<noteq> None"
    by (simp add: re_send_def split: option.split)
  moreover have "re_send s r = re_send s (re_send '''' r)"
    by (simp add: re_send_def split: option.split)
  moreover have "snd (request_write io s rq) = (send_headers io rq)
      \<lparr>rq_cgi := snd (cgi_write ops s (rq_cgi (send_headers io rq)))\<rparr>"
    by (simp add: request_write_def assms(1) Let_def split_beta)
  ultimately show ?thesis
    using sent
    by (auto simp: refines_def re_send_def response_text_def write_written split: option.splits)
qed

lemma refines_silent:
  assumes "io_cgi io = ops" "refines written io tab w lg rq r"
  shows "refines written io tab w lg (snd (flush_write io rq)) r"
    and "refines written io tab w lg (snd (flush_error io rq)) r"
    and "refines written io tab w lg (snd (request_error io s rq)) r"
    and "refines written io tab w lg (snd (request_read io buffer rq)) r"
  using assms
  by (auto simp: refines_def flush_write_def flush_error_def request_error_def request_read_def
      split_beta stream_simps split: option.split)

lemma refines_step:
  assumes "io_cgi io = ops" "\<And>hs. set (io_order io hs) = set hs" "symtab_ok tab" "call_ok tab c"
    and "refines written io tab w lg rq r"
  shows "refines written io tab w lg (call_step io c rq) (re_step c r)"
proof -
  note set = refines_set [OF assms(5)]
  note env = refines_only_env [OF _ assms(5)]
  have enc: "refines written io tab w lg (snd (set_content_type_encoding io ct e rq))
      (re_set sym_ContentType ct r)" for ct e
    using set [OF builtin_symbols(6) [OF assms(3)], of ct]
    by (simp add: set_content_type_encoding_def split_beta refines_encoding)
  show ?thesis
    using assms(4)
    by (cases c)
      (simp_all add: set enc set_header_int_def set_http_status_def set_content_type_def
        set_encoding_def refines_encoding assms(5) builtin_symbols [OF assms(3)]
        refines_send_headers [OF assms(1-3,5)] refines_write [OF assms(1-3,5)]
        refines_silent [OF assms(1,5)] env [OF only_env_env] env [OF only_env_accessors(1)]
        env [OF only_env_accessors(2)] env [OF only_env_accessors(3)] env [OF only_env_accessors(4)]
        env [OF only_env_accessors(5)] env [OF only_env_accessors(6)]
        env [OF only_env_accessors(7)] env [OF only_env_accessors(8)])
qed

lemma refines_run:
  assumes "io_cgi io = ops" "\<And>hs. set (io_order io hs) = set hs" "symtab_ok tab"
    and "\<forall>c\<in>set cs. call_ok tab c" "refines written io tab w lg rq r"
  shows "refines written io tab w lg (fold (call_step io) cs rq) (fold re_step cs r)"
  using assms(4,5)
proof (induction cs arbitrary: rq r)
  case (Cons c cs)
  then have "refines written io tab w lg (call_step io c rq) (re_step c r)"
    by (intro refines_step [OF assms(1-3)]) auto
  with Cons show ?case by simp
qed simp

lemma refines_finish:
  assumes "io_cgi io = ops" "\<And>hs. set (io_order io hs) = set hs" "symtab_ok tab"
    and "refines written io tab w lg rq r"
  shows "refines written io tab w lg (request_destroy io rq) (re_finish r)"
proof (cases "rq_headers_sent rq")
  case True
  with assms(4) show ?thesis
    by (auto simp: request_destroy_def re_finish_def refines_def)
next
  case False
  let ?cs = "[SetHttpStatus 500, SetContentType ''text/plain'', SetHeaderInt sym_ContentLength 38,
    Write no_data_message]"
  have "to_chars 38 = ''38''" "to_chars 500 = ''500''" "length no_data_message = 38"
    by (simp_all add: to_chars_def digits.simps digit_char_def no_data_message_def)
  then have "request_destroy io rq = fold (call_step io) ?cs rq" "re_finish r = fold re_step ?cs r"
    using False assms(4)
    by (simp_all add: request_destroy_def re_finish_def refines_def Let_def)
  moreover have "refines written io tab w lg (fold (call_step io) ?cs rq) (fold re_step ?cs r)"
    using assms(4) by (intro refines_run [OF assms(1-3)]) (simp_all add: builtin_symbols assms(3))
  ultimately show ?thesis
    by (simp only:)
qed

lemma run_request_refines:
  assumes "io_cgi io = ops" "\<And>hs. set (io_order io hs) = set hs" "symtab_ok tab"
    and "\<forall>c\<in>set cs. call_ok tab c"
  shows "refines written io tab (written d) lg (run_request io cs (request_new tab d lg))
    (re_finish (fold re_step cs re_init))"
  unfolding run_request_def
  by (rule refines_finish [OF assms(1-3)], rule refines_run [OF assms], rule refines_new)

end

section \<open>The response in closed form\<close>

text \<open>Which calls send, what they send, and which header a call sets.\<close>

fun sends :: "request_call \<Rightarrow> bool" where
  "sends SendHeaders = True"
| "sends (Write s) = True"
| "sends _ = False"

fun written_by :: "request_call \<Rightarrow> string" where
  "written_by (Write s) = s"
| "written_by _ = ''''"

fun header_of :: "request_call \<Rightarrow> header_map" where
  "header_of (SetHeader k v) = [(k, v)]"
| "header_of (SetHeaderInt k i) = [(k, to_chars i)]"
| "header_of (SetHttpStatus code) = [(sym_Status, to_chars (uint code))]"
| "header_of (SetContentType ct) = [(sym_ContentType, ct)]"
| "header_of (SetContentTypeEncoding ct e) = [(sym_ContentType, ct)]"
| "header_of _ = []"

text \<open>The headers set in time, the first of each name first, and the calls that come too late.\<close>

definition early_headers :: "request_call list \<Rightarrow> header_map" where
  "early_headers cs = concat (map header_of (takeWhile (\<lambda>c. \<not> sends c) cs))"

definition late_header :: "request_call list \<Rightarrow> bool" where
  "late_header cs \<longleftrightarrow> (\<exists>c\<in>set (dropWhile (\<lambda>c. \<not> sends c) cs). header_of c \<noteq> [])"

definition default_headers :: "request_call list \<Rightarrow> header_map" where
  "default_headers cs =
    (if list_ex sends cs then [(sym_Status, ''200'')]
     else [(sym_Status, ''500''), (sym_ContentType, ''text/plain''), (sym_ContentLength, ''38'')])"

definition response_body :: "request_call list \<Rightarrow> string" where
  "response_body cs =
    (if list_ex sends cs then concat (map written_by cs) else no_data_message)"

lemma re_step_sent:
  "re_body r = Some b \<Longrightarrow>
   re_body (re_step c r) = Some (b @ written_by c) \<and> re_headers (re_step c r) = re_headers r \<and>
   re_warned (re_step c r) = (re_warned r \<or> header_of c \<noteq> [])"
  by (cases c) (simp_all add: re_set_def re_send_def)

lemma re_run_sent:
  "re_body r = Some b \<Longrightarrow>
   re_body (fold re_step cs r) = Some (b @ concat (map written_by cs)) \<and>
   re_headers (fold re_step cs r) = re_headers r \<and>
   re_warned (fold re_step cs r) = (re_warned r \<or> (\<exists>c\<in>set cs. header_of c \<noteq> []))"
proof (induction cs arbitrary: r b)
  case (Cons c cs)
  then show ?case
    using re_step_sent [OF Cons.prems, of c] Cons.IH [of "re_step c r" "b @ written_by c"] by auto
qed simp

lemma re_step_unsent:
  "re_body r = None \<Longrightarrow> \<not> sends c \<Longrightarrow>
   re_step c r = r\<lparr>re_headers := fold (\<lambda>(k, v). umap_emplace k v) (header_of c) (re_headers r)\<rparr>"
  by (cases c) (simp_all add: re_set_def)

lemma re_step_sending:
  "re_body r = None \<Longrightarrow> sends c \<Longrightarrow>
   re_step c r =
     r\<lparr>re_headers := umap_emplace sym_Status ''200'' (re_headers r), re_body := Some (written_by c)\<rparr>"
  by (cases c) (simp_all add: re_send_def)

lemma re_run_unsent:
  "re_body r = None \<Longrightarrow> \<not> list_ex sends cs \<Longrightarrow>
   fold re_step cs r =
     r\<lparr>re_headers := fold (\<lambda>(k, v). umap_emplace k v) (concat (map header_of cs)) (re_headers r)\<rparr>"
  by (induction cs arbitrary: r) (simp_all add: re_step_unsent)

lemma map_of_fold_emplace:
  "map_of (fold (\<lambda>(k, v). umap_emplace k v) hs m) = map_of hs ++ map_of m"
proof (induction hs arbitrary: m)
  case (Cons h hs)
  have "map_of (umap_emplace k v m) = [k \<mapsto> v] ++ map_of m" for k and v
    by (auto simp: fun_eq_iff container_simps map_add_def split: option.splits)
  moreover have "map_of (h # hs) = map_of hs ++ [fst h \<mapsto> snd h]"
    by (cases h) (auto simp: fun_eq_iff)
  ultimately show ?case
    using Cons.IH by (simp only: fold_simps comp_def split_beta map_add_assoc)
qed simp

lemma distinct_fold_emplace:
  "distinct (map fst m) \<Longrightarrow> distinct (map fst (fold (\<lambda>(k, v). umap_emplace k v) hs m))"
  by (induction hs arbitrary: m) (auto simp: distinct_umap_emplace)

lemma status_again:
  "umap_emplace k v (umap_emplace a x (umap_emplace b y (umap_emplace k z m))) =
   umap_emplace a x (umap_emplace b y (umap_emplace k z m))"
proof -
  have keep: "map_of m k \<noteq> None \<Longrightarrow> map_of (umap_emplace a x m) k \<noteq> None" for a x and m :: "('a \<times> 'b) list"
    by (auto simp: container_simps split: option.split)
  have "map_of (umap_emplace k z m) k \<noteq> None"
    by (auto simp: container_simps split: option.split)
  then have "map_of (umap_emplace a x (umap_emplace b y (umap_emplace k z m))) k \<noteq> None"
    using keep by blast
  then show ?thesis
    by (subst umap_emplace_def) (auto split: option.split)
qed

lemma re_finish_closed:
  defines "r cs \<equiv> re_finish (fold re_step cs re_init)"
  shows "map_of (re_headers (r cs)) = map_of (default_headers cs) ++ map_of (early_headers cs)"
    and "distinct (map fst (re_headers (r cs)))"
    and "re_body (r cs) = Some (response_body cs)"
    and "re_warned (r cs) = late_header cs"
proof -
  let ?emplace = "\<lambda>hs. fold (\<lambda>(k, v). umap_emplace k v) hs []"
  have "\<exists>hs. re_headers (r cs) = ?emplace (early_headers cs @ hs) \<and> hs = default_headers cs \<and>
    re_body (r cs) = Some (response_body cs) \<and> re_warned (r cs) = late_header cs"
  proof (cases "list_ex sends cs")
    case False
    then have all: "takeWhile (\<lambda>c. \<not> sends c) cs = cs" "dropWhile (\<lambda>c. \<not> sends c) cs = []"
      by (auto simp: list_ex_iff takeWhile_eq_all_conv dropWhile_eq_Nil_conv)
    show ?thesis
      unfolding early_headers_def late_header_def all
      using False
      by (simp add: r_def re_run_unsent re_init_def re_finish_def re_set_def re_send_def
          default_headers_def response_body_def status_again)
  next
    case True
    let ?pre = "takeWhile (\<lambda>c. \<not> sends c) cs"
    obtain c post where cs: "dropWhile (\<lambda>c. \<not> sends c) cs = c # post"
      using True by (cases "dropWhile (\<lambda>c. \<not> sends c) cs") (auto simp: dropWhile_eq_Nil_conv list_ex_iff)
    then have c: "sends c"
      by (metis dropWhile_eq_Cons_conv)
    have pre: "\<not> list_ex sends ?pre"
      using set_takeWhileD by (fastforce simp: list_ex_iff)
    have split: "cs = ?pre @ c # post"
      using cs takeWhile_dropWhile_id by metis
    have quiet: "concat (map written_by ?pre) = ''''"
    proof -
      have "written_by c = ''''" if "\<not> sends c" for c
        using that by (cases c) simp_all
      then show ?thesis using pre by (simp add: list_ex_iff)
    qed
    let ?r1 = "re_step c (fold re_step ?pre re_init)"
    have r1: "re_headers ?r1 = ?emplace (early_headers cs @ [(sym_Status, ''200'')])"
      "re_body ?r1 = Some (written_by c)" "\<not> re_warned ?r1"
      using c by (simp_all add: re_run_unsent [OF _ pre] re_step_sending early_headers_def re_init_def)
    have "fold re_step cs re_init = fold re_step post ?r1"
      by (subst split) simp
    moreover have "header_of c = []"
      using c by (cases c) simp_all
    moreover have "concat (map written_by cs) = written_by c @ concat (map written_by post)"
      by (subst split) (simp add: quiet)
    ultimately show ?thesis
      using re_run_sent [OF r1(2), of post] r1 True
      by (simp add: r_def re_finish_def default_headers_def response_body_def late_header_def cs)
  qed
  then have headers: "re_headers (r cs) = ?emplace (early_headers cs @ default_headers cs)"
    and rest: "re_body (r cs) = Some (response_body cs)" "re_warned (r cs) = late_header cs"
    by blast+
  show "map_of (re_headers (r cs)) = map_of (default_headers cs) ++ map_of (early_headers cs)"
    unfolding headers map_of_fold_emplace by simp
  show "distinct (map fst (re_headers (r cs)))"
    unfolding headers by (rule distinct_fold_emplace) simp
  show "re_body (r cs) = Some (response_body cs)" "re_warned (r cs) = late_header cs"
    by (fact rest)+
qed

lemma map_of_permuted:
  assumes "mset xs = mset ys" "distinct (map fst ys)"
  shows "map_of xs = map_of ys" "distinct (map fst xs)"
proof -
  show d: "distinct (map fst xs)"
    using assms by (metis mset_eq_imp_distinct_iff mset_map)
  show "map_of xs = map_of ys"
  proof
    fix k
    have "map_of xs k = Some v \<longleftrightarrow> map_of ys k = Some v" for v
      using d assms mset_eq_setD [OF assms(1)] by (simp add: map_of_eq_Some_iff)
    then show "map_of xs k = map_of ys k"
      by (metis not_None_eq)
  qed
qed

section \<open>Properties\<close>

text \<open>C2: Whatever a handler calls on a request and in which order, when the request is destroyed it
  has sent one complete response: one header block and then the body.  No header name occurs
  twice; each header has the first value set before the block was sent; the status is there,
  200 by default; a request that sent nothing answers 500 with a text of its own.\<close>

theorem response_content:
  assumes "io_cgi io = mock_ops" "\<And>hs. mset (io_order io hs) = mset hs" "symtab_ok tab"
    and "\<forall>c\<in>set cs. call_ok tab c"
  shows "\<exists>hs. m_writebuf (rq_cgi (run_request io cs (request_new tab (mock_cgi_new input envp) lg))) =
      concat (map (header_text tab) hs) @ crlf @ response_body cs \<and>
    distinct (map fst hs) \<and> map_of hs = map_of (default_headers cs) ++ map_of (early_headers cs)"
proof -
  let ?r = "re_finish (fold re_step cs re_init)"
  have "set (io_order io hs) = set hs" for hs
    using assms(2) by (rule mset_eq_setD)
  from mock_streams.run_request_refines [OF assms(1) this assms(3,4), of "mock_cgi_new input envp" lg]
  have "m_writebuf (rq_cgi (run_request io cs (request_new tab (mock_cgi_new input envp) lg))) =
      concat (map (header_text tab) (io_order io (re_headers ?r))) @ crlf @ response_body cs"
    by (simp add: refines_def response_text_def re_finish_closed mock_cgi_new_def)
  then show ?thesis
    using map_of_permuted [OF assms(2) re_finish_closed(2)] re_finish_closed(1) by metis
qed

theorem response_content_witness:
  "\<exists>hs. m_writebuf (rq_cgi (run_request sample_io
      [SetHttpStatus 404, SetHttpStatus 200, Write ''no'', SetHttpStatus 500, Write '' page'']
      (sample_request [''REQUEST_METHOD=GET'']))) =
      concat (map (header_text boot_table) hs) @ crlf @ ''no page'' \<and>
    distinct (map fst hs) \<and> map_of hs sym_Status = Some ''404''"
proof -
  let ?cs = "[SetHttpStatus 404, SetHttpStatus 200, Write ''no'', SetHttpStatus 500, Write '' page'']"
  have "to_chars 404 = ''404''" "to_chars 200 = ''200''"
    by (simp_all add: to_chars_def digits.simps digit_char_def)
  then have "early_headers ?cs = [(sym_Status, ''404''), (sym_Status, ''200'')]"
    "response_body ?cs = ''no page''"
    by (simp_all add: early_headers_def response_body_def)
  moreover have "io_cgi sample_io = mock_ops" "mset (io_order sample_io hs) = mset hs" for hs
    by (simp_all add: sample_io_def)
  ultimately show ?thesis
    using response_content [of sample_io boot_table ?cs "''''" "[''REQUEST_METHOD=GET'']"]
    unfolding sample_request_def by (fastforce simp: symtab_ok_boot)
qed

text \<open>However many headers a handler tries to set after they were sent, exactly one message is
  logged for the request, at error level, and none when there was no such attempt.\<close>

theorem late_header_warns_once:
  assumes "io_cgi io = mock_ops" "\<And>hs. mset (io_order io hs) = mset hs" "symtab_ok tab"
    and "\<forall>c\<in>set cs. call_ok tab c"
  shows "\<exists>msg. rq_logger (run_request io cs (request_new tab (mock_cgi_new input envp) lg)) =
    (if late_header cs then logger_log (io_log io) Error msg lg else lg)"
proof -
  have "set (io_order io hs) = set hs" for hs
    using assms(2) by (rule mset_eq_setD)
  from mock_streams.run_request_refines [OF assms(1) this assms(3,4), of "mock_cgi_new input envp" lg]
  show ?thesis
    by (simp add: refines_def re_finish_closed)
qed

theorem late_header_warns_once_witness:
  "\<exists>msg. rq_logger (run_request sample_io
      [Write ''a'', SetHttpStatus 404, SetContentType ''text/html''] (sample_request [])) =
    logger_log mock_log_message Error msg (rq_logger (sample_request []))"
proof -
  let ?cs = "[Write ''a'', SetHttpStatus 404, SetContentType ''text/html'']"
  have "io_cgi sample_io = mock_ops" "mset (io_order sample_io hs) = mset hs"
    "io_log sample_io = mock_log_message" "late_header ?cs" for hs
    by (simp_all add: sample_io_def late_header_def)
  then show ?thesis
    using late_header_warns_once [of sample_io boot_table ?cs "''''" "[]"]
    unfolding sample_request_def by (simp add: symtab_ok_boot request_new_def)
qed

text \<open>C39: Setting the content type a second time before the headers are sent reports success and
  switches the encoding of the body, but the header keeps the first type.\<close>

theorem second_content_type_ignored:
  assumes "\<not> rq_headers_sent rq"
    and "set_content_type io a rq = (ok1, rq1)" "set_content_type io b rq1 = (ok2, rq2)"
  shows "ok1 \<and> ok2 \<and> content_type rq2 = content_type rq1 \<and>
    rq_encoding rq2 = Some (detect_encoding b)"
proof -
  have rq1: "ok1" "rq1 = rq\<lparr>rq_headers := umap_emplace sym_ContentType a (rq_headers rq),
      rq_encoding := Some (detect_encoding a)\<rparr>"
    using assms(1,2)
    by (auto simp: set_content_type_def set_content_type_encoding_def set_header_def)
  then obtain v where "map_of (rq_headers rq1) sym_ContentType = Some v"
    by (cases "map_of (rq_headers rq) sym_ContentType") (auto simp: container_simps)
  moreover from rq1 assms(1,3) have "ok2"
    "rq2 = rq1\<lparr>rq_headers := umap_emplace sym_ContentType b (rq_headers rq1),
      rq_encoding := Some (detect_encoding b)\<rparr>"
    by (auto simp: set_content_type_def set_content_type_encoding_def set_header_def)
  ultimately show ?thesis
    using rq1(1) by (simp add: content_type_def request_header_def container_simps)
qed

theorem second_content_type_ignored_witness:
  "content_type (snd (set_content_type sample_io ''image/png''
      (snd (set_content_type sample_io ''text/html'' (sample_request []))))) =
    content_type (snd (set_content_type sample_io ''text/html'' (sample_request [])))"
  using second_content_type_ignored [of "sample_request []" sample_io "''text/html''" _ _ "''image/png''",
    OF _ surjective_pairing surjective_pairing]
  by (simp add: sample_request_def request_new_def)

end
