(* ===== verification/Dispatch.thy ===== *)
theory Dispatch
  imports RouteTable Response
begin

text \<open>
  What \<open>Router::handle_request\<close> decides.  Without mounted routers it refines a function of the
  route table: the exact component before the wildcard, no going back, the method's handler
  before the two catch-all handlers, and the deepest recursive catch-all on the way for a path
  that leads nowhere.  Mounted routers are the interface \<open>sub_router\<close>: an answer other than
  \<open>Handled\<close> leaves the relative route as it was.
\<close>

section \<open>Dispatch on the table\<close>

definition table_next :: "('r, 'f) route_table \<Rightarrow> string list \<Rightarrow> string \<Rightarrow> string list option" where
  "table_next t p c =
    (if rt_known t (p @ [c]) then Some (p @ [c])
     else if rt_known t (p @ [''*'']) then Some (p @ [''*'']) else None)"

fun table_walk ::
  "('r, 'f) route_table \<Rightarrow> string list \<Rightarrow> string list \<Rightarrow> string list option \<Rightarrow>
   string list option \<times> string list option"
where
  "table_walk t p [] last_recursive = (Some p, last_recursive)"
| "table_walk t p (c # rest) last_recursive =
     (case table_next t p c of
        None \<Rightarrow> (None, last_recursive)
      | Some p' \<Rightarrow>
          table_walk t p' rest
            (if rt_endpoint t p' CatchAllRecursive \<noteq> None then Some p' else last_recursive))"

definition all_methods :: "RequestMethod list" where
  "all_methods = [GET, HEAD, POST, PUT, DELETE, CONNECT, OPTIONS, TRACE, PATCH, Unknown, Other,
    CatchAllHere, CatchAllRecursive]"

definition table_select :: "('r, 'f) route_table \<Rightarrow> RequestMethod \<Rightarrow> string list \<Rightarrow> 'f option" where
  "table_select t m p =
    (case rt_endpoint t p m of
       Some f \<Rightarrow> Some f
     | None \<Rightarrow>
         (case rt_endpoint t p CatchAllHere of
            Some f \<Rightarrow> Some f
          | None \<Rightarrow> rt_endpoint t p CatchAllRecursive))"

text \<open>The handler to call, if any, and the result, where the routers mounted on the way have
  answered \<open>route_result\<close>; without any that is \<open>NotFound\<close>.\<close>

definition table_finish ::
  "('r, 'f) route_table \<Rightarrow> RequestMethod \<Rightarrow> string list \<Rightarrow> RouteResult \<Rightarrow> 'f option \<times> RouteResult"
where
  "table_finish t m route route_result =
    (let (stop, last_recursive) = table_walk t [] route
           (if rt_endpoint t [] CatchAllRecursive \<noteq> None then Some [] else None);
         fallback = (\<lambda>res. if res \<noteq> NotFound then (None, res)
           else case last_recursive of
             None \<Rightarrow> (None, NotFound) | Some p \<Rightarrow> (rt_endpoint t p CatchAllRecursive, Handled))
     in case stop of
          None \<Rightarrow> fallback route_result
        | Some p \<Rightarrow>
            (if list_all (\<lambda>m. rt_endpoint t p m = None) all_methods then fallback NotFound
             else case table_select t m p of
                    Some f \<Rightarrow> (Some f, Handled)
                  | None \<Rightarrow> (None, InvalidMethod)))"

definition table_dispatch ::
  "('r, 'f) route_table \<Rightarrow> RequestMethod \<Rightarrow> string list \<Rightarrow> 'f option \<times> RouteResult" where
  "table_dispatch t m route = table_finish t m route NotFound"

section \<open>The tree walk\<close>

fun tree_walk ::
  "symtab \<Rightarrow> string list \<Rightarrow> ('r, 'f) sub_route \<Rightarrow> ('r, 'f) sub_route option \<Rightarrow>
   ('r, 'f) sub_route option \<times> ('r, 'f) sub_route option"
where
  "tree_walk tab [] sr last_recursive = (Some sr, last_recursive)"
| "tree_walk tab (c # rest) sr last_recursive =
     (case next_subroute tab c sr of
        None \<Rightarrow> (None, last_recursive)
      | Some sub \<Rightarrow>
          tree_walk tab rest sub (if has_catch_all_recursive sub then Some sub else last_recursive))"

definition unmounted :: "('r, 'f) sub_route \<Rightarrow> bool" where
  "unmounted sr \<longleftrightarrow> (\<forall>p n. node_at p sr = Some n \<longrightarrow> sr_router n = None)"

lemma unmounted_child: "unmounted sr \<Longrightarrow> next_subroute tab c sr = Some sub \<Longrightarrow> unmounted sub"
proof -
  assume u: "unmounted sr" and n: "next_subroute tab c sr = Some sub"
  then obtain s where s: "maybe_get_subroute s sr = Some sub"
    by (auto simp: next_subroute_def maybe_get_component_def split: option.splits)
  have "sr_router n = None" if "node_at p sub = Some n" for p n
    using u that s by (auto simp: unmounted_def dest: spec [of _ "s # p"])
  then show ?thesis
    by (simp add: unmounted_def)
qed

lemma unmounted_here: "unmounted sr \<Longrightarrow> sr_router sr = None"
  by (auto simp: unmounted_def dest: spec [of _ "[]"])

lemma route_walk_unmounted:
  "unmounted sr \<Longrightarrow>
   route_walk call_router rest sr l res cx =
     (WalkStopped (fst (tree_walk (rq_syms (cx_request cx)) rest sr l))
        (snd (tree_walk (rq_syms (cx_request cx)) rest sr l)) res, cx)"
proof (induction rest arbitrary: sr l)
  case Nil
  then show ?case
    by (subst route_walk.simps) (simp add: visit_router_def unmounted_here)
next
  case (Cons c rest)
  then show ?case
    by (subst route_walk.simps)
      (simp add: visit_router_def unmounted_here unmounted_child split: option.split)
qed

section \<open>The tree walk refines the table walk\<close>

lemma symbol_maybe_wildcard: "symtab_ok tab \<Longrightarrow> symbol_maybe ''*'' tab = sym_wildcard"
  using symbol_maybe_builtin [of tab 25 "''*''"] by (simp add: sym_values builtin_names_def)

lemma node_at_snoc:
  "node_at (p @ [s]) root =
    (case node_at p root of None \<Rightarrow> None | Some n \<Rightarrow> maybe_get_subroute s n)"
  by (auto simp: node_at_append split: option.split)

lemma table_next_node:
  assumes "symtab_ok tab" "node_at (path_symbols tab p) root = Some n"
  shows "next_subroute tab c n =
    (case table_next (table_of tab root) p c of
       None \<Rightarrow> None | Some p' \<Rightarrow> node_at (path_symbols tab p') root)"
proof -
  have "node_at (path_symbols tab (p @ [x])) root = maybe_get_subroute (symbol_maybe x tab) n" for x
    using assms(2) by (simp add: path_symbols_def node_at_snoc)
  then show ?thesis
    using symbol_maybe_wildcard [OF assms(1)]
    by (auto simp: next_subroute_def table_next_def table_of_def maybe_get_component_def
        split: option.splits)
qed

lemma table_next_known:
  "table_next (table_of tab root) p c = Some p' \<Longrightarrow>
   \<exists>n. node_at (path_symbols tab p') root = Some n"
  by (auto simp: table_next_def table_of_def split: if_splits)

lemma table_endpoint_node:
  "node_at (path_symbols tab p) root = Some n \<Longrightarrow>
   rt_endpoint (table_of tab root) p m = find_endpoint m n"
  by (simp add: table_of_def node_or_new_def)

text \<open>A path and the node it names, or neither.\<close>

definition names_node ::
  "symtab \<Rightarrow> ('r, 'f) sub_route \<Rightarrow> string list option \<Rightarrow> ('r, 'f) sub_route option \<Rightarrow> bool" where
  "names_node tab root p n \<longleftrightarrow>
     (case p of None \<Rightarrow> n = None | Some p \<Rightarrow> n \<noteq> None \<and> node_at (path_symbols tab p) root = n)"

lemma walks_agree:
  assumes "symtab_ok tab" "node_at (path_symbols tab p) root = Some n" "names_node tab root pl nl"
  shows "names_node tab root (fst (table_walk (table_of tab root) p rest pl)) (fst (tree_walk tab rest n nl)) \<and>
    names_node tab root (snd (table_walk (table_of tab root) p rest pl)) (snd (tree_walk tab rest n nl))"
  using assms(2,3)
proof (induction rest arbitrary: p n pl nl)
  case Nil
  then show ?case by (simp add: names_node_def)
next
  case (Cons c rest)
  note nxt = table_next_node [OF assms(1) Cons.prems(1), of c]
  show ?case
  proof (cases "table_next (table_of tab root) p c")
    case None
    with nxt Cons.prems(2) show ?thesis by (simp add: names_node_def)
  next
    case (Some p')
    obtain n' where n': "node_at (path_symbols tab p') root = Some n'"
      using table_next_known [OF Some] by blast
    with nxt Some have "next_subroute tab c n = Some n'" by simp
    moreover have "names_node tab root
        (if rt_endpoint (table_of tab root) p' CatchAllRecursive \<noteq> None then Some p' else pl)
        (if has_catch_all_recursive n' then Some n' else nl)"
      using n' Cons.prems(2)
      by (auto simp: has_catch_all_recursive_def table_endpoint_node names_node_def)
    ultimately show ?thesis
      using Cons.IH [OF n'] Some by simp
  qed
qed

lemma unmounted_table:
  assumes "symtab_wf tab" "tree_ok tab root" "rt_router (table_of tab root) = (\<lambda>p. None)"
  shows "unmounted root"
  unfolding unmounted_def
proof (intro allI impI)
  fix p n
  assume n: "node_at p root = Some n"
  then have valid: "\<forall>s\<in>set p. symbol_valid tab s \<and> s \<noteq> symbol_null"
    using assms(2) unfolding tree_ok_def by blast
  have "path_symbols tab (map (\<lambda>s. resolve s tab) p) = p"
    using path_symbols_names [OF assms(1) valid] by simp
  with n show "sr_router n = None"
    using fun_cong [OF assms(3), of "map (\<lambda>s. resolve s tab) p"]
    by (simp add: table_of_def node_or_new_def)
qed

lemma all_methods_complete: "list_all P all_methods \<longleftrightarrow> (\<forall>m. P m)"
proof
  assume "list_all P all_methods"
  then show "\<forall>m. P m"
    by (intro allI, case_tac m) (simp_all add: all_methods_def)
qed (simp add: all_methods_def)

lemma select_endpoint_table:
  "node_at (path_symbols tab p) root = Some n \<Longrightarrow>
   select_endpoint m n = table_select (table_of tab root) m p"
  by (simp add: select_endpoint_def table_select_def table_endpoint_node cong: option.case_cong)

lemma endpoints_table:
  "node_at (path_symbols tab p) root = Some n \<Longrightarrow>
   sr_endpoints n = [] \<longleftrightarrow> list_all (\<lambda>m. rt_endpoint (table_of tab root) p m = None) all_methods"
  by (simp add: all_methods_complete endpoints_empty_iff table_endpoint_node)

lemma table_walk_recursive:
  "snd (table_walk t p rest l) = Some q \<Longrightarrow> (l = Some q \<Longrightarrow> rt_endpoint t q CatchAllRecursive \<noteq> None) \<Longrightarrow>
   rt_endpoint t q CatchAllRecursive \<noteq> None"
  by (induction rest arbitrary: p l) (auto split: option.splits if_splits)

section \<open>Paths that are in the table\<close>

lemma path_symbols_append: "path_symbols tab (p @ q) = path_symbols tab p @ path_symbols tab q"
  by (simp add: path_symbols_def)

lemma known_prefix: "rt_known (table_of tab root) (p @ q) \<Longrightarrow> rt_known (table_of tab root) p"
  by (auto simp: table_of_def path_symbols_append node_at_append split: option.splits)

lemma endpoint_known: "rt_endpoint (table_of tab root) p m = Some f \<Longrightarrow> rt_known (table_of tab root) p"
  by (auto simp: table_of_def node_or_new_def split: option.splits)

text \<open>A path that is in the table is walked along its own components, whatever else is there.\<close>

lemma table_walk_known:
  "rt_known (table_of tab root) (p @ rest) \<Longrightarrow>
   fst (table_walk (table_of tab root) p rest l) = Some (p @ rest)"
proof (induction rest arbitrary: p l)
  case (Cons c rest)
  have "rt_known (table_of tab root) (p @ [c])"
    by (rule known_prefix [of _ _ "p @ [c]" rest]) (use Cons.prems in simp)
  then have "table_next (table_of tab root) p c = Some (p @ [c])"
    by (simp add: table_next_def)
  then show ?case
    using Cons.IH [of "p @ [c]"] Cons.prems by simp
qed simp

lemma table_dispatch_known:
  assumes "rt_endpoint (table_of tab root) p m = Some f"
  shows "table_dispatch (table_of tab root) m p = (Some f, Handled)"
proof -
  let ?t = "table_of tab root"
  have "fst (table_walk ?t [] p l) = Some p" for l
    using table_walk_known [of tab root "[]" p l] endpoint_known [OF assms] by simp
  moreover have "\<not> list_all (\<lambda>m. rt_endpoint ?t p m = None) all_methods"
    using assms by (auto simp: all_methods_complete dest: spec [of _ m])
  ultimately show ?thesis
    using assms by (simp add: table_dispatch_def table_finish_def split_beta table_select_def Let_def)
qed

fun adds_router :: "('r, 'f) route_op \<Rightarrow> bool" where
  "adds_router (AddRouter r route) = True"
| "adds_router _ = False"

lemma no_routers:
  "\<not> list_ex adds_router ops \<Longrightarrow> rt_router t = (\<lambda>p. None) \<Longrightarrow>
   rt_router (fold table_step ops t) = (\<lambda>p. None)"
proof (induction ops arbitrary: t)
  case (Cons oper ops)
  then have "rt_router (table_step oper t) = (\<lambda>p. None)"
    by (cases oper) (simp_all add: table_touch_def fun_eq_iff)
  with Cons show ?case by simp
qed simp

text \<open>What \<open>handle_request\<close> does when its walk has stopped.\<close>

definition finish_request ::
  "('c, 'd) request_io \<Rightarrow>
   ('f \<Rightarrow> ('u, 'c, 'd) request_context \<Rightarrow> (unit, ('u, 'c, 'd) request_context) outcome) \<Rightarrow>
   ('r, 'f) sub_route option \<times> ('r, 'f) sub_route option \<Rightarrow> RouteResult \<Rightarrow>
   ('u, 'c, 'd) request_context \<Rightarrow> (RouteResult, ('u, 'c, 'd) request_context) outcome"
where
  "finish_request io callback stopped route_result cx =
    (case fst stopped of
       None \<Rightarrow> fall_back callback (snd stopped) route_result cx
     | Some sr \<Rightarrow>
         (if sr_endpoints sr = [] then fall_back callback (snd stopped) NotFound cx
          else case select_endpoint (fst (request_method io (cx_request cx))) sr of
                 Some f \<Rightarrow> call_endpoint callback f (snd (on_request (request_method io) cx))
               | None \<Rightarrow> (Inr InvalidMethod, snd (on_request (request_method io) cx))))"

text \<open>The context it does it with: the method has been read when it stopped at handlers.\<close>

definition finish_request_context ::
  "('c, 'd) request_io \<Rightarrow> ('r, 'f) sub_route option \<times> ('r, 'f) sub_route option \<Rightarrow>
   ('u, 'c, 'd) request_context \<Rightarrow> ('u, 'c, 'd) request_context"
where
  "finish_request_context io stopped cx =
    (case fst stopped of
       None \<Rightarrow> cx
     | Some sr \<Rightarrow> (if sr_endpoints sr = [] then cx else snd (on_request (request_method io) cx)))"

definition last_at_root :: "('r, 'f) sub_route \<Rightarrow> ('r, 'f) sub_route option" where
  "last_at_root root = (if has_catch_all_recursive root then Some root else None)"

lemma handle_request_finish:
  assumes "rq_route_parsed (cx_request cx)"
  shows "handle_request io call_router callback root cx =
    (case route_walk call_router (rq_relative_route (cx_request cx)) root (last_at_root root) NotFound cx of
       (WalkThrown e, cx) \<Rightarrow> (Inl e, cx)
     | (WalkReturned, cx) \<Rightarrow> (Inr Handled, cx)
     | (WalkStopped stop lastr res, cx) \<Rightarrow> finish_request io callback (stop, lastr) res cx)"
proof -
  have "on_request (relative_route io) cx = (rq_relative_route (cx_request cx), cx)"
    using assms by (simp add: on_request_def relative_route_def Let_def)
  then have "handle_request io call_router callback root cx =
      (case route_walk call_router (rq_relative_route (cx_request cx)) root (last_at_root root) NotFound cx of
         (WalkThrown e, cx) \<Rightarrow> (Inl e, cx)
       | (WalkReturned, cx) \<Rightarrow> (Inr Handled, cx)
       | (WalkStopped None last_recursive route_result, cx) \<Rightarrow>
           fall_back callback last_recursive route_result cx
       | (WalkStopped (Some sr) last_recursive route_result, cx) \<Rightarrow>
           (if sr_endpoints sr = [] then fall_back callback last_recursive NotFound cx
            else
              (let (m, cx) = on_request (request_method io) cx
               in case select_endpoint m sr of
                    Some f \<Rightarrow> call_endpoint callback f cx
                  | None \<Rightarrow> fall_back callback last_recursive InvalidMethod cx)))"
    by (simp only: handle_request_def last_at_root_def Let_def prod.case)
  also have "\<dots> = (case route_walk call_router (rq_relative_route (cx_request cx)) root (last_at_root root) NotFound cx of
       (WalkThrown e, cx) \<Rightarrow> (Inl e, cx)
     | (WalkReturned, cx) \<Rightarrow> (Inr Handled, cx)
     | (WalkStopped stop lastr res, cx) \<Rightarrow> finish_request io callback (stop, lastr) res cx)"
    by (auto simp: finish_request_def fall_back_def split_beta split: walk_end.split option.split prod.split)
  finally show ?thesis .
qed

text \<open>What it decides then, without the context.\<close>

definition endpoint_choice ::
  "('r, 'f) sub_route option \<times> ('r, 'f) sub_route option \<Rightarrow> RouteResult \<Rightarrow> RequestMethod \<Rightarrow>
   'f option \<times> RouteResult"
where
  "endpoint_choice stopped route_result m =
    (let fallback = (\<lambda>res. if res \<noteq> NotFound then (None, res)
           else case snd stopped of
             None \<Rightarrow> (None, res)
           | Some sr \<Rightarrow>
               (case find_endpoint CatchAllRecursive sr of None \<Rightarrow> (None, res) | Some f \<Rightarrow> (Some f, Handled)))
     in case fst stopped of
          None \<Rightarrow> fallback route_result
        | Some sr \<Rightarrow>
            (if sr_endpoints sr = [] then fallback NotFound
             else case select_endpoint m sr of
                    Some f \<Rightarrow> (Some f, Handled)
                  | None \<Rightarrow> (None, InvalidMethod)))"

lemma finish_request_choice:
  "finish_request io callback stopped res cx =
    (case endpoint_choice stopped res (fst (request_method io (cx_request cx))) of
       (Some f, _) \<Rightarrow> call_endpoint callback f (finish_request_context io stopped cx)
     | (None, r) \<Rightarrow> (Inr r, finish_request_context io stopped cx))"
  by (auto simp: finish_request_def endpoint_choice_def finish_request_context_def fall_back_def Let_def
      split: option.split)

lemma choice_table:
  assumes "symtab_ok tab"
  shows "endpoint_choice (tree_walk tab route root (last_at_root root)) res m =
    table_finish (table_of tab root) m route res"
proof -
  let ?t = "table_of tab root"
  let ?pl = "if rt_endpoint ?t [] CatchAllRecursive \<noteq> None then Some [] else None"
  have root: "node_at (path_symbols tab []) root = Some root"
    by (simp add: path_symbols_def)
  have "names_node tab root ?pl (last_at_root root)"
    using table_endpoint_node [OF root, of CatchAllRecursive]
    by (simp add: names_node_def last_at_root_def has_catch_all_recursive_def path_symbols_def)
  note agree = walks_agree [OF assms root this, of route]
  obtain stop lastp where walk: "table_walk ?t [] route ?pl = (stop, lastp)"
    by fastforce
  obtain n nlast where tree: "tree_walk tab route root (last_at_root root) = (n, nlast)"
    by fastforce
  have names: "names_node tab root stop n" "names_node tab root lastp nlast"
    using agree unfolding walk tree by simp_all
  have recursive: "rt_endpoint ?t q CatchAllRecursive \<noteq> None" if "lastp = Some q" for q
  proof (rule table_walk_recursive)
    show "snd (table_walk ?t [] route ?pl) = Some q"
      using that by (simp only: walk snd_conv)
    show "rt_endpoint ?t q CatchAllRecursive \<noteq> None" if "?pl = Some q"
      using that by (cases "rt_endpoint ?t [] CatchAllRecursive = None") simp_all
  qed
  then have fallback: "(case nlast of None \<Rightarrow> (None, NotFound) | Some sr \<Rightarrow>
        (case find_endpoint CatchAllRecursive sr of None \<Rightarrow> (None, NotFound) | Some f \<Rightarrow> (Some f, Handled))) =
      (case lastp of None \<Rightarrow> (None, NotFound) | Some p \<Rightarrow> (rt_endpoint ?t p CatchAllRecursive, Handled))"
    using names(2) by (cases lastp; cases nlast) (auto simp: names_node_def table_endpoint_node)
  show ?thesis
  proof (cases stop)
    case None
    with names(1) have "n = None" by (simp add: names_node_def)
    with None show ?thesis
      unfolding tree table_finish_def walk by (cases "res = NotFound") (simp_all add: endpoint_choice_def fallback)
  next
    case (Some p)
    then obtain sr where sr: "n = Some sr" "node_at (path_symbols tab p) root = Some sr"
      using names(1) by (auto simp: names_node_def)
    have eps: "(sr_endpoints sr = []) = list_all (\<lambda>m. rt_endpoint ?t p m = None) all_methods"
      by (rule endpoints_table [OF sr(2)])
    show ?thesis
      unfolding tree table_finish_def walk endpoint_choice_def
      by (simp add: Some sr(1) eps fallback select_endpoint_table [OF sr(2)])
  qed
qed

lemma finish_request_table:
  assumes "symtab_ok (rq_syms (cx_request cx))"
  shows "finish_request io callback
      (tree_walk (rq_syms (cx_request cx)) route root (last_at_root root)) res cx =
    (case table_finish (table_of (rq_syms (cx_request cx)) root)
            (fst (request_method io (cx_request cx))) route res of
       (Some f, _) \<Rightarrow> call_endpoint callback f
         (finish_request_context io
            (tree_walk (rq_syms (cx_request cx)) route root (last_at_root root)) cx)
     | (None, r) \<Rightarrow> (Inr r, finish_request_context io
            (tree_walk (rq_syms (cx_request cx)) route root (last_at_root root)) cx))"
  unfolding finish_request_choice choice_table [OF assms] ..

lemma finish_request_context_env:
  "\<exists>rq'. finish_request_context io stopped cx = cx\<lparr>cx_request := rq'\<rparr> \<and>
     (rq' = cx_request cx \<or> rq' = snd (request_method io (cx_request cx)))"
  by (auto simp: finish_request_context_def on_request_def split_beta split: option.split
      intro: exI [of _ "cx_request cx"])

lemma handle_request_table:
  assumes "symtab_ok (rq_syms (cx_request cx))" "tree_ok (rq_syms (cx_request cx)) root"
    and "rt_router (table_of (rq_syms (cx_request cx)) root) = (\<lambda>p. None)"
    and "rq_route_parsed (cx_request cx)"
  shows "\<exists>cx'. only_env (cx_request cx) (cx_request cx') \<and>
    handle_request io call_router callback root cx =
      (case table_dispatch (table_of (rq_syms (cx_request cx)) root)
              (fst (request_method io (cx_request cx))) (rq_relative_route (cx_request cx)) of
         (Some f, _) \<Rightarrow> call_endpoint callback f cx'
       | (None, res) \<Rightarrow> (Inr res, cx'))"
proof -
  let ?rq = "cx_request cx"
  let ?stopped = "tree_walk (rq_syms ?rq) (rq_relative_route ?rq) root (last_at_root root)"
  have "unmounted root"
    using assms(1) by (intro unmounted_table [OF _ assms(2,3)]) (simp add: symtab_ok_def)
  then have "handle_request io call_router callback root cx = finish_request io callback ?stopped NotFound cx"
    by (simp add: handle_request_finish [OF assms(4)] route_walk_unmounted)
  moreover have "only_env ?rq (cx_request (finish_request_context io ?stopped cx))"
    using finish_request_context_env [of io ?stopped cx] by (auto simp: only_env_accessors)
  ultimately show ?thesis
    unfolding finish_request_table [OF assms(1)] table_dispatch_def by blast
qed

section \<open>A sample context\<close>

text \<open>A \<open>GET\<close> request whose relative route is the given one, in a program whose symbols
  are those of \<open>tab\<close>.\<close>

definition sample_context ::
  "symtab \<Rightarrow> string list \<Rightarrow> (unit, mock_logger, mock_cgi) request_context" where
  "sample_context tab route =
    context_of_request ((sample_request [''REQUEST_METHOD=GET''])
      \<lparr>rq_syms := tab, rq_route_parsed := True, rq_relative_route := route\<rparr>)"

lemma sample_context_simps [simp]:
  "rq_syms (cx_request (sample_context tab route)) = tab"
  "rq_route_parsed (cx_request (sample_context tab route))"
  "rq_relative_route (cx_request (sample_context tab route)) = route"
  "rq_cgi (cx_request (sample_context tab route)) = rq_cgi (sample_request [''REQUEST_METHOD=GET''])"
  "rq_env_map (cx_request (sample_context tab route)) = []"
  by (simp_all add: sample_context_def context_of_request_def set_request_def
      request_context.defs context_new_def context_base.defs sample_request_def request_new_def)

lemma sample_context_method:
  assumes "symtab_ok tab" "0 < st_room tab"
  shows "fst (request_method sample_io (cx_request (sample_context tab route))) = GET"
proof -
  have "env_inv (cgi_env (io_cgi sample_io) (rq_cgi (cx_request (sample_context tab route))))
      (cx_request (sample_context tab route))"
    using assms by (simp add: env_inv_def sample_env) (simp add: env_bindings_def)
  from request_method_value [OF this] show ?thesis
    by (simp add: sample_env)
      (simp add: env_value_def env_bindings_def before_split_takeWhile after_split_dropWhile
        method_of_def method_names_def)
qed

text \<open>The table of the running program has room for more symbols than any sample needs.\<close>

lemma boot_room: "st_room boot_table = 4294967269"
  by (simp add: st_room_def boot_table_strings builtin_names_def)

section \<open>Properties\<close>

text \<open>C4: A router that has no other routers mounted does with a request what the table says: it
  calls at most one handler, the one the table selects for the request's path and method, and
  answers what the table answers; before that it only reads the request's environment.\<close>

theorem handle_request_refines_table:
  assumes "symtab_ok (rq_syms (cx_request cx))" "tree_ok (rq_syms (cx_request cx)) root"
    and "rt_router (table_of (rq_syms (cx_request cx)) root) = (\<lambda>p. None)"
    and "rq_route_parsed (cx_request cx)"
  shows "\<exists>cx'. only_env (cx_request cx) (cx_request cx') \<and>
    handle_request io call_router callback root cx =
      (case table_dispatch (table_of (rq_syms (cx_request cx)) root)
              (fst (request_method io (cx_request cx))) (rq_relative_route (cx_request cx)) of
         (Some f, _) \<Rightarrow> call_endpoint callback f cx'
       | (None, res) \<Rightarrow> (Inr res, cx'))"
  using handle_request_table [OF assms] .

theorem handle_request_refines_table_witness:
  "\<exists>root tab. fold route_step [AddCallback (1::nat) ''/api/*'' GET, AddCallback 2 '''' CatchAllRecursive]
      (sub_route_new :: (unit, nat) sub_route, boot_table) = (root, tab) \<and>
    fst (handle_request sample_io (\<lambda>r cx. (Inr Handled, cx))
      (\<lambda>f cx. (if f = 1 then Inr () else Inl (StdException ''two''), cx)) root
      (sample_context tab [''api'', ''7''])) = Inr Handled \<and>
    fst (handle_request sample_io (\<lambda>r cx. (Inr Handled, cx))
      (\<lambda>f cx. (if f = 1 then Inr () else Inl (StdException ''two''), cx)) root
      (sample_context tab [''api''])) = Inl (StdException ''two'')"
proof -
  let ?cb = "\<lambda>f cx. (if f = (1::nat) then Inr () else Inl (StdException ''two''), cx)"
  let ?ops = "[AddCallback 1 ''/api/*'' GET, AddCallback 2 '''' CatchAllRecursive] :: (unit, nat) route_op list"
  define t where "t = fold table_step ?ops table_empty"
  obtain root :: "(unit, nat) sub_route" and tab
    where run: "fold route_step ?ops (sub_route_new, boot_table) = (root, tab)"
    by fastforce
  have routes: "parse_route ''/api/*'' = [''api'', ''*'']" "parse_route '''' = []"
    "parse_route ''api/*'' = [''api'', ''*'']"
    by (simp_all add: parse_route_split)
  have cost: "route_cost ?ops = 2"
    by (simp add: route_cost_def routes)
  then have room: "route_cost ?ops \<le> st_room boot_table"
    by (simp add: boot_room)
  have tab: "symtab_ok tab" "0 < st_room tab" "tree_ok tab root" "table_of tab root = t"
    using route_steps_refine [OF symtab_ok_boot tree_ok_new room run] cost
    by (simp_all add: boot_room table_of_new t_def)
  have "table_dispatch t GET [''api'', ''7''] = (Some 1, Handled)"
    "table_dispatch t GET [''api''] = (Some 2, Handled)"
    by (simp_all add: t_def table_dispatch_def table_finish_def table_select_def table_next_def table_touch_def
        table_empty_def all_methods_def routes)
  moreover have "rt_router t = (\<lambda>p. None)"
    by (simp add: t_def table_touch_def table_empty_def)
  ultimately have
      "fst (handle_request sample_io (\<lambda>r cx. (Inr Handled, cx)) ?cb root
        (sample_context tab [''api'', ''7''])) = Inr Handled"
      "fst (handle_request sample_io (\<lambda>r cx. (Inr Handled, cx)) ?cb root
        (sample_context tab [''api''])) = Inl (StdException ''two'')"
    using handle_request_refines_table [of "sample_context tab [''api'', ''7'']" root sample_io
        "\<lambda>r cx. (Inr Handled, cx)" ?cb]
      handle_request_refines_table [of "sample_context tab [''api'']" root sample_io
        "\<lambda>r cx. (Inr Handled, cx)" ?cb]
      tab sample_context_method [OF tab(1,2)]
    by (auto simp: call_endpoint_def)
  with run show ?thesis by blast
qed

text \<open>C6: After any sequence of handlers registered and removed, a request for exactly the path and
  method a handler was last registered for calls that handler, whatever wildcards and catch-all
  handlers have been registered too and however the slashes of the routes were written.\<close>

theorem registered_handler_called:
  assumes "symtab_ok tab" "route_cost ops \<le> st_room tab" "\<not> list_ex adds_router ops"
    and "fold route_step ops (sub_route_new, tab) = (root, rq_syms (cx_request cx))"
    and "rt_endpoint (fold table_step ops table_empty) (parse_route route) m = Some f"
    and "rq_route_parsed (cx_request cx)" "rq_relative_route (cx_request cx) = parse_route route"
    and "fst (request_method io (cx_request cx)) = m"
  shows "\<exists>cx'. only_env (cx_request cx) (cx_request cx') \<and>
    handle_request io call_router callback root cx = call_endpoint callback f cx'"
proof -
  let ?tab = "rq_syms (cx_request cx)"
  have reg: "table_of ?tab root = fold table_step ops table_empty \<and> symtab_ok ?tab \<and> tree_ok ?tab root"
    using route_steps_refine [OF assms(1) tree_ok_new assms(2,4)] unfolding table_of_new by simp
  have "rt_router (table_of ?tab root) = (\<lambda>p. None)"
    using no_routers [OF assms(3)] reg by (simp add: table_empty_def)
  then obtain cx' where "only_env (cx_request cx) (cx_request cx')"
    "handle_request io call_router callback root cx =
      (case table_dispatch (table_of ?tab root) m (parse_route route) of
         (Some f, _) \<Rightarrow> call_endpoint callback f cx' | (None, res) \<Rightarrow> (Inr res, cx'))"
    using handle_request_table [of cx root io call_router callback] reg assms(6-8) by auto
  moreover have "table_dispatch (table_of ?tab root) m (parse_route route) = (Some f, Handled)"
    using reg assms(5) by (intro table_dispatch_known) simp
  ultimately show ?thesis
    by auto
qed

theorem registered_handler_called_witness:
  "\<exists>root tab. fold route_step [AddCallback (1::nat) ''/api/*'' GET, AddCallback 2 ''/api//user'' GET]
      (sub_route_new :: (unit, nat) sub_route, boot_table) = (root, tab) \<and>
    fst (handle_request sample_io (\<lambda>r cx. (Inr Handled, cx))
      (\<lambda>f cx. (if f = 2 then Inr () else Inl UnknownException, cx)) root
      (sample_context tab [''api'', ''user''])) = Inr Handled"
proof -
  let ?ops = "[AddCallback 1 ''/api/*'' GET, AddCallback 2 ''/api//user'' GET] :: (unit, nat) route_op list"
  obtain root :: "(unit, nat) sub_route" and tab
    where run: "fold route_step ?ops (sub_route_new, boot_table) = (root, tab)"
    by fastforce
  have routes: "parse_route ''/api/*'' = [''api'', ''*'']" "parse_route ''/api//user'' = [''api'', ''user'']"
    "parse_route ''api/*'' = [''api'', ''*'']" "parse_route ''api//user'' = [''api'', ''user'']"
    by (simp_all add: parse_route_split)
  have cost: "route_cost ?ops = 4"
    by (simp add: route_cost_def routes)
  then have room: "route_cost ?ops \<le> st_room boot_table"
    by (simp add: boot_room)
  have "symtab_ok tab" "0 < st_room tab"
    using route_steps_refine [OF symtab_ok_boot tree_ok_new room run] cost by (simp_all add: boot_room)
  note get = sample_context_method [OF this]
  have last: "rt_endpoint (fold table_step ?ops (table_empty :: (unit, nat) route_table))
      (parse_route ''/api//user'') GET = Some 2"
    by (simp add: routes table_touch_def)
  have "\<not> list_ex adds_router ?ops"
    by simp
  from registered_handler_called [OF symtab_ok_boot room this _ last, of root
      "sample_context tab [''api'', ''user'']" sample_io "\<lambda>r cx. (Inr Handled, cx)"
      "\<lambda>f cx. (if f = 2 then Inr () else Inl UnknownException, cx)"]
  show ?thesis
    using run get by (auto simp: routes call_endpoint_def)
qed

text \<open>C33: Removing a route that was never added reports that nothing was removed, and yet changes
  what is served: where the wildcard's handler answered before, the path is not found after.\<close>

theorem removal_shadows_wildcard:
  assumes "symtab_ok tab" "tree_ok tab root" "0 < st_room tab" "is_component c"
    and "rt_router (table_of tab root) = (\<lambda>p. None)" "\<not> rt_known (table_of tab root) [c]"
    and "rt_endpoint (table_of tab root) [''*''] m = Some f"
    and "rt_endpoint (table_of tab root) [] CatchAllRecursive = None"
    and "remove_route c tab root = (removed, root', tab')"
    and "rq_route_parsed (cx_request cx)" "rq_relative_route (cx_request cx) = [c]"
    and "rq_syms (cx_request cx) = tab" "fst (request_method io (cx_request cx)) = m"
    and "rq_route_parsed (cx_request cy)" "rq_relative_route (cx_request cy) = [c]"
    and "rq_syms (cx_request cy) = tab'"
  shows "\<not> removed \<and>
    (\<exists>cx'. handle_request io call_router callback root cx = call_endpoint callback f cx') \<and>
    (\<exists>cy'. handle_request io call_router callback root' cy = (Inr NotFound, cy'))"
proof -
  let ?t = "table_of tab root"
  have route: "parse_route c = [c]"
    using assms(4) by simp
  have unset: "rt_endpoint ?t [c] k = None" for k
    using assms(6) endpoint_known by fastforce
  have "removed = fst (remove_route c tab root)"
    using assms(9) by simp
  then have removed: "\<not> removed"
    using remove_route_found [OF assms(1,2), of c] assms(3,5) by (simp add: route unset)
  have step: "route_step (RemoveRoute c) (root, tab) = (root', tab')"
    using assms(9) by simp
  note ref = route_step_refines [OF assms(1,2) _ step]
  have t': "symtab_ok tab'" "tree_ok tab' root'" "table_of tab' root' = table_step (RemoveRoute c) ?t"
    using ref assms(3) by (simp_all add: route)
  have known: "rt_known ?t [''*'']"
    using assms(7) by (rule endpoint_known)
  have "table_dispatch ?t m [c] = (Some f, Handled)"
    using known assms(6,7) all_methods_complete [of "\<lambda>m. rt_endpoint ?t [''*''] m = None"]
    by (auto simp: table_dispatch_def table_finish_def table_next_def table_select_def Let_def split_beta
        dest: spec [of _ m])
  then have before: "\<exists>cx'. handle_request io call_router callback root cx = call_endpoint callback f cx'"
    using handle_request_table [of cx root io call_router callback] assms by auto
  have "table_dispatch (table_of tab' root') k [c] = (None, NotFound)" for k
    using assms(8) unset
    by (simp add: t'(3) table_dispatch_def table_finish_def table_touch_def table_next_def route all_methods_complete)
  moreover have "rt_router (table_of tab' root') = (\<lambda>p. None)"
    using assms(5) by (simp add: t'(3) table_touch_def fun_eq_iff)
  ultimately have "\<exists>cy'. handle_request io call_router callback root' cy = (Inr NotFound, cy')"
    using handle_request_table [of cy root' io call_router callback] t'(1,2) assms(14-16) by auto
  with removed before show ?thesis by blast
qed

theorem removal_shadows_wildcard_witness:
  "\<exists>root tab root' tab'. add_route_callback (7::nat) ''/*'' GET boot_table sub_route_new = (root, tab) \<and>
    remove_route ''x'' tab (root :: (unit, nat) sub_route) = (False, root', tab') \<and>
    fst (handle_request sample_io (\<lambda>r cx. (Inr Handled, cx)) (\<lambda>f cx. (Inr (), cx)) root
      (sample_context tab [''x''])) = Inr Handled \<and>
    fst (handle_request sample_io (\<lambda>r cx. (Inr Handled, cx)) (\<lambda>f cx. (Inr (), cx)) root'
      (sample_context tab' [''x''])) = Inr NotFound"
proof -
  obtain root :: "(unit, nat) sub_route" and tab
    where add: "add_route_callback (7::nat) ''/*'' GET boot_table sub_route_new = (root, tab)"
    by fastforce
  obtain removed root' tab' where remove: "remove_route ''x'' tab root = (removed, root', tab')"
    by (metis prod_cases3)
  have routes: "parse_route ''/*'' = [''*'']" "parse_route ''*'' = [''*'']" "parse_route ''x'' = [''x'']"
    by (simp_all add: parse_route_split)
  have step: "route_step (AddCallback 7 ''/*'' GET) (sub_route_new, boot_table) = (root, tab)"
    using add by simp
  have ref: "symtab_ok tab" "tree_ok tab root" "4 \<le> st_room tab"
    "table_of tab root = table_step (AddCallback 7 ''/*'' GET) table_empty"
    using route_step_refines [OF symtab_ok_boot tree_ok_new _ step]
    by (simp_all add: routes boot_room table_of_new)
  have get: "fst (request_method sample_io (cx_request (sample_context tab [''x'']))) = GET"
    using ref by (intro sample_context_method) simp_all
  have "is_component ''x''"
    by (simp add: is_component_def)
  moreover have "0 < st_room tab" using ref(3) by simp
  moreover have "rt_router (table_of tab root) = (\<lambda>p. None)" "\<not> rt_known (table_of tab root) [''x'']"
    "rt_endpoint (table_of tab root) [''*''] GET = Some 7"
    "rt_endpoint (table_of tab root) [] CatchAllRecursive = None"
    unfolding ref(4) by (simp_all add: routes table_touch_def table_empty_def)
  ultimately show ?thesis
    using removal_shadows_wildcard [OF ref(1,2) _ _ _ _ _ _ remove, of GET 7
        "sample_context tab [''x'']" sample_io "sample_context tab' [''x'']" "\<lambda>r cx. (Inr Handled, cx)"
        "\<lambda>f cx. (Inr (), cx)"] add remove get
    by (auto simp: call_endpoint_def)
qed

end
