(* ===== verification/Mounting.thy ===== *)
theory Mounting
  imports Dispatch
begin

text \<open>
  Routers mounted in routers.  The interface \<open>sub_router\<close> is what a router expects of the
  routers mounted in it: an answer other than \<open>Handled\<close> has touched nothing but the parsed
  environment.  Nested \<open>Router\<close> objects keep that contract, whatever their fuel, and a router
  over routers that keep it asks the routers mounted along the path from the root down, each
  with the rest of the path.
\<close>

section \<open>The contract of a mounted router\<close>

text \<open>Reading the environment is all that has happened.\<close>

definition unanswered ::
  "('c, 'd) request_io \<Rightarrow> ('u, 'c, 'd) request_context \<Rightarrow> ('u, 'c, 'd) request_context \<Rightarrow> bool"
where
  "unanswered io cx cx' \<longleftrightarrow>
     (\<exists>rq'. cx' = cx\<lparr>cx_request := rq'\<rparr> \<and> only_env (cx_request cx) rq' \<and>
        rq_route_parsed rq' = rq_route_parsed (cx_request cx) \<and>
        rq_relative_route rq' = rq_relative_route (cx_request cx) \<and>
        (env_inv (cgi_env (io_cgi io) (rq_cgi (cx_request cx))) (cx_request cx) \<longrightarrow>
           env_inv (cgi_env (io_cgi io) (rq_cgi (cx_request cx))) rq'))"

lemma unanswered_refl [simp]: "unanswered io cx cx"
  unfolding unanswered_def by (rule exI [of _ "cx_request cx"]) simp

lemma only_env_trans: "only_env a b \<Longrightarrow> only_env b c \<Longrightarrow> only_env a c"
  by (auto simp: only_env_def intro: symtab_extends_trans)

lemma unanswered_simps:
  assumes "unanswered io cx cx'"
  shows "only_env (cx_request cx) (cx_request cx')"
    and "rq_route_parsed (cx_request cx') = rq_route_parsed (cx_request cx)"
    and "rq_relative_route (cx_request cx') = rq_relative_route (cx_request cx)"
    and "rq_cgi (cx_request cx') = rq_cgi (cx_request cx)"
    and "env_inv (cgi_env (io_cgi io) (rq_cgi (cx_request cx))) (cx_request cx) \<Longrightarrow>
      env_inv (cgi_env (io_cgi io) (rq_cgi (cx_request cx))) (cx_request cx')"
  using assms by (auto simp: unanswered_def only_env_def)

lemma unanswered_trans: "unanswered io a b \<Longrightarrow> unanswered io b c \<Longrightarrow> unanswered io a c"
proof -
  assume ab: "unanswered io a b" and bc: "unanswered io b c"
  from bc obtain rq where rq: "c = b\<lparr>cx_request := rq\<rparr>" by (auto simp: unanswered_def)
  with ab have "c = a\<lparr>cx_request := rq\<rparr>" by (auto simp: unanswered_def)
  with unanswered_simps [OF ab] unanswered_simps [OF bc] rq show ?thesis
    unfolding unanswered_def by (intro exI [of _ rq]) (auto intro: only_env_trans)
qed

lemma unanswered_method: "unanswered io cx (snd (on_request (request_method io) cx))"
proof -
  let ?rq = "cx_request cx"
  obtain v rq' where e: "request_env io sym_REQUEST_METHOD ?rq = (v, rq')"
    by fastforce
  have "\<exists>env tab. rq' = ?rq\<lparr>rq_env_map := env, rq_syms := tab\<rparr>"
    using e unfolding request_env_def request_env_map_def
    by (auto simp: split_beta split: if_splits prod.splits) (metis request.surjective request.update_convs(1,4))
  moreover have "env_inv (cgi_env (io_cgi io) (rq_cgi ?rq)) rq'"
    if "env_inv (cgi_env (io_cgi io) (rq_cgi ?rq)) ?rq"
    using request_env_spec [OF that builtin_symbols(8) e] that by (simp add: env_inv_def)
  ultimately show ?thesis
    using e only_env_env [of ?rq io sym_REQUEST_METHOD]
    unfolding unanswered_def
    by (intro exI [of _ rq'])
      (auto simp: on_request_def split_beta request_method_def request_method_string_def)
qed

text \<open>Swapping in the rest of a path, an unanswered call, and swapping back.\<close>

lemma relative_route_env:
  "env_inv envp (rq\<lparr>rq_relative_route := r\<rparr>) = env_inv envp rq"
  "only_env (rq\<lparr>rq_relative_route := r\<rparr>) rq' = only_env rq rq'"
  "only_env rq (rq'\<lparr>rq_relative_route := r\<rparr>) = only_env rq rq'"
  by (simp_all add: only_env_def env_inv_def)

lemma unanswered_swapped:
  assumes "unanswered io (snd (on_request (swap_relative_route rest) cx)) cx'"
  shows "unanswered io cx
    (snd (on_request (swap_relative_route (rq_relative_route (cx_request cx))) cx'))"
proof -
  let ?rq = "cx_request cx"
  have swap: "snd (on_request (swap_relative_route r) c) = c\<lparr>cx_request := (cx_request c)\<lparr>rq_relative_route := r\<rparr>\<rparr>"
    for r c
    by (simp add: on_request_def swap_relative_route_def)
  from assms obtain rq' where "cx' = snd (on_request (swap_relative_route rest) cx)\<lparr>cx_request := rq'\<rparr>"
    unfolding unanswered_def by blast
  then have "cx' = cx\<lparr>cx_request := rq'\<rparr>"
    by (simp add: swap)
  with unanswered_simps [OF assms] show ?thesis
    unfolding unanswered_def swap
    by (intro exI [of _ "rq'\<lparr>rq_relative_route := rq_relative_route ?rq\<rparr>"])
      (simp add: relative_route_env)
qed

locale sub_router =
  fixes io :: "('c, 'd) request_io"
    and call :: "'r \<Rightarrow> ('u, 'c, 'd) request_context \<Rightarrow>
      (RouteResult, ('u, 'c, 'd) request_context) outcome"
  assumes call_unanswered:
    "call r cx = (Inr res, cx') \<Longrightarrow> res \<noteq> Handled \<Longrightarrow> rq_route_parsed (cx_request cx) \<Longrightarrow>
     unanswered io cx cx'"
begin

lemma visit_unanswered:
  assumes "visit_router call rest sr res cx = (Continue res', cx')" "rq_route_parsed (cx_request cx)"
  shows "unanswered io cx cx'"
proof (cases "sr_router sr")
  case None
  with assms(1) show ?thesis by (simp add: visit_router_def)
next
  case (Some r)
  let ?cx1 = "snd (on_request (swap_relative_route rest) cx)"
  obtain new cx2 where call: "call r ?cx1 = (new, cx2)"
    by fastforce
  with assms(1) Some obtain new' where c: "call r ?cx1 = (Inr new', cx2)" "new' \<noteq> Handled"
    and cx': "cx' = snd (on_request (swap_relative_route (rq_relative_route (cx_request cx))) cx2)"
    by (cases new)
      (auto simp: visit_router_def split_beta swap_relative_route_def Let_def split: if_splits)
  have "rq_route_parsed (cx_request ?cx1)"
    using assms(2) by (simp add: swap_relative_route_def)
  from call_unanswered [OF c this] show ?thesis
    unfolding cx' by (rule unanswered_swapped)
qed

lemma walk_unanswered:
  "route_walk call rest sr l res cx = (WalkStopped stop lastr res', cx') \<Longrightarrow>
   rq_route_parsed (cx_request cx) \<Longrightarrow> unanswered io cx cx'"
proof (induction rest arbitrary: sr l res cx)
  case Nil
  then show ?case
    using visit_unanswered
    by (subst (asm) route_walk.simps) (auto split: prod.splits visit.splits)
next
  case (Cons c rest)
  obtain v cx1 where v: "visit_router call (c # rest) sr res cx = (v, cx1)"
    by fastforce
  from Cons.prems(1) v obtain res1 where v': "v = Continue res1"
    by (subst (asm) route_walk.simps) (auto split: visit.splits)
  note un = visit_unanswered [OF v [unfolded v'] Cons.prems(2)]
  show ?case
  proof (cases "next_subroute (rq_syms (cx_request cx1)) c sr")
    case None
    with Cons.prems(1) v v' un show ?thesis
      by (subst (asm) route_walk.simps) simp
  next
    case (Some sub)
    with Cons.prems(1) v v' have "route_walk call rest sub
        (if has_catch_all_recursive sub then Some sub else l) res1 cx1 = (WalkStopped stop lastr res', cx')"
      by (subst (asm) route_walk.simps) simp
    from Cons.IH [OF this] un Cons.prems(2) show ?thesis
      by (auto simp: unanswered_simps(2) intro: unanswered_trans)
  qed
qed

lemma finish_unanswered:
  assumes "finish_request io callback stopped route_result cx = (Inr res, cx')" "res \<noteq> Handled"
  shows "unanswered io cx cx'"
  using assms unanswered_method [of io cx]
  by (auto simp: finish_request_def fall_back_def call_endpoint_def
      split: option.splits if_splits sum.splits prod.splits)

text \<open>The contract is kept by a router over routers that keep it.\<close>

lemma handle_request_unanswered:
  assumes "handle_request io call callback root cx = (Inr res, cx')" "res \<noteq> Handled"
    and "rq_route_parsed (cx_request cx)"
  shows "unanswered io cx cx'"
proof -
  obtain stop lastr res1 cx1 where
    walk: "route_walk call (rq_relative_route (cx_request cx)) root (last_at_root root) NotFound cx =
      (WalkStopped stop lastr res1, cx1)"
    and finish: "finish_request io callback (stop, lastr) res1 cx1 = (Inr res, cx')"
    using assms by (auto simp: handle_request_finish split: prod.splits walk_end.splits)
  from walk_unanswered [OF walk assms(3)] finish_unanswered [OF finish assms(2)]
  show ?thesis by (rule unanswered_trans)
qed

end

text \<open>Nested \<open>Router\<close> objects.\<close>

abbreviation call_nested where
  "call_nested io callback trees \<equiv> call_irouter io callback (\<lambda>r. RouterObject (trees r))"

lemma call_nested_unanswered:
  "call_nested io callback trees fuel r cx = (Inr res, cx') \<Longrightarrow> res \<noteq> Handled \<Longrightarrow>
   rq_route_parsed (cx_request cx) \<Longrightarrow> unanswered io cx cx'"
proof (induction fuel arbitrary: r cx res cx')
  case (Suc fuel)
  have "sub_router io (call_nested io callback trees fuel)"
    by unfold_locales (rule Suc.IH)
  from sub_router.handle_request_unanswered [OF this] Suc.prems show ?case
    by simp
qed simp

interpretation nested: sub_router io "call_nested io callback trees fuel"
  for io callback trees fuel
  by unfold_locales (rule call_nested_unanswered)

section \<open>Which mounted routers are asked\<close>

text \<open>The routers along the walk and the path each is left with, in the tree and in the table.\<close>

fun tree_mounts :: "symtab \<Rightarrow> string list \<Rightarrow> ('r, 'f) sub_route \<Rightarrow> ('r \<times> string list) list" where
  "tree_mounts tab [] sr = (case sr_router sr of None \<Rightarrow> [] | Some r \<Rightarrow> [(r, [])])"
| "tree_mounts tab (c # rest) sr =
     (case sr_router sr of None \<Rightarrow> [] | Some r \<Rightarrow> [(r, c # rest)]) @
     (case next_subroute tab c sr of None \<Rightarrow> [] | Some sub \<Rightarrow> tree_mounts tab rest sub)"

fun table_mounts :: "('r, 'f) route_table \<Rightarrow> string list \<Rightarrow> string list \<Rightarrow> ('r \<times> string list) list" where
  "table_mounts t p [] = (case rt_router t p of None \<Rightarrow> [] | Some r \<Rightarrow> [(r, [])])"
| "table_mounts t p (c # rest) =
     (case rt_router t p of None \<Rightarrow> [] | Some r \<Rightarrow> [(r, c # rest)]) @
     (case table_next t p c of None \<Rightarrow> [] | Some p' \<Rightarrow> table_mounts t p' rest)"

text \<open>Asking them in turn: the first \<open>Handled\<close> ends the request, and the last other answer
  that is not \<open>NotFound\<close> is remembered.\<close>

fun consult ::
  "('r \<Rightarrow> ('u, 'c, 'd) request_context \<Rightarrow> (RouteResult, ('u, 'c, 'd) request_context) outcome) \<Rightarrow>
   ('r \<times> string list) list \<Rightarrow> RouteResult \<Rightarrow> ('u, 'c, 'd) request_context \<Rightarrow>
   visit \<times> ('u, 'c, 'd) request_context"
where
  "consult call [] answer cx = (Continue answer, cx)"
| "consult call ((r, rest) # ms) answer cx =
     (case call r (snd (on_request (swap_relative_route rest) cx)) of
        (Inl e, cx') \<Rightarrow> (Thrown e, cx')
      | (Inr res, cx') \<Rightarrow>
          (if res = Handled then (Returned, cx')
           else consult call ms (if res \<noteq> NotFound then res else answer)
             (snd (on_request (swap_relative_route (rq_relative_route (cx_request cx))) cx'))))"

lemma visit_router_consult:
  "res \<noteq> Handled \<Longrightarrow> visit_router call rest sr res cx =
    consult call (case sr_router sr of None \<Rightarrow> [] | Some r \<Rightarrow> [(r, rest)]) res cx"
  by (auto simp: visit_router_def split_beta swap_relative_route_def Let_def on_request_def
      split: option.split sum.split)

lemma consult_append:
  "consult call (xs @ ys) res cx =
    (case consult call xs res cx of
       (Continue res', cx') \<Rightarrow> consult call ys res' cx'
     | other \<Rightarrow> other)"
  by (induction call xs res cx rule: consult.induct) (auto split: sum.split prod.split)

lemma consult_unhandled:
  "consult call ms res cx = (Continue res', cx') \<Longrightarrow> res \<noteq> Handled \<Longrightarrow> res' \<noteq> Handled"
  by (induction call ms res cx rule: consult.induct) (auto split: sum.splits prod.splits if_splits)

text \<open>The lookups a router makes after a call are not changed by what the call added to the
  symbol table.\<close>

lemma node_at_child: "node_at [s] sr = maybe_get_subroute s sr"
  by (simp split: option.split)

lemma tree_ok_child:
  assumes "tree_ok tab sr" "maybe_get_subroute s sr = Some sub"
  shows "tree_ok tab sub"
  unfolding tree_ok_def
proof (intro allI impI)
  fix p
  assume "node_at p sub \<noteq> None"
  then have "node_at (s # p) sr \<noteq> None"
    using assms(2) by simp
  then have "\<forall>x\<in>set (s # p). symbol_valid tab x \<and> x \<noteq> symbol_null"
    using assms(1) unfolding tree_ok_def by blast
  then show "\<forall>x\<in>set p. symbol_valid tab x \<and> x \<noteq> symbol_null"
    by simp
qed

lemma tree_ok_extends: "symtab_extends tab tab' \<Longrightarrow> tree_ok tab sr \<Longrightarrow> tree_ok tab' sr"
  unfolding tree_ok_def using symtab_extends_keeps by blast

text \<open>Two tables, one an extension of the other, read a tree made with the first the same way.\<close>

definition same_reading :: "symtab \<Rightarrow> symtab \<Rightarrow> bool" where
  "same_reading tab tab' \<longleftrightarrow> symtab_wf tab \<and> symtab_wf tab' \<and> symtab_extends tab tab'"

lemma next_subroute_stable:
  assumes "same_reading tab tab'" "tree_ok tab sr"
  shows "next_subroute tab' c sr = next_subroute tab c sr"
  using path_symbols_stable [of tab tab' sr "[c]"] assms
  by (simp add: same_reading_def path_symbols_def next_subroute_def maybe_get_component_def
      split: option.splits)

lemma next_subroute_tree_ok:
  "tree_ok tab sr \<Longrightarrow> next_subroute tab c sr = Some sub \<Longrightarrow> tree_ok tab sub"
  by (auto simp: next_subroute_def maybe_get_component_def split: option.splits intro: tree_ok_child)

lemma tree_mounts_stable:
  "same_reading tab tab' \<Longrightarrow> tree_ok tab sr \<Longrightarrow> tree_mounts tab' rest sr = tree_mounts tab rest sr"
  by (induction rest arbitrary: sr)
    (auto simp: next_subroute_stable dest: next_subroute_tree_ok split: option.split)

lemma tree_walk_stable:
  "same_reading tab tab' \<Longrightarrow> tree_ok tab sr \<Longrightarrow> tree_walk tab' rest sr l = tree_walk tab rest sr l"
  by (induction rest arbitrary: sr l)
    (auto simp: next_subroute_stable dest: next_subroute_tree_ok split: option.split)

lemma table_mounts_tree:
  assumes "symtab_ok tab"
  shows "node_at (path_symbols tab p) root = Some n \<Longrightarrow>
    table_mounts (table_of tab root) p rest = tree_mounts tab rest n"
proof (induction rest arbitrary: p n)
  case Nil
  then show ?case by (simp add: table_of_def node_or_new_def)
next
  case (Cons c rest)
  have here: "rt_router (table_of tab root) p = sr_router n"
    using Cons.prems by (simp add: table_of_def node_or_new_def)
  show ?case
  proof (cases "table_next (table_of tab root) p c")
    case None
    then show ?thesis
      using table_next_node [OF assms Cons.prems, of c] by (simp add: here)
  next
    case (Some p')
    then obtain n' where n': "node_at (path_symbols tab p') root = Some n'"
      using table_next_known by blast
    with Some show ?thesis
      using table_next_node [OF assms Cons.prems, of c] Cons.IH [OF n'] by (simp add: here)
  qed
qed

text \<open>A request whose environment is consistent, with a parsed route.\<close>

definition dispatchable :: "('c, 'd) request_io \<Rightarrow> ('u, 'c, 'd) request_context \<Rightarrow> bool" where
  "dispatchable io cx \<longleftrightarrow> rq_route_parsed (cx_request cx) \<and>
     env_inv (cgi_env (io_cgi io) (rq_cgi (cx_request cx))) (cx_request cx)"

lemma unanswered_dispatchable:
  assumes "unanswered io cx cx'" "dispatchable io cx"
  shows "dispatchable io cx'" "same_reading (rq_syms (cx_request cx)) (rq_syms (cx_request cx'))"
  using unanswered_simps [OF assms(1)] assms(2)
  by (simp_all add: dispatchable_def same_reading_def env_inv_def symtab_ok_def only_env_def)

context sub_router
begin

lemma walk_consult:
  "dispatchable io cx \<Longrightarrow> tree_ok (rq_syms (cx_request cx)) sr \<Longrightarrow> res \<noteq> Handled \<Longrightarrow>
   route_walk call rest sr l res cx =
     (case consult call (tree_mounts (rq_syms (cx_request cx)) rest sr) res cx of
        (Thrown e, cx') \<Rightarrow> (WalkThrown e, cx')
      | (Returned, cx') \<Rightarrow> (WalkReturned, cx')
      | (Continue res', cx') \<Rightarrow>
          (WalkStopped (fst (tree_walk (rq_syms (cx_request cx)) rest sr l))
             (snd (tree_walk (rq_syms (cx_request cx)) rest sr l)) res', cx'))"
proof (induction rest arbitrary: sr l res cx)
  case Nil
  then show ?case
    by (subst route_walk.simps) (simp add: visit_router_consult split: prod.split visit.split)
next
  case (Cons c rest)
  obtain v cx1 where v: "visit_router call (c # rest) sr res cx = (v, cx1)"
    by fastforce
  note v' = v [unfolded visit_router_consult [OF Cons.prems(3)]]
  show ?case
  proof (cases v)
    case (Continue res1)
    note un = visit_unanswered [OF v [unfolded Continue]]
    have cx1: "dispatchable io cx1" "same_reading (rq_syms (cx_request cx)) (rq_syms (cx_request cx1))"
      using unanswered_dispatchable [OF un Cons.prems(1)] Cons.prems(1)
      by (simp_all add: dispatchable_def)
    have res1: "res1 \<noteq> Handled"
      using consult_unhandled [OF v' [unfolded Continue] Cons.prems(3)] .
    note nxt = next_subroute_stable [OF cx1(2) Cons.prems(2), of c]
    show ?thesis
    proof (cases "next_subroute (rq_syms (cx_request cx)) c sr")
      case None
      then show ?thesis
        by (subst route_walk.simps) (simp add: v Continue nxt consult_append v')
    next
      case (Some sub)
      note sub = next_subroute_tree_ok [OF Cons.prems(2) Some]
      have "tree_ok (rq_syms (cx_request cx1)) sub"
        using sub cx1(2) tree_ok_extends by (auto simp: same_reading_def)
      note IH = Cons.IH [OF cx1(1) this res1]
      show ?thesis
        by (subst route_walk.simps)
          (simp add: v Continue nxt Some consult_append v' IH
            tree_mounts_stable [OF cx1(2) sub] tree_walk_stable [OF cx1(2) sub]
            split: prod.split visit.split)
    qed
  qed (subst route_walk.simps, simp add: v consult_append v')+
qed

end

lemma table_of_stable:
  assumes "same_reading tab tab'" "tree_ok tab root"
  shows "table_of tab' root = table_of tab root"
  using path_symbols_stable [of tab tab' root] assms
  by (simp add: same_reading_def table_of_def node_or_new_def)

lemma finish_context_unanswered: "unanswered io cx (finish_request_context io stopped cx)"
  using unanswered_method [of io cx] by (simp add: finish_request_context_def split: option.split)

definition declared_method :: "('c, 'd) request_io \<Rightarrow> ('u, 'c, 'd) request_context \<Rightarrow> RequestMethod" where
  "declared_method io cx =
    method_of (env_value (cgi_env (io_cgi io) (rq_cgi (cx_request cx))) ''REQUEST_METHOD'')"

lemma request_method_declared:
  "dispatchable io cx \<Longrightarrow> fst (request_method io (cx_request cx)) = declared_method io cx"
  unfolding dispatchable_def declared_method_def by (blast intro: request_method_value)

context sub_router
begin

lemma consult_unanswered:
  "consult call ms res cx = (Continue res', cx') \<Longrightarrow> rq_route_parsed (cx_request cx) \<Longrightarrow>
   unanswered io cx cx'"
proof (induction ms arbitrary: res cx)
  case (Cons m ms)
  obtain r rest where m: "m = (r, rest)" by fastforce
  let ?cx1 = "snd (on_request (swap_relative_route rest) cx)"
  obtain res1 cx2 where call: "call r ?cx1 = (Inr res1, cx2)" "res1 \<noteq> Handled"
    and rec: "consult call ms (if res1 \<noteq> NotFound then res1 else res)
      (snd (on_request (swap_relative_route (rq_relative_route (cx_request cx))) cx2)) = (Continue res', cx')"
    using Cons.prems(1) unfolding m by (auto split: sum.splits prod.splits if_splits)
  have "rq_route_parsed (cx_request ?cx1)"
    using Cons.prems(2) by (simp add: swap_relative_route_def)
  note un = unanswered_swapped [OF call_unanswered [OF call this]]
  have "rq_route_parsed (cx_request
      (snd (on_request (swap_relative_route (rq_relative_route (cx_request cx))) cx2)))"
    using Cons.prems(2) unanswered_simps(2) [OF un] by simp
  from un Cons.IH [OF rec this] show ?case
    by (rule unanswered_trans)
qed simp

lemma handle_request_mounts:
  assumes "dispatchable io cx" "tree_ok (rq_syms (cx_request cx)) root"
  shows "\<exists>after. (\<forall>cx'. unanswered io cx' (after cx')) \<and>
    handle_request io call callback root cx =
      (case consult call (table_mounts (table_of (rq_syms (cx_request cx)) root) []
              (rq_relative_route (cx_request cx))) NotFound cx of
         (Thrown e, cx') \<Rightarrow> (Inl e, cx')
       | (Returned, cx') \<Rightarrow> (Inr Handled, cx')
       | (Continue res, cx') \<Rightarrow>
           (case table_finish (table_of (rq_syms (cx_request cx)) root) (declared_method io cx)
                   (rq_relative_route (cx_request cx)) res of
              (Some f, _) \<Rightarrow> call_endpoint callback f (after cx')
            | (None, r) \<Rightarrow> (Inr r, after cx')))"
proof -
  let ?tab = "rq_syms (cx_request cx)" and ?route = "rq_relative_route (cx_request cx)"
  let ?walk = "tree_walk ?tab ?route root (last_at_root root)"
  let ?after = "finish_request_context io ?walk"
  have ok: "symtab_ok ?tab" and parsed: "rq_route_parsed (cx_request cx)"
    using assms(1) by (simp_all add: dispatchable_def env_inv_def)
  have mounts: "table_mounts (table_of ?tab root) [] ?route = tree_mounts ?tab ?route root"
    by (rule table_mounts_tree [OF ok]) (simp add: path_symbols_def)
  have finish: "finish_request io callback ?walk res cx' =
      (case table_finish (table_of ?tab root) (declared_method io cx) ?route res of
         (Some f, _) \<Rightarrow> call_endpoint callback f (?after cx')
       | (None, r) \<Rightarrow> (Inr r, ?after cx'))"
    if "consult call (tree_mounts ?tab ?route root) NotFound cx = (Continue res, cx')" for res cx'
  proof -
    note un = consult_unanswered [OF that parsed]
    note cx' = unanswered_dispatchable [OF un assms(1)]
    have "symtab_ok (rq_syms (cx_request cx'))"
      using cx'(1) by (simp add: dispatchable_def env_inv_def)
    moreover have "declared_method io cx' = declared_method io cx"
      by (simp add: declared_method_def unanswered_simps(4) [OF un])
    ultimately show ?thesis
      using finish_request_table [of cx' io callback ?route root res]
      by (simp only: tree_walk_stable [OF cx'(2) assms(2)] table_of_stable [OF cx'(2) assms(2)]
          request_method_declared [OF cx'(1)])
  qed
  show ?thesis
    by (rule exI [of _ ?after])
      (simp add: handle_request_finish [OF parsed] walk_consult [OF assms] mounts
        finish_context_unanswered finish split: prod.split visit.split)
qed

end

section \<open>How much fuel nested routers need\<close>

lemma visit_cong:
  assumes "\<And>r c. sr_router sr = Some r \<Longrightarrow> rq_route_parsed (cx_request c) \<Longrightarrow>
      rq_relative_route (cx_request c) = rest \<Longrightarrow> call r c = call' r c"
    and "rq_route_parsed (cx_request cx)"
  shows "visit_router call rest sr res cx = visit_router call' rest sr res cx"
proof (cases "sr_router sr")
  case (Some r)
  obtain saved cx1 where swap: "on_request (swap_relative_route rest) cx = (saved, cx1)"
    by fastforce
  then have "cx1 = snd (on_request (swap_relative_route rest) cx)"
    by simp
  then have "call r cx1 = call' r cx1"
    using assms(2) by (intro assms(1)) (simp_all add: Some swap_relative_route_def)
  then show ?thesis
    by (simp add: visit_router_def Some swap)
qed (simp add: visit_router_def)

context sub_router
begin

lemma walk_cong:
  fixes sr :: "('r, 'f) sub_route"
  assumes "\<And>r c. rq_route_parsed (cx_request c) \<Longrightarrow>
      length (rq_relative_route (cx_request c)) \<le> length rest \<Longrightarrow> call r c = call' r c"
    and "rq_route_parsed (cx_request cx)"
  shows "route_walk call rest sr l res cx = route_walk call' rest sr l res cx"
  using assms
proof (induction rest arbitrary: sr l res cx)
  case Nil
  have "visit_router call [] sr res cx = visit_router call' [] sr res cx"
    using Nil by (intro visit_cong) simp_all
  then show ?case
    by (simp add: route_walk.simps [of call] route_walk.simps [of call'] split: prod.split visit.split)
next
  case (Cons c rest)
  have v: "visit_router call (c # rest) sr res cx = visit_router call' (c # rest) sr res cx"
    using Cons.prems by (intro visit_cong) simp_all
  obtain w cx1 where w: "visit_router call (c # rest) sr res cx = (w, cx1)"
    by fastforce
  note w' = w [unfolded v]
  show ?case
  proof (cases w)
    case (Continue res1)
    have "rq_route_parsed (cx_request cx1)"
      using visit_unanswered [OF w [unfolded Continue] Cons.prems(2)] Cons.prems(2)
      by (simp add: unanswered_simps(2))
    then have "route_walk call rest sub l' res1 cx1 = route_walk call' rest sub l' res1 cx1"
      for sub :: "('r, 'f) sub_route" and l'
      using Cons.prems(1) by (intro Cons.IH) simp_all
    then show ?thesis
      using w w' by (simp add: route_walk.simps [of call "c # rest"]
          route_walk.simps [of call' "c # rest"] Continue split: option.split)
  qed (use w w' in \<open>simp_all add: route_walk.simps [of call "c # rest"] route_walk.simps [of call' "c # rest"]\<close>)
qed

text \<open>A router mounted at the root of a router sees the same path, any other a shorter one.\<close>

lemma handle_request_cong:
  fixes root :: "('r, 'f) sub_route"
  assumes "rq_route_parsed (cx_request cx)"
    and "\<And>r c. sr_router root = Some r \<Longrightarrow> rq_route_parsed (cx_request c) \<Longrightarrow>
      rq_relative_route (cx_request c) = rq_relative_route (cx_request cx) \<Longrightarrow> call r c = call' r c"
    and "\<And>r c. rq_route_parsed (cx_request c) \<Longrightarrow>
      length (rq_relative_route (cx_request c)) < length (rq_relative_route (cx_request cx)) \<Longrightarrow>
      call r c = call' r c"
  shows "handle_request io call callback root cx = handle_request io call' callback root cx"
proof -
  let ?route = "rq_relative_route (cx_request cx)" and ?l = "last_at_root root"
  have v: "visit_router call ?route root NotFound cx = visit_router call' ?route root NotFound cx"
    using assms(1,2) by (intro visit_cong) simp_all
  obtain w cx1 where w: "visit_router call ?route root NotFound cx = (w, cx1)"
    by fastforce
  note w' = w [unfolded v]
  have "route_walk call ?route root ?l NotFound cx = route_walk call' ?route root ?l NotFound cx"
  proof (cases w)
    case (Continue res1)
    have "rq_route_parsed (cx_request cx1)"
      using visit_unanswered [OF w [unfolded Continue] assms(1)] assms(1)
      by (simp add: unanswered_simps(2))
    then have "route_walk call rest sub l' res1 cx1 = route_walk call' rest sub l' res1 cx1"
      if "?route = c # rest" for c rest l' and sub :: "('r, 'f) sub_route"
      using assms(3) that by (intro walk_cong) simp_all
    then show ?thesis
      using w w' by (simp add: route_walk.simps [of call ?route] route_walk.simps [of call' ?route]
          Continue split: option.split list.split)
  qed (use w w' in \<open>simp_all add: route_walk.simps [of call ?route] route_walk.simps [of call' ?route]\<close>)
  then show ?thesis
    by (simp only: handle_request_finish [OF assms(1)])
qed

end

text \<open>Fuel for a path of \<open>n\<close> components: \<open>depth\<close> routers at most stacked at one root.\<close>

definition fuel_needed :: "('r \<Rightarrow> nat) \<Rightarrow> nat \<Rightarrow> 'r \<Rightarrow> string list \<Rightarrow> nat" where
  "fuel_needed rank depth r route = length route * Suc depth + Suc (rank r)"

lemma nested_fuel:
  assumes "\<And>r s. sr_router (trees r) = Some s \<Longrightarrow> rank s < rank r" "\<And>r. rank r \<le> depth"
  shows "rq_route_parsed (cx_request (cx :: ('u, 'c, 'd) request_context)) \<Longrightarrow>
    fuel_needed rank depth r (rq_relative_route (cx_request cx)) \<le> fuel \<Longrightarrow>
    fuel_needed rank depth r (rq_relative_route (cx_request cx)) \<le> fuel' \<Longrightarrow>
    call_nested io callback trees fuel r cx = call_nested io callback trees fuel' r cx"
proof (induction fuel arbitrary: fuel' r cx)
  case 0
  then show ?case by (simp add: fuel_needed_def)
next
  case (Suc fuel)
  then obtain k where k: "fuel' = Suc k"
    by (cases fuel') (simp_all add: fuel_needed_def)
  let ?n = "length (rq_relative_route (cx_request cx))"
  have enough: "?n * Suc depth + rank r \<le> fuel" "?n * Suc depth + rank r \<le> k"
    using Suc.prems by (simp_all add: fuel_needed_def k)
  have shorter: "m * Suc depth + Suc (rank s) \<le> ?n * Suc depth" if "m < ?n" for m s
  proof -
    have "m * Suc depth + Suc depth \<le> ?n * Suc depth"
      using mult_le_mono1 [of "Suc m" ?n "Suc depth"] that by simp
    with assms(2) [of s] show ?thesis by linarith
  qed
  have "handle_request io (call_nested io callback trees fuel) callback (trees r) cx =
      handle_request io (call_nested io callback trees k) callback (trees r) cx"
  proof (rule nested.handle_request_cong)
    fix s and c :: "('u, 'c, 'd) request_context"
    assume "sr_router (trees r) = Some s" "rq_route_parsed (cx_request c)"
      "rq_relative_route (cx_request c) = rq_relative_route (cx_request cx)"
    with assms(1) enough show "call_nested io callback trees fuel s c = call_nested io callback trees k s c"
      by (intro Suc.IH) (fastforce simp: fuel_needed_def)+
  next
    fix s and c :: "('u, 'c, 'd) request_context"
    assume c: "rq_route_parsed (cx_request c)"
      "length (rq_relative_route (cx_request c)) < ?n"
    with enough shorter [OF c(2), of s]
    show "call_nested io callback trees fuel s c = call_nested io callback trees k s c"
      by (intro Suc.IH) (simp_all add: fuel_needed_def)
  qed (use Suc.prems in simp)
  then show ?case
    by (simp add: k)
qed

section \<open>One mounted router\<close>

lemma one_mount_walk:
  assumes "t = table_step (AddRouter (Some s) route) table_empty" "parse_route route = q @ p"
  shows "table_mounts t q (p @ rest) = [(s, rest)] \<and>
    table_walk t q (p @ rest) None = (if rest = [] then Some (q @ p) else None, None)"
  using assms(2)
proof (induction p arbitrary: q)
  case Nil
  then have "table_next t q c = None" for c
    using assms(1) by (simp add: table_next_def table_touch_def table_empty_def)
  with Nil assms(1) show ?case
    by (cases rest) (simp_all add: table_touch_def table_empty_def)
next
  case (Cons c p)
  have "table_next t q c = Some (q @ [c])"
    using assms(1) Cons.prems by (simp add: table_next_def table_touch_def table_empty_def prefix_def)
  moreover have "rt_router t q = None" "rt_endpoint t (q @ [c]) CatchAllRecursive = None"
    using assms(1) Cons.prems by (simp_all add: table_touch_def table_empty_def)
  ultimately show ?case
    using Cons.IH [of "q @ [c]"] Cons.prems by simp
qed

lemma swapped_sample:
  "snd (on_request (swap_relative_route rest) (sample_context tab route)) = sample_context tab rest"
  by (simp add: sample_context_def context_of_request_def set_request_def on_request_def
      swap_relative_route_def request_context.defs context_new_def context_base.defs)

lemma empty_routers: "rt_router table_empty = (\<lambda>p. None)" "table_mounts table_empty p [] = []"
  by (simp_all add: table_empty_def)

lemma sample_dispatchable:
  assumes "symtab_ok tab" "0 < st_room tab"
  shows "dispatchable sample_io (sample_context tab route)"
  using assms unfolding dispatchable_def
  by (simp add: env_inv_def sample_env) (simp add: env_bindings_def)

lemma empty_router_declines:
  fixes trees :: "'r \<Rightarrow> ('r, 'f) sub_route"
  assumes "trees r = sub_route_new" "symtab_ok (rq_syms (cx_request cx))" "rq_route_parsed (cx_request cx)"
  shows "\<exists>cx'. call_nested io callback trees (Suc fuel) r cx = (Inr NotFound, cx')"
proof -
  have "table_dispatch (table_empty :: ('r, 'f) route_table) m p = (None, NotFound)" for m p
    by (cases p)
      (simp_all add: table_dispatch_def table_finish_def table_empty_def table_next_def all_methods_complete)
  then show ?thesis
    using handle_request_table [of cx sub_route_new io "call_nested io callback trees fuel" callback] assms
    by (auto simp: tree_ok_new table_of_new empty_routers)
qed

section \<open>Properties\<close>

text \<open>C19: When a tree of routers answers a request with anything but \<open>Handled\<close>, nothing has
  been sent, no header is set, nothing is logged and the relative route is what it was: the
  caller can go on as if it had not asked.\<close>

theorem unanswered_request_untouched:
  assumes "call_irouter io callback (\<lambda>r. RouterObject (trees r)) fuel r cx = (Inr res, cx')"
    and "res \<noteq> Handled" "rq_route_parsed (cx_request cx)"
  shows "rq_cgi (cx_request cx') = rq_cgi (cx_request cx) \<and>
    rq_headers (cx_request cx') = rq_headers (cx_request cx) \<and>
    rq_headers_sent (cx_request cx') = rq_headers_sent (cx_request cx) \<and>
    rq_logger (cx_request cx') = rq_logger (cx_request cx) \<and>
    rq_relative_route (cx_request cx') = rq_relative_route (cx_request cx) \<and>
    symtab_extends (rq_syms (cx_request cx)) (rq_syms (cx_request cx')) \<and>
    cx' = cx\<lparr>cx_request := cx_request cx'\<rparr>"
proof -
  have un: "unanswered io cx cx'"
    by (rule nested.call_unanswered [OF assms])
  then have "cx' = cx\<lparr>cx_request := cx_request cx'\<rparr>"
    by (auto simp: unanswered_def)
  with unanswered_simps [OF un] show ?thesis
    by (simp add: only_env_def)
qed

theorem unanswered_request_untouched_witness:
  "\<exists>root tab cx'. add_route_router (Some False) ''/api'' boot_table (sub_route_new :: (bool, unit) sub_route) =
      (root, tab) \<and>
    call_irouter sample_io (\<lambda>f cx. (Inr (), cx)) (\<lambda>r. RouterObject (if r then root else sub_route_new))
      2 True (sample_context tab [''api'', ''x'']) = (Inr NotFound, cx') \<and>
    rq_relative_route (cx_request cx') = [''api'', ''x'']"
proof -
  obtain root :: "(bool, unit) sub_route" and tab
    where mount: "add_route_router (Some False) ''/api'' boot_table sub_route_new = (root, tab)"
    by fastforce
  let ?cx = "sample_context tab [''api'', ''x'']"
  let ?trees = "\<lambda>r. if r then root else sub_route_new"
  let ?t = "table_step (AddRouter (Some False) ''/api'') (table_empty :: (bool, unit) route_table)"
  have route: "parse_route ''/api'' = [''api'']" "parse_route ''api'' = [''api'']"
    by (simp_all add: parse_route_split)
  have "route_step (AddRouter (Some False) ''/api'') (sub_route_new, boot_table) = (root, tab)"
    using mount by simp
  note ref = route_step_refines [OF symtab_ok_boot tree_ok_new _ this, unfolded table_of_new]
  have tab: "symtab_ok tab" "0 < st_room tab" "tree_ok tab root" "table_of tab root = ?t"
    using ref by (simp_all add: route boot_room)
  obtain cx1 where "call_nested sample_io (\<lambda>f cx. (Inr (), cx)) ?trees (Suc 0) False (sample_context tab [''x'']) =
      (Inr NotFound, cx1)"
    using empty_router_declines [of ?trees False "sample_context tab [''x'']" sample_io "\<lambda>f cx. (Inr (), cx)" 0]
      tab(1) by (auto simp del: call_irouter.simps)
  moreover have "table_mounts ?t [] [''api'', ''x''] = [(False, [''x''])]"
      "table_finish ?t m [''api'', ''x''] NotFound = (None, NotFound)" for m
    by (simp_all add: table_finish_def table_next_def table_touch_def table_empty_def route)
  ultimately obtain cx' where
      "handle_request sample_io (call_nested sample_io (\<lambda>f cx. (Inr (), cx)) ?trees (Suc 0))
        (\<lambda>f cx. (Inr (), cx)) root ?cx = (Inr NotFound, cx')"
    using nested.handle_request_mounts [OF sample_dispatchable [OF tab(1,2)], of "[''api'', ''x'']" root
        "\<lambda>f cx. (Inr (), cx)" ?trees "Suc 0" "\<lambda>f cx. (Inr (), cx)"] tab(3,4)
    by (auto simp: swapped_sample simp del: call_irouter.simps(2))
  then have call: "call_nested sample_io (\<lambda>f cx. (Inr (), cx)) ?trees (Suc (Suc 0)) True ?cx = (Inr NotFound, cx')"
    by simp
  with unanswered_request_untouched [OF call] mount show ?thesis
    by (auto simp: numeral_2_eq_2)
qed

text \<open>C3: What a router with other routers mounted in it does: the routers mounted along the
  request's path are asked from the root down, each with the path that is left; the first that
  handles the request ends it.  Otherwise the handler is selected from the router's own table
  as if nothing were mounted, and where there is none the last answer other than \<open>NotFound\<close>
  is kept.\<close>

theorem mounted_routers_in_order:
  assumes "dispatchable io cx" "tree_ok (rq_syms (cx_request cx)) (trees r)"
  shows "\<exists>after. (\<forall>cx'. unanswered io cx' (after cx')) \<and>
    call_irouter io callback (\<lambda>r. RouterObject (trees r)) (Suc fuel) r cx =
      (case consult (call_irouter io callback (\<lambda>r. RouterObject (trees r)) fuel)
              (table_mounts (table_of (rq_syms (cx_request cx)) (trees r)) []
                 (rq_relative_route (cx_request cx))) NotFound cx of
         (Thrown e, cx') \<Rightarrow> (Inl e, cx')
       | (Returned, cx') \<Rightarrow> (Inr Handled, cx')
       | (Continue res, cx') \<Rightarrow>
           (case table_finish (table_of (rq_syms (cx_request cx)) (trees r)) (declared_method io cx)
                   (rq_relative_route (cx_request cx)) res of
              (Some f, _) \<Rightarrow> call_endpoint callback f (after cx')
            | (None, r) \<Rightarrow> (Inr r, after cx')))"
  using nested.handle_request_mounts [OF assms] by simp

theorem mounted_routers_in_order_witness:
  "\<exists>root tab. fold route_step [AddRouter (Some False) ''/api'', AddCallback (2::nat) '''' CatchAllRecursive]
      (sub_route_new, boot_table) = (root, tab) \<and>
    fst (call_irouter sample_io (\<lambda>f cx. (if f = 2 then Inr () else Inl UnknownException, cx))
      (\<lambda>r. RouterObject (if r then root else sub_route_new)) 2 True
      (sample_context tab [''api'', ''x''])) = Inr Handled"
proof -
  let ?ops = "[AddRouter (Some False) ''/api'', AddCallback 2 '''' CatchAllRecursive] :: (bool, nat) route_op list"
  let ?cb = "\<lambda>f cx. (if f = (2::nat) then Inr () else Inl UnknownException, cx)"
  define t where "t = fold table_step ?ops table_empty"
  obtain root :: "(bool, nat) sub_route" and tab
    where run: "fold route_step ?ops (sub_route_new, boot_table) = (root, tab)"
    by fastforce
  let ?cx = "sample_context tab [''api'', ''x'']"
  let ?trees = "\<lambda>r. if r then root else sub_route_new"
  have route: "parse_route ''/api'' = [''api'']" "parse_route ''api'' = [''api'']" "parse_route '''' = []"
    by (simp_all add: parse_route_split)
  have cost: "route_cost ?ops = 1"
    by (simp add: route_cost_def route)
  then have room: "route_cost ?ops \<le> st_room boot_table"
    by (simp add: boot_room)
  have tab: "symtab_ok tab" "0 < st_room tab" "tree_ok tab root" "table_of tab root = t"
    using route_steps_refine [OF symtab_ok_boot tree_ok_new room run] cost
    by (simp_all add: boot_room table_of_new t_def)
  obtain cx1 where child: "call_nested sample_io ?cb ?trees (Suc 0) False (sample_context tab [''x'']) =
      (Inr NotFound, cx1)"
    using empty_router_declines [of ?trees False "sample_context tab [''x'']" sample_io ?cb 0] tab(1)
    by (auto simp del: call_irouter.simps)
  have "table_mounts t [] [''api'', ''x''] = [(False, [''x''])]"
    "table_finish t m [''api'', ''x''] NotFound = (Some 2, Handled)" for m
    by (simp_all add: t_def table_finish_def table_next_def table_touch_def table_empty_def route)
  then have "fst (call_nested sample_io ?cb ?trees (Suc (Suc 0)) True ?cx) = Inr Handled"
    using mounted_routers_in_order [OF sample_dispatchable [OF tab(1,2)], of "[''api'', ''x'']" ?trees True
        ?cb "Suc 0"] tab(3,4) child
    by (auto simp: swapped_sample call_endpoint_def simp del: call_irouter.simps(2))
  with run show ?thesis
    by (auto simp: numeral_2_eq_2)
qed

text \<open>C17: Routers mounted in one another, even in themselves, as long as no router is mounted at
  its own root through the roots of others: with enough fuel for the length of the path the
  result does not depend on the fuel, and satisfies the recursive equation of the code.\<close>

theorem nested_routing_terminates:
  assumes "\<And>r s. sr_router (trees r) = Some s \<Longrightarrow> rank s < rank r" "\<And>r. rank r \<le> depth"
    and "rq_route_parsed (cx_request cx)"
    and "fuel_needed rank depth r (rq_relative_route (cx_request cx)) \<le> fuel"
  shows "call_irouter io callback (\<lambda>r. RouterObject (trees r)) fuel r cx =
      call_irouter io callback (\<lambda>r. RouterObject (trees r))
        (fuel_needed rank depth r (rq_relative_route (cx_request cx))) r cx \<and>
    call_irouter io callback (\<lambda>r. RouterObject (trees r)) fuel r cx =
      handle_request io (call_irouter io callback (\<lambda>r. RouterObject (trees r)) fuel) callback
        (trees r) cx"
proof -
  note same = nested_fuel [of trees rank depth, OF assms(1,2,3)]
  have "call_nested io callback trees fuel r cx = call_nested io callback trees (Suc fuel) r cx"
    using assms(4) by (intro same) simp_all
  with same [OF _ assms(4) order_refl] assms(4) show ?thesis
    by simp
qed

theorem nested_routing_terminates_witness:
  "call_irouter sample_io (\<lambda>f cx. (Inr (), cx))
      (\<lambda>r. RouterObject (SubRoute [(sym_api, SubRoute [] (Some r) [])] None [] :: (unit, unit) sub_route))
      9 () (sample_context boot_table [''api'', ''api'']) =
    call_irouter sample_io (\<lambda>f cx. (Inr (), cx))
      (\<lambda>r. RouterObject (SubRoute [(sym_api, SubRoute [] (Some r) [])] None [] :: (unit, unit) sub_route))
      3 () (sample_context boot_table [''api'', ''api''])"
  using nested_routing_terminates [of "\<lambda>r. SubRoute [(sym_api, SubRoute [] (Some r) [])] None [] :: (unit, unit) sub_route"
      "\<lambda>r. 0" 0 "sample_context boot_table [''api'', ''api'']" "()" 9 sample_io "\<lambda>f cx. (Inr (), cx)"]
  by (simp add: fuel_needed_def numeral_3_eq_3 del: call_irouter.simps)

text \<open>C34: A method error of a mounted router is forgotten when the request's path ends where the
  router is mounted, and kept when the path goes on below.\<close>

theorem mounted_method_error:
  fixes trees :: "'r \<Rightarrow> ('r, 'f) sub_route"
  assumes "symtab_ok tab" "length (parse_route route) \<le> st_room tab"
    and "add_route_router (Some s) route tab sub_route_new = (trees r, rq_syms (cx_request cx))"
    and "dispatchable io cx" "rq_relative_route (cx_request cx) = parse_route route @ rest"
    and "fst (call_irouter io callback (\<lambda>r. RouterObject (trees r)) fuel s
      (snd (on_request (swap_relative_route rest) cx))) = Inr InvalidMethod"
  shows "fst (call_irouter io callback (\<lambda>r. RouterObject (trees r)) (Suc fuel) r cx) =
    Inr (if rest = [] then NotFound else InvalidMethod)"
proof -
  let ?t = "table_step (AddRouter (Some s) route) (table_empty :: ('r, 'f) route_table)"
  have "route_step (AddRouter (Some s) route) (sub_route_new, tab) = (trees r, rq_syms (cx_request cx))"
    using assms(3) by simp
  note ref = route_step_refines [OF assms(1) tree_ok_new _ this, unfolded table_of_new]
  then have t: "table_of (rq_syms (cx_request cx)) (trees r) = ?t"
    and ok: "tree_ok (rq_syms (cx_request cx)) (trees r)"
    using assms(2) by simp_all
  have root: "rt_endpoint ?t p m = None" for p m
    by (simp add: table_touch_def table_empty_def)
  note walk = one_mount_walk [OF refl, of route "[]" "parse_route route" s rest]
  have finish: "table_finish ?t m (parse_route route @ rest) InvalidMethod =
      (None, if rest = [] then NotFound else InvalidMethod)" for m
    by (simp add: table_finish_def all_methods_complete root walk del: table_step.simps)
  obtain cx1 where call: "call_nested io callback trees fuel s
      (snd (on_request (swap_relative_route rest) cx)) = (Inr InvalidMethod, cx1)"
    using assms(6) by (metis prod.collapse)
  show ?thesis
    using nested.handle_request_mounts [OF assms(4) ok, of callback trees fuel callback] finish call
    by (auto simp: t assms(5) walk simp del: table_step.simps)
qed

theorem mounted_method_error_witness:
  "\<exists>child root tab1 tab2. add_route_callback (1::nat) '''' POST boot_table sub_route_new = (child, tab1) \<and>
    add_route_router (Some False) ''/api'' tab1 sub_route_new = (root, tab2) \<and>
    fst (call_irouter sample_io (\<lambda>f cx. (Inr (), cx)) (\<lambda>r. RouterObject (if r then root else child))
      2 True (sample_context tab2 [''api''])) = Inr NotFound"
proof -
  obtain child :: "(bool, nat) sub_route" and tab1
    where add: "add_route_callback 1 '''' POST boot_table sub_route_new = (child, tab1)"
    by fastforce
  obtain root :: "(bool, nat) sub_route" and tab2
    where mount: "add_route_router (Some False) ''/api'' tab1 sub_route_new = (root, tab2)"
    by fastforce
  let ?trees = "\<lambda>r. if r then root else child"
  have routes: "parse_route '''' = []" "parse_route ''/api'' = [''api'']" "parse_route ''api'' = [''api'']"
    by (simp_all add: parse_route_split)
  have step: "route_step (AddCallback 1 '''' POST) (sub_route_new, boot_table) = (child, tab1)"
    "route_step (AddRouter (Some False) ''/api'') (sub_route_new, tab1) = (root, tab2)"
    using add mount by simp_all
  have child: "symtab_ok tab1" "tree_ok tab1 child" "4 \<le> st_room tab1"
    "table_of tab1 child = table_step (AddCallback 1 '''' POST) table_empty"
    using route_step_refines [OF symtab_ok_boot tree_ok_new _ step(1)]
    by (simp_all add: routes boot_room table_of_new)
  have tab2: "symtab_ok tab2" "0 < st_room tab2"
    using route_step_refines [OF child(1) tree_ok_new _ step(2)] child(3) by (simp_all add: routes)
  have same: "same_reading tab1 tab2"
    using child(1,3) tab2(1) mount
      route_update_refines [OF child(1) tree_ok_new _ _ mount [unfolded add_route_router_def]]
    by (simp add: same_reading_def symtab_ok_def routes)
  then have child2: "tree_ok tab2 child" "table_of tab2 child = table_step (AddCallback 1 '''' POST) table_empty"
    unfolding table_of_stable [OF same child(2)] child(4)
    using child(2) tree_ok_extends by (auto simp: same_reading_def)
  have get: "fst (request_method sample_io (cx_request (sample_context tab2 []))) = GET"
    by (rule sample_context_method [OF tab2])
  have "table_dispatch (table_of tab2 child) GET [] = (None, InvalidMethod)"
    unfolding child2(2)
    by (auto simp: table_dispatch_def table_finish_def table_select_def routes table_touch_def
        table_empty_def all_methods_def)
  moreover have "rt_router (table_of tab2 child) = (\<lambda>p. None)"
    unfolding child2(2) by (simp add: table_touch_def table_empty_def)
  ultimately have "fst (call_nested sample_io (\<lambda>f cx. (Inr (), cx)) ?trees 1 False
      (snd (on_request (swap_relative_route []) (sample_context tab2 [''api''])))) = Inr InvalidMethod"
    using handle_request_table [of "sample_context tab2 []" child sample_io
        "call_nested sample_io (\<lambda>f cx. (Inr (), cx)) ?trees 0" "\<lambda>f cx. (Inr (), cx)"] tab2(1) child2(1) get
    by (auto simp: swapped_sample)
  from mounted_method_error [OF child(1) _ _ _ _ this, of "''/api''" True]
  have "fst (call_nested sample_io (\<lambda>f cx. (Inr (), cx)) ?trees (Suc 1) True (sample_context tab2 [''api''])) =
      Inr NotFound"
    using mount sample_dispatchable [OF tab2] child(3) by (simp add: routes)
  with add mount show ?thesis
    by (auto simp: numeral_2_eq_2)
qed

end
