(* ===== verification/SharedRouter.thy ===== *)
theory SharedRouter
  imports Mounting
begin

text \<open>
  One \<open>Router\<close> object of \<open>router.cpp\<close> between the threads that use it.  \<open>handle_request\<close> holds
  \<open>route_mutex\<close> shared while it walks down the tree and while the handler it has chosen runs;
  \<open>add_route\<close> and \<open>remove_route\<close> hold it exclusively.  The walk is cut into its steps, each of
  which reads the tree through a pointer, so that the steps of other threads come between.
\<close>

section \<open>The mutex\<close>

text \<open>\<open>std::shared_mutex\<close>: an operation that has to wait is \<open>None\<close>.\<close>

record shared_mutex =
  mx_readers :: "nat set"
  mx_writer :: "nat option"

definition lock_shared :: "nat \<Rightarrow> shared_mutex \<Rightarrow> shared_mutex option" where
  "lock_shared i mx =
    (if mx_writer mx = None then Some (mx\<lparr>mx_readers := insert i (mx_readers mx)\<rparr>) else None)"

definition unlock_shared :: "nat \<Rightarrow> shared_mutex \<Rightarrow> shared_mutex" where
  "unlock_shared i mx = mx\<lparr>mx_readers := mx_readers mx - {i}\<rparr>"

definition lock_exclusive :: "nat \<Rightarrow> shared_mutex \<Rightarrow> shared_mutex option" where
  "lock_exclusive i mx =
    (if mx_writer mx = None \<and> mx_readers mx = {} then Some (mx\<lparr>mx_writer := Some i\<rparr>) else None)"

definition unlock_exclusive :: "shared_mutex \<Rightarrow> shared_mutex" where
  "unlock_exclusive mx = mx\<lparr>mx_writer := None\<rparr>"

section \<open>The threads\<close>

text \<open>The local variables of \<open>handle_request\<close>; a pointer to a node is the path to it, or null.\<close>

type_synonym node_ptr = "symbol list option"

record walker =
  wl_method :: RequestMethod
  wl_rest :: "string list"
  wl_subroute :: node_ptr
  wl_last :: node_ptr
  wl_result :: RouteResult

text \<open>While the thread runs code that is not the router's own, a handler or a mounted router, it holds
  the mutex; this code may call the router again to change it.\<close>

datatype 'f user_code = InsideHandler 'f | InsideRouter walker

datatype ('r, 'f) router_pc =
    Away
  | WantsShared RequestMethod "string list"
  | AtNode walker
  | InRouter walker
  | Descending walker
  | Stopped walker
  | InHandler 'f
  | Unlocking "exn + RouteResult"
  | Answered "exn + RouteResult"
  | WantsExclusive "('r, 'f) route_op" "'f user_code option"
  | Registering "('r, 'f) route_op" "'f user_code option"
  | Registered_route

definition running :: "('r, 'f) router_pc \<Rightarrow> 'f user_code option" where
  "running pc =
    (case pc of InHandler f \<Rightarrow> Some (InsideHandler f) | InRouter w \<Rightarrow> Some (InsideRouter w) | _ \<Rightarrow> None)"

definition resume :: "'f user_code \<Rightarrow> ('r, 'f) router_pc" where
  "resume code = (case code of InsideHandler f \<Rightarrow> InHandler f | InsideRouter w \<Rightarrow> InRouter w)"

text \<open>\<open>sh_done\<close> and \<open>sh_interned\<close> only record what has happened.\<close>

record ('r, 'f) shared_router =
  sh_root :: "('r, 'f) sub_route"
  sh_mutex :: shared_mutex
  sh_syms :: symtab
  sh_pcs :: "nat \<Rightarrow> ('r, 'f) router_pc"
  sh_done :: "('r, 'f) route_op list"
  sh_interned :: nat

definition shared_new :: "symtab \<Rightarrow> ('r, 'f) shared_router" where
  "shared_new tab =
    \<lparr>sh_root = sub_route_new, sh_mutex = \<lparr>mx_readers = {}, mx_writer = None\<rparr>, sh_syms = tab,
     sh_pcs = (\<lambda>i. Away), sh_done = [], sh_interned = 0\<rparr>"

definition deref :: "('r, 'f) sub_route \<Rightarrow> node_ptr \<Rightarrow> ('r, 'f) sub_route option" where
  "deref root p = (case p of None \<Rightarrow> None | Some q \<Rightarrow> node_at q root)"

definition next_pointer :: "symtab \<Rightarrow> string \<Rightarrow> symbol list \<Rightarrow> ('r, 'f) sub_route \<Rightarrow> node_ptr" where
  "next_pointer tab component p sr =
    (let s = symbol_maybe component tab
     in if maybe_get_subroute s sr \<noteq> None then Some (p @ [s])
        else if maybe_get_subroute sym_wildcard sr \<noteq> None then Some (p @ [sym_wildcard])
        else None)"

text \<open>The step down to the next component, where the walk stops at the end of the route or at a
  component that leads nowhere.\<close>

definition descend :: "symtab \<Rightarrow> ('r, 'f) sub_route \<Rightarrow> walker \<Rightarrow> ('r, 'f) router_pc option" where
  "descend tab root w =
    (case (wl_subroute w, deref root (wl_subroute w)) of
       (Some p, Some sr) \<Rightarrow>
         (case wl_rest w of
            [] \<Rightarrow> Some (Stopped w)
          | component # rest \<Rightarrow>
              (let nxt = next_pointer tab component p sr
               in case deref root nxt of
                    None \<Rightarrow> Some (Stopped (w\<lparr>wl_subroute := None\<rparr>))
                  | Some sub \<Rightarrow>
                      Some (AtNode (w\<lparr>wl_rest := rest, wl_subroute := nxt,
                        wl_last := if has_catch_all_recursive sub then nxt else wl_last w\<rparr>))))
     | _ \<Rightarrow> None)"

text \<open>The thread's next step; \<open>None\<close> where it waits for the mutex or for a mounted router, or has
  nothing to do.\<close>

definition set_pc :: "nat \<Rightarrow> ('r, 'f) router_pc \<Rightarrow> ('r, 'f) shared_router \<Rightarrow> ('r, 'f) shared_router" where
  "set_pc i pc sh = sh\<lparr>sh_pcs := (sh_pcs sh)(i := pc)\<rparr>"

definition router_step :: "nat \<Rightarrow> ('r, 'f) shared_router \<Rightarrow> ('r, 'f) shared_router option" where
  "router_step i sh =
    (case sh_pcs sh i of
       WantsShared m route \<Rightarrow>
         map_option (\<lambda>mx. set_pc i (AtNode \<lparr>wl_method = m, wl_rest = route, wl_subroute = Some [],
             wl_last = if has_catch_all_recursive (sh_root sh) then Some [] else None,
             wl_result = NotFound\<rparr>) (sh\<lparr>sh_mutex := mx\<rparr>))
           (lock_shared i (sh_mutex sh))
     | AtNode w \<Rightarrow>
         map_option (\<lambda>sr. set_pc i (if sr_router sr = None then Descending w else InRouter w) sh)
           (deref (sh_root sh) (wl_subroute w))
     | Descending w \<Rightarrow> map_option (\<lambda>pc. set_pc i pc sh) (descend (sh_syms sh) (sh_root sh) w)
     | Stopped w \<Rightarrow>
         Some (set_pc i
           (case endpoint_choice (deref (sh_root sh) (wl_subroute w), deref (sh_root sh) (wl_last w))
                   (wl_result w) (wl_method w) of
              (Some f, _) \<Rightarrow> InHandler f
            | (None, res) \<Rightarrow> Unlocking (Inr res)) sh)
     | InHandler f \<Rightarrow> Some (set_pc i (Unlocking (Inr Handled)) sh)
     | Unlocking res \<Rightarrow> Some (set_pc i (Answered res) (sh\<lparr>sh_mutex := unlock_shared i (sh_mutex sh)\<rparr>))
     | WantsExclusive oper h \<Rightarrow>
         map_option (\<lambda>mx. set_pc i (Registering oper h) (sh\<lparr>sh_mutex := mx\<rparr>))
           (lock_exclusive i (sh_mutex sh))
     | Registering oper h \<Rightarrow>
         (let (root, tab) = route_step oper (sh_root sh, sh_syms sh)
          in Some (set_pc i (case h of None \<Rightarrow> Registered_route | Some code \<Rightarrow> resume code)
               (sh\<lparr>sh_root := root, sh_syms := tab, sh_mutex := unlock_exclusive (sh_mutex sh),
                   sh_done := sh_done sh @ [oper]\<rparr>)))
     | _ \<Rightarrow> None)"

text \<open>What else happens: calls of the router, answers of mounted routers, and what else handlers
  and mounted routers do: they throw, or change the router they are called from.  Any thread may
  make new symbols.\<close>

datatype ('r, 'f) router_event =
    CallHandle nat RequestMethod "string list"
  | CallChange nat "('r, 'f) route_op"
  | ThreadStep nat
  | RouterAnswers nat "exn + RouteResult"
  | HandlerThrows nat exn
  | UserChanges nat "('r, 'f) route_op"
  | Interns string

definition resting :: "('r, 'f) router_pc \<Rightarrow> bool" where
  "resting pc \<longleftrightarrow> (case pc of Away \<Rightarrow> True | Answered r \<Rightarrow> True | Registered_route \<Rightarrow> True | _ \<Rightarrow> False)"

definition router_answers :: "exn + RouteResult \<Rightarrow> walker \<Rightarrow> ('r, 'f) router_pc" where
  "router_answers answer w =
    (case answer of
       Inl e \<Rightarrow> Unlocking (Inl e)
     | Inr new_result \<Rightarrow>
         (let route_result = (if new_result \<noteq> NotFound then new_result else wl_result w)
          in if route_result = Handled then Unlocking (Inr Handled)
             else Descending (w\<lparr>wl_result := route_result\<rparr>)))"

definition router_event ::
  "('r, 'f) router_event \<Rightarrow> ('r, 'f) shared_router \<Rightarrow> ('r, 'f) shared_router option" where
  "router_event e sh =
    (case e of
       CallHandle i m route \<Rightarrow> if resting (sh_pcs sh i) then Some (set_pc i (WantsShared m route) sh) else None
     | CallChange i oper \<Rightarrow> if resting (sh_pcs sh i) then Some (set_pc i (WantsExclusive oper None) sh) else None
     | ThreadStep i \<Rightarrow> router_step i sh
     | RouterAnswers i answer \<Rightarrow>
         (case sh_pcs sh i of InRouter w \<Rightarrow> Some (set_pc i (router_answers answer w) sh) | _ \<Rightarrow> None)
     | HandlerThrows i e \<Rightarrow>
         (case sh_pcs sh i of InHandler f \<Rightarrow> Some (set_pc i (Unlocking (Inl e)) sh) | _ \<Rightarrow> None)
     | UserChanges i oper \<Rightarrow>
         map_option (\<lambda>code. set_pc i (WantsExclusive oper (Some code)) sh) (running (sh_pcs sh i))
     | Interns str \<Rightarrow>
         Some (sh\<lparr>sh_syms := snd (internalize str (sh_syms sh)), sh_interned := Suc (sh_interned sh)\<rparr>))"

fun router_run ::
  "('r, 'f) router_event list \<Rightarrow> ('r, 'f) shared_router \<Rightarrow> ('r, 'f) shared_router option" where
  "router_run [] sh = Some sh"
| "router_run (e # es) sh = (case router_event e sh of None \<Rightarrow> None | Some sh' \<Rightarrow> router_run es sh')"

section \<open>The invariant\<close>

fun holds_shared :: "('r, 'f) router_pc \<Rightarrow> bool" where
  "holds_shared (AtNode w) = True"
| "holds_shared (InRouter w) = True"
| "holds_shared (Descending w) = True"
| "holds_shared (Stopped w) = True"
| "holds_shared (InHandler f) = True"
| "holds_shared (Unlocking r) = True"
| "holds_shared (WantsExclusive oper h) = (h \<noteq> None)"
| "holds_shared (Registering oper h) = (h \<noteq> None)"
| "holds_shared _ = False"

fun holds_exclusive :: "('r, 'f) router_pc \<Rightarrow> bool" where
  "holds_exclusive (Registering oper h) = True"
| "holds_exclusive _ = False"

definition mutex_ok :: "('r, 'f) shared_router \<Rightarrow> bool" where
  "mutex_ok sh \<longleftrightarrow>
    mx_readers (sh_mutex sh) = {i. holds_shared (sh_pcs sh i)} \<and>
    (\<forall>i. mx_writer (sh_mutex sh) = Some i \<longleftrightarrow> holds_exclusive (sh_pcs sh i)) \<and>
    (mx_writer (sh_mutex sh) \<noteq> None \<longrightarrow> mx_readers (sh_mutex sh) = {})"

text \<open>Pointers of a walk point into the tree.\<close>

fun pointers_ok :: "('r, 'f) sub_route \<Rightarrow> ('r, 'f) router_pc \<Rightarrow> bool" where
  "pointers_ok root (AtNode w) = (deref root (wl_subroute w) \<noteq> None)"
| "pointers_ok root (InRouter w) = (deref root (wl_subroute w) \<noteq> None)"
| "pointers_ok root (Descending w) = (deref root (wl_subroute w) \<noteq> None)"
| "pointers_ok root _ = True"

definition sh_cost :: "('r, 'f) shared_router \<Rightarrow> nat" where
  "sh_cost sh = route_cost (sh_done sh) + sh_interned sh"

definition shared_inv :: "symtab \<Rightarrow> ('r, 'f) shared_router \<Rightarrow> bool" where
  "shared_inv tab sh \<longleftrightarrow>
    mutex_ok sh \<and> symtab_ok (sh_syms sh) \<and> tree_ok (sh_syms sh) (sh_root sh) \<and>
    table_of (sh_syms sh) (sh_root sh) = fold table_step (sh_done sh) table_empty \<and>
    st_room tab \<le> sh_cost sh + st_room (sh_syms sh) \<and>
    (\<forall>i. pointers_ok (sh_root sh) (sh_pcs sh i))"

lemmas pc_simps = set_pc_def lock_shared_def unlock_shared_def lock_exclusive_def unlock_exclusive_def

lemma mutex_free:
  assumes "mutex_ok sh"
  shows "mx_readers (sh_mutex sh) = {} \<Longrightarrow> \<not> holds_shared (sh_pcs sh j)"
    and "holds_exclusive (sh_pcs sh i) \<Longrightarrow> mx_readers (sh_mutex sh) = {}"
  using assms unfolding mutex_ok_def by blast+

lemma mutex_change:
  assumes "mutex_ok sh" "sh_pcs sh i = Registering oper h"
  shows "mx_writer (sh_mutex sh) = Some i" "h = None" "\<not> holds_shared (sh_pcs sh j)"
    and "j \<noteq> i \<Longrightarrow> \<not> holds_exclusive (sh_pcs sh j)"
proof -
  have "holds_exclusive (sh_pcs sh i)"
    by (simp add: assms(2))
  with assms(1) show writer: "mx_writer (sh_mutex sh) = Some i"
    unfolding mutex_ok_def by blast
  then show "j \<noteq> i \<Longrightarrow> \<not> holds_exclusive (sh_pcs sh j)"
    using assms(1) unfolding mutex_ok_def by (metis option.inject)
  note none = mutex_free(1) [OF assms(1) mutex_free(2) [OF assms(1) \<open>holds_exclusive (sh_pcs sh i)\<close>]]
  show "\<not> holds_shared (sh_pcs sh j)"
    by (rule none)
  show "h = None"
    using none [of i] assms(2) by simp
qed

text \<open>A step that moves one thread without taking or giving back the mutex.\<close>

lemma mutex_set_pc:
  assumes "mutex_ok sh" "holds_shared pc = holds_shared (sh_pcs sh i)"
    and "holds_exclusive pc = holds_exclusive (sh_pcs sh i)"
  shows "mutex_ok (set_pc i pc sh)"
  using assms by (auto simp: mutex_ok_def set_pc_def)

lemma router_step_cases:
  assumes "router_step i sh = Some sh'"
  obtains (lock) m route w mx where "sh_pcs sh i = WantsShared m route"
      "w = \<lparr>wl_method = m, wl_rest = route, wl_subroute = Some [],
        wl_last = if has_catch_all_recursive (sh_root sh) then Some [] else None, wl_result = NotFound\<rparr>"
      "lock_shared i (sh_mutex sh) = Some mx" "sh' = set_pc i (AtNode w) (sh\<lparr>sh_mutex := mx\<rparr>)"
    | (visit) w sr where "sh_pcs sh i = AtNode w" "deref (sh_root sh) (wl_subroute w) = Some sr"
      "sh' = set_pc i (if sr_router sr = None then Descending w else InRouter w) sh"
    | (descend) w pc where "sh_pcs sh i = Descending w" "descend (sh_syms sh) (sh_root sh) w = Some pc"
      "sh' = set_pc i pc sh"
    | (choose) w out where "sh_pcs sh i = Stopped w"
      "out = endpoint_choice (deref (sh_root sh) (wl_subroute w), deref (sh_root sh) (wl_last w))
        (wl_result w) (wl_method w)"
      "sh' = set_pc i (case out of (Some f, _) \<Rightarrow> InHandler f | (None, res) \<Rightarrow> Unlocking (Inr res)) sh"
    | (returns) f where "sh_pcs sh i = InHandler f" "sh' = set_pc i (Unlocking (Inr Handled)) sh"
    | (unlock) res where "sh_pcs sh i = Unlocking res"
      "sh' = set_pc i (Answered res) (sh\<lparr>sh_mutex := unlock_shared i (sh_mutex sh)\<rparr>)"
    | (lock_change) oper h mx where "sh_pcs sh i = WantsExclusive oper h"
      "lock_exclusive i (sh_mutex sh) = Some mx"
      "sh' = set_pc i (Registering oper h) (sh\<lparr>sh_mutex := mx\<rparr>)"
    | (change) oper h root tab where "sh_pcs sh i = Registering oper h"
      "route_step oper (sh_root sh, sh_syms sh) = (root, tab)"
      "sh' = set_pc i (case h of None \<Rightarrow> Registered_route | Some code \<Rightarrow> resume code)
        (sh\<lparr>sh_root := root, sh_syms := tab, sh_mutex := unlock_exclusive (sh_mutex sh),
            sh_done := sh_done sh @ [oper]\<rparr>)"
  using assms
  by (cases "sh_pcs sh i") (auto simp: router_step_def split: prod.splits)

lemma descend_cases:
  assumes "descend tab root w = Some pc"
  obtains p sr where "wl_subroute w = Some p" "node_at p root = Some sr"
    "wl_rest w = [] \<and> pc = Stopped w \<or>
     (\<exists>c rest. wl_rest w = c # rest \<and>
        (next_subroute tab c sr = None \<and> pc = Stopped (w\<lparr>wl_subroute := None\<rparr>) \<or>
         (\<exists>nxt sub. next_subroute tab c sr = Some sub \<and> deref root nxt = Some sub \<and>
            pc = AtNode (w\<lparr>wl_rest := rest, wl_subroute := nxt,
              wl_last := if has_catch_all_recursive sub then nxt else wl_last w\<rparr>))))"
proof -
  obtain p sr where p: "wl_subroute w = Some p" "node_at p root = Some sr"
    using assms by (auto simp: descend_def deref_def split: option.splits)
  then have sub: "deref root (wl_subroute w) = Some sr"
    by (simp add: deref_def)
  have nxt: "deref root (next_pointer tab c p sr) = next_subroute tab c sr" for c
    using p(2)
    by (auto simp: next_pointer_def next_subroute_def maybe_get_component_def deref_def node_at_snoc Let_def
        split: option.split)
  show thesis
  proof (rule that [OF p], cases "wl_rest w")
    case (Cons c rest)
    with assms p(1) sub nxt [of c] show "wl_rest w = [] \<and> pc = Stopped w \<or>
     (\<exists>c rest. wl_rest w = c # rest \<and>
        (next_subroute tab c sr = None \<and> pc = Stopped (w\<lparr>wl_subroute := None\<rparr>) \<or>
         (\<exists>nxt sub. next_subroute tab c sr = Some sub \<and> deref root nxt = Some sub \<and>
            pc = AtNode (w\<lparr>wl_rest := rest, wl_subroute := nxt,
              wl_last := if has_catch_all_recursive sub then nxt else wl_last w\<rparr>))))"
      by (cases "next_subroute tab c sr")
        (auto simp: descend_def Let_def intro!: exI [of _ "next_pointer tab c p sr"])
  qed (use assms p(1) sub in \<open>simp add: descend_def\<close>)
qed

section \<open>The invariant holds\<close>

lemma step_mutex:
  assumes "mutex_ok sh" "router_step i sh = Some sh'"
  shows "mutex_ok sh'"
  using assms(2)
proof (cases rule: router_step_cases)
  case (lock m route w mx)
  with assms(1) show ?thesis
    by (auto simp: mutex_ok_def pc_simps split: if_splits)
next
  case (visit w sr)
  then show ?thesis
    using mutex_set_pc [OF assms(1), of "if sr_router sr = None then Descending w else InRouter w" i] by simp
next
  case (descend w pc)
  from descend(2) have "holds_shared pc \<and> \<not> holds_exclusive pc"
    by (rule descend_cases) auto
  then show ?thesis
    using descend mutex_set_pc [OF assms(1), of pc i] by simp
next
  case (choose w out)
  then show ?thesis
    using mutex_set_pc [OF assms(1), of "case out of (Some f, _) \<Rightarrow> InHandler f | (None, res) \<Rightarrow> Unlocking (Inr res)" i]
    by (simp split: prod.split option.split)
next
  case (returns f)
  then show ?thesis
    using mutex_set_pc [OF assms(1), of "Unlocking (Inr Handled)" i] by simp
next
  case (unlock res)
  with assms(1) show ?thesis
    by (auto simp: mutex_ok_def pc_simps)
next
  case (lock_change oper h mx)
  then have "h = None"
    using mutex_free(1) [OF assms(1), of i] by (auto simp: lock_exclusive_def split: if_splits)
  with lock_change assms(1) show ?thesis
    by (auto simp: mutex_ok_def pc_simps split: if_splits)
next
  case (change oper h root tab)
  with mutex_change [OF assms(1) change(1)] show ?thesis
    using assms(1) by (auto simp: mutex_ok_def pc_simps simp del: all_simps)
qed

lemma event_mutex:
  assumes "mutex_ok sh" "router_event e sh = Some sh'"
  shows "mutex_ok sh'"
proof (cases e)
  case (ThreadStep i)
  then show ?thesis
    using step_mutex [OF assms(1)] assms(2) by (simp add: router_event_def)
next
  case (Interns str)
  then show ?thesis
    using assms by (auto simp: router_event_def mutex_ok_def)
next
  case (CallHandle i m route)
  then show ?thesis
    using assms mutex_set_pc [OF assms(1), of "WantsShared m route" i]
    by (cases "sh_pcs sh i") (auto simp: router_event_def resting_def)
next
  case (CallChange i oper)
  then show ?thesis
    using assms mutex_set_pc [OF assms(1), of "WantsExclusive oper None" i]
    by (cases "sh_pcs sh i") (auto simp: router_event_def resting_def)
next
  case (RouterAnswers i answer)
  have "holds_shared (router_answers answer w) \<and> \<not> holds_exclusive (router_answers answer w)" for w
    by (auto simp: router_answers_def Let_def split: sum.split)
  then show ?thesis
    using RouterAnswers assms(2) mutex_set_pc [OF assms(1), of _ i]
    by (cases "sh_pcs sh i") (auto simp: router_event_def)
next
  case (HandlerThrows i e)
  then show ?thesis
    using assms(2) mutex_set_pc [OF assms(1), of "Unlocking (Inl e)" i]
    by (cases "sh_pcs sh i") (auto simp: router_event_def)
next
  case (UserChanges i oper)
  then show ?thesis
    using assms(2) mutex_set_pc [OF assms(1), of "WantsExclusive oper (Some _)" i]
    by (cases "sh_pcs sh i") (auto simp: router_event_def running_def)
qed

text \<open>The tree is changed only by the holder of the exclusive lock, and then no thread is at a node.\<close>

lemma step_tree:
  assumes "shared_inv tab sh" "router_step i sh = Some sh'" "sh_cost sh' \<le> st_room tab"
  shows "shared_inv tab sh'"
proof -
  note inv = assms(1) [unfolded shared_inv_def]
  have pcs: "pointers_ok (sh_root sh) (sh_pcs sh j)" for j
    using inv by blast
  have mutex: "mutex_ok sh'"
    using step_mutex [OF _ assms(2)] inv by blast
  from assms(2) show ?thesis
  proof (cases rule: router_step_cases)
    case (descend w pc)
    from descend(2) have "pointers_ok (sh_root sh) pc"
      by (rule descend_cases) auto
    with descend inv mutex show ?thesis
      by (simp add: shared_inv_def pc_simps sh_cost_def)
  next
    case (change oper h root tab')
    then have none: "\<not> holds_shared (sh_pcs sh j)" for j
      using mutex_change(3) [of sh] inv by blast
    have "pointers_ok root pc" if "\<not> holds_shared pc" for pc :: "('a, 'b) router_pc"
      using that by (cases pc) simp_all
    then have pointers: "pointers_ok root (sh_pcs sh' j)" for j
      using none change mutex_change(2) [OF _ change(1)] inv by (auto simp: pc_simps)
    have cost: "sh_cost sh' = sh_cost sh + length (parse_route (op_route oper))"
      by (simp add: change sh_cost_def pc_simps route_cost_def)
    then have "length (parse_route (op_route oper)) \<le> st_room (sh_syms sh)"
      using inv assms(3) by simp
    then have "symtab_ok tab' \<and> symtab_extends (sh_syms sh) tab' \<and> tree_ok tab' root \<and>
        st_room (sh_syms sh) \<le> length (parse_route (op_route oper)) + st_room tab' \<and>
        table_of tab' root = table_step oper (table_of (sh_syms sh) (sh_root sh))"
      using inv change(2) by (intro route_step_refines) simp_all
    with inv mutex pointers cost show ?thesis
      unfolding shared_inv_def by (simp add: change pc_simps)
  qed (use inv mutex pcs in \<open>auto simp: shared_inv_def pc_simps sh_cost_def deref_def
      split: option.split prod.split\<close>)
qed

lemma shared_inv_set_pc:
  assumes "shared_inv tab sh" "mutex_ok (set_pc i pc sh)" "pointers_ok (sh_root sh) pc"
  shows "shared_inv tab (set_pc i pc sh)"
  using assms by (simp add: shared_inv_def set_pc_def sh_cost_def)

lemma event_inv:
  assumes "shared_inv tab sh" "router_event e sh = Some sh'" "sh_cost sh' \<le> st_room tab"
  shows "shared_inv tab sh'"
proof -
  note inv = assms(1) [unfolded shared_inv_def]
  have mutex: "mutex_ok sh'"
    using event_mutex [OF _ assms(2)] inv by blast
  have pcs: "pointers_ok (sh_root sh) (sh_pcs sh j)" for j
    using inv by blast
  show ?thesis
  proof (cases e)
    case (ThreadStep i)
    then show ?thesis
      using step_tree [OF assms(1) _ assms(3)] assms(2) by (simp add: router_event_def)
  next
    case (Interns str)
    have sh': "sh' = sh\<lparr>sh_syms := snd (internalize str (sh_syms sh)), sh_interned := Suc (sh_interned sh)\<rparr>"
      using assms(2) Interns by (simp add: router_event_def)
    then have room: "0 < st_room (sh_syms sh)"
      using assms(3) inv by (simp add: sh_cost_def)
    have wf: "symtab_wf (sh_syms sh)"
      using inv by (simp add: symtab_ok_def)
    note spec = internalize_spec [OF wf room surjective_pairing, of str]
    have "same_reading (sh_syms sh) (snd (internalize str (sh_syms sh)))"
      using wf spec by (simp add: same_reading_def)
    with inv spec symtab_ok_internalize [OF _ room, of str] mutex show ?thesis
      unfolding shared_inv_def sh'
      by (simp add: sh_cost_def table_of_stable tree_ok_extends)
  next
    case (RouterAnswers i answer)
    then obtain w where "sh_pcs sh i = InRouter w" "sh' = set_pc i (router_answers answer w) sh"
      using assms(2) by (cases "sh_pcs sh i") (auto simp: router_event_def)
    moreover have "pointers_ok (sh_root sh) (router_answers answer w)"
      using pcs [of i] calculation(1) by (auto simp: router_answers_def Let_def split: sum.split)
    ultimately show ?thesis
      using shared_inv_set_pc [OF assms(1)] mutex by simp
  qed (use assms(1,2) mutex in \<open>auto simp: router_event_def shared_inv_set_pc
      split: if_splits router_pc.splits\<close>)
qed

lemma event_cost:
  assumes "router_event e sh = Some sh'"
  shows "sh_cost sh \<le> sh_cost sh'"
proof (cases e)
  case (ThreadStep i)
  then have "router_step i sh = Some sh'"
    using assms by (simp add: router_event_def)
  then show ?thesis
    by (cases rule: router_step_cases) (simp_all add: sh_cost_def pc_simps route_cost_def)
qed (use assms in \<open>auto simp: router_event_def sh_cost_def set_pc_def split: if_splits router_pc.splits\<close>)

lemma run_cost: "router_run es sh = Some sh' \<Longrightarrow> sh_cost sh \<le> sh_cost sh'"
  by (induction es arbitrary: sh) (force dest: event_cost split: option.splits)+

lemma run_inv:
  assumes "router_run es sh = Some sh'" "shared_inv tab sh" "sh_cost sh' \<le> st_room tab"
  shows "shared_inv tab sh'"
  using assms
proof (induction es arbitrary: sh)
  case (Cons e es)
  then obtain sh1 where step: "router_event e sh = Some sh1" "router_run es sh1 = Some sh'"
    by (auto split: option.splits)
  then have "sh_cost sh1 \<le> st_room tab"
    using run_cost Cons.prems(3) le_trans by blast
  with Cons step event_inv show ?case
    by blast
qed simp

lemma run_append:
  "router_run (es @ es') sh =
    (case router_run es sh of None \<Rightarrow> None | Some sh1 \<Rightarrow> router_run es' sh1)"
  by (induction es arbitrary: sh) (auto split: option.split)

lemma shared_inv_new: "symtab_ok tab \<Longrightarrow> shared_inv tab (shared_new tab)"
  by (simp add: shared_inv_def shared_new_def mutex_ok_def sh_cost_def route_cost_def tree_ok_new table_of_new)

end
