(* ===== verification/RouterThreads.thy ===== *)
theory RouterThreads
  imports SharedRouter
begin

text \<open>
  What threads that share a router can rely on: each request sees one tree, no deadlock and a
  bound on a request's steps, as long as no handler or mounted router changes the router that
  called it; one that does blocks its thread and all later changes for ever.
\<close>

section \<open>A request sees one tree\<close>

text \<open>A request that found the tree \<open>root\<close> and the table \<open>tab\<close> when it took the mutex: what its walk
  ends at, and what is decided there.  Mounted routers may have answered before.\<close>

definition walk_goal ::
  "symtab \<Rightarrow> ('r, 'f) sub_route \<Rightarrow> string list \<Rightarrow> ('r, 'f) sub_route option \<times> ('r, 'f) sub_route option" where
  "walk_goal tab root route = tree_walk tab route root (last_at_root root)"

definition decided ::
  "symtab \<Rightarrow> ('r, 'f) sub_route \<Rightarrow> RequestMethod \<Rightarrow> string list \<Rightarrow> 'f option \<times> RouteResult \<Rightarrow> bool" where
  "decided tab root m route out \<longleftrightarrow>
    (\<exists>res. (unmounted root \<longrightarrow> res = NotFound) \<and> endpoint_choice (walk_goal tab root route) res m = out)"

definition quiet_walker :: "('r, 'f) sub_route \<Rightarrow> RequestMethod \<Rightarrow> walker \<Rightarrow> bool" where
  "quiet_walker root m w \<longleftrightarrow> wl_method w = m \<and> (unmounted root \<longrightarrow> wl_result w = NotFound)"

definition on_the_way ::
  "symtab \<Rightarrow> ('r, 'f) sub_route \<Rightarrow> RequestMethod \<Rightarrow> string list \<Rightarrow> walker \<Rightarrow> bool" where
  "on_the_way tab root m route w \<longleftrightarrow> quiet_walker root m w \<and>
    (\<exists>n. deref root (wl_subroute w) = Some n \<and>
      tree_walk tab (wl_rest w) n (deref root (wl_last w)) = walk_goal tab root route)"

fun on_course ::
  "symtab \<Rightarrow> ('r, 'f) sub_route \<Rightarrow> RequestMethod \<Rightarrow> string list \<Rightarrow> ('r, 'f) router_pc \<Rightarrow> bool" where
  "on_course tab root m route (AtNode w) = on_the_way tab root m route w"
| "on_course tab root m route (InRouter w) \<longleftrightarrow> on_the_way tab root m route w \<and> \<not> unmounted root"
| "on_course tab root m route (Descending w) = on_the_way tab root m route w"
| "on_course tab root m route (Stopped w) \<longleftrightarrow> quiet_walker root m w \<and>
     (deref root (wl_subroute w), deref root (wl_last w)) = walk_goal tab root route"
| "on_course tab root m route (InHandler f) = decided tab root m route (Some f, Handled)"
| "on_course tab root m route (WantsExclusive oper h) =
     (case h of
        None \<Rightarrow> False
      | Some (InsideHandler f) \<Rightarrow> decided tab root m route (Some f, Handled)
      | Some (InsideRouter w) \<Rightarrow> on_the_way tab root m route w \<and> \<not> unmounted root)"
| "on_course tab root m route (Unlocking a) =
     (\<forall>res. a = Inr res \<longrightarrow> res \<noteq> Handled \<longrightarrow> decided tab root m route (None, res))"
| "on_course tab root m route (Answered a) =
     (\<forall>res. a = Inr res \<longrightarrow> res \<noteq> Handled \<longrightarrow> decided tab root m route (None, res))"
| "on_course tab root m route _ = False"

lemma endpoint_choice_handled: "endpoint_choice stopped res m = (Some f, r) \<Longrightarrow> r = Handled"
  by (auto simp: endpoint_choice_def Let_def split: if_splits option.splits)

lemma node_tree_ok: "tree_ok tab root \<Longrightarrow> node_at p root = Some n \<Longrightarrow> tree_ok tab n"
  by (induction p arbitrary: root) (auto split: option.splits intro: tree_ok_child)

text \<open>The next step down on a table that has grown meanwhile.\<close>

lemma descend_on_course:
  assumes "on_the_way tab root m route w" "descend tab' root w = Some pc"
    and "same_reading tab tab'" "tree_ok tab root"
  shows "on_course tab root m route pc"
proof -
  obtain n where quiet: "quiet_walker root m w" and n: "deref root (wl_subroute w) = Some n"
    and goal: "tree_walk tab (wl_rest w) n (deref root (wl_last w)) = walk_goal tab root route"
    using assms(1) by (auto simp: on_the_way_def)
  from assms(2) obtain p where p: "wl_subroute w = Some p" "node_at p root = Some n"
    and pc: "wl_rest w = [] \<and> pc = Stopped w \<or>
     (\<exists>c rest. wl_rest w = c # rest \<and>
        (next_subroute tab' c n = None \<and> pc = Stopped (w\<lparr>wl_subroute := None\<rparr>) \<or>
         (\<exists>nxt sub. next_subroute tab' c n = Some sub \<and> deref root nxt = Some sub \<and>
            pc = AtNode (w\<lparr>wl_rest := rest, wl_subroute := nxt,
              wl_last := if has_catch_all_recursive sub then nxt else wl_last w\<rparr>))))"
    by (rule descend_cases) (use n in \<open>auto simp: deref_def\<close>)
  have "next_subroute tab' c n = next_subroute tab c n" for c
    by (rule next_subroute_stable [OF assms(3) node_tree_ok [OF assms(4) p(2)]])
  with pc quiet n goal show ?thesis
    by (auto simp: quiet_walker_def on_the_way_def deref_def)
qed

definition snapshot ::
  "symtab \<Rightarrow> ('r, 'f) sub_route \<Rightarrow> RequestMethod \<Rightarrow> string list \<Rightarrow> nat \<Rightarrow> ('r, 'f) shared_router \<Rightarrow> bool" where
  "snapshot tab root m route i sh \<longleftrightarrow>
    same_reading tab (sh_syms sh) \<and> tree_ok tab root \<and> on_course tab root m route (sh_pcs sh i) \<and>
    (holds_shared (sh_pcs sh i) \<longrightarrow> sh_root sh = root)"

fun calls_router :: "nat \<Rightarrow> ('r, 'f) router_event \<Rightarrow> bool" where
  "calls_router i (CallHandle j m route) = (j = i)"
| "calls_router i (CallChange j oper) = (j = i)"
| "calls_router i _ = False"

lemma own_step_snapshot:
  assumes "snapshot tab root m route i sh" "mutex_ok sh" "router_step i sh = Some sh'"
  shows "snapshot tab root m route i sh'"
proof -
  note snap = assms(1) [unfolded snapshot_def]
  from assms(3) show ?thesis
  proof (cases rule: router_step_cases)
    case (visit w sr)
    then have "unmounted root \<Longrightarrow> sr_router sr = None"
      using snap by (auto simp: unmounted_def deref_def split: option.splits)
    with visit snap show ?thesis
      by (auto simp: snapshot_def set_pc_def)
  next
    case (descend w pc)
    from descend(2) have "holds_shared pc"
      by (rule descend_cases) auto
    moreover have "on_course tab root m route pc"
      using descend snap by (intro descend_on_course [of tab root m route w "sh_syms sh"]) simp_all
    ultimately show ?thesis
      using descend snap by (simp add: snapshot_def set_pc_def)
  next
    case (choose w out)
    then have out: "out = endpoint_choice (walk_goal tab root route) (wl_result w) m" "quiet_walker root m w"
      using snap by (auto simp: quiet_walker_def)
    then have "decided tab root m route out"
      unfolding decided_def quiet_walker_def by blast
    moreover have "fst out = Some f \<Longrightarrow> out = (Some f, Handled)" for f
      using out(1) endpoint_choice_handled by (metis prod.collapse)
    ultimately show ?thesis
      using choose(1,3) snap
      by (cases out; cases "fst out") (auto simp: snapshot_def set_pc_def)
  next
    case (lock_change oper h mx)
    then have "h = None"
      using mutex_free(1) [OF assms(2), of i] by (auto simp: lock_exclusive_def split: if_splits)
    with lock_change(1) snap show ?thesis
      by simp
  next
    case (change oper h root' tab')
    then show ?thesis
      using snap by simp
  qed (use snap in \<open>auto simp: snapshot_def pc_simps split: if_splits\<close>)
qed

lemma other_step_snapshot:
  assumes "snapshot tab root m route i sh" "shared_inv tab0 sh" "sh_cost sh' \<le> st_room tab0"
    and "router_step j sh = Some sh'" "j \<noteq> i"
  shows "snapshot tab root m route i sh'"
  using assms(4)
proof (cases rule: router_step_cases)
  case (change oper h root' tab')
  note inv = assms(2) [unfolded shared_inv_def]
  have "sh_cost sh' = sh_cost sh + length (parse_route (op_route oper))"
    by (simp add: change sh_cost_def set_pc_def route_cost_def)
  then have "length (parse_route (op_route oper)) \<le> st_room (sh_syms sh)"
    using inv assms(3) by simp
  then have "symtab_ok tab' \<and> symtab_extends (sh_syms sh) tab'"
    using route_step_refines [OF _ _ _ change(2)] inv by blast
  then have "same_reading tab tab'"
    using assms(1) symtab_extends_trans by (auto simp: snapshot_def same_reading_def symtab_ok_def)
  moreover have "\<not> holds_shared (sh_pcs sh i)"
    using mutex_change(3) [OF _ change(1)] inv by blast
  ultimately show ?thesis
    using assms(1,5) change(3) by (simp add: snapshot_def set_pc_def)
qed (use assms(1,5) in \<open>auto simp: snapshot_def pc_simps\<close>)

lemma event_snapshot:
  assumes "snapshot tab root m route i sh" "shared_inv tab0 sh" "sh_cost sh' \<le> st_room tab0"
    and "router_event e sh = Some sh'" "\<not> calls_router i e"
  shows "snapshot tab root m route i sh'"
proof -
  note snap = assms(1) [unfolded snapshot_def]
  have mutex: "mutex_ok sh"
    using assms(2) by (simp add: shared_inv_def)
  have other: "snapshot tab root m route i (set_pc j pc sh)" if "j \<noteq> i" for j pc
    using snap that by (simp add: snapshot_def set_pc_def)
  show ?thesis
  proof (cases e)
    case (ThreadStep j)
    then have "router_step j sh = Some sh'"
      using assms(4) by (simp add: router_event_def)
    then show ?thesis
      using own_step_snapshot [OF assms(1) mutex] other_step_snapshot [OF assms(1-3)] by blast
  next
    case (Interns str)
    have sh': "sh' = sh\<lparr>sh_syms := snd (internalize str (sh_syms sh)), sh_interned := Suc (sh_interned sh)\<rparr>"
      using assms(4) Interns by (simp add: router_event_def)
    then have room: "0 < st_room (sh_syms sh)"
      using assms(2,3) by (simp add: sh_cost_def shared_inv_def)
    have "symtab_wf (sh_syms sh)"
      using snap by (simp add: same_reading_def)
    note spec = internalize_spec [OF this room surjective_pairing, of str]
    have "same_reading tab (sh_syms sh')"
      using snap spec symtab_extends_trans by (auto simp: same_reading_def sh')
    with snap show ?thesis
      by (simp add: snapshot_def sh')
  next
    case (RouterAnswers j answer)
    then obtain w where w: "sh_pcs sh j = InRouter w" "sh' = set_pc j (router_answers answer w) sh"
      using assms(4) by (cases "sh_pcs sh j") (auto simp: router_event_def)
    show ?thesis
    proof (cases "j = i")
      case True
      with w snap have "on_the_way tab root m route w" "\<not> unmounted root" "sh_root sh = root"
        by simp_all
      then show ?thesis
        using snap unfolding w(2) True
        by (auto simp: snapshot_def set_pc_def router_answers_def on_the_way_def quiet_walker_def Let_def
            split: sum.split)
    qed (use other w in simp)
  next
    case (HandlerThrows j ex)
    with assms(4) snap other show ?thesis
      by (cases "j = i") (auto simp: router_event_def snapshot_def set_pc_def split: router_pc.splits)
  next
    case (UserChanges j oper)
    with assms(4) snap other show ?thesis
      by (cases "j = i") (auto simp: router_event_def running_def snapshot_def set_pc_def split: router_pc.splits)
  qed (use assms(4,5) other in \<open>auto simp: router_event_def split: if_splits\<close>)
qed

lemma run_snapshot:
  assumes "router_run es sh = Some sh'" "snapshot tab root m route i sh" "shared_inv tab0 sh"
    and "sh_cost sh' \<le> st_room tab0" "\<not> list_ex (calls_router i) es"
  shows "snapshot tab root m route i sh'"
  using assms
proof (induction es arbitrary: sh)
  case (Cons e es)
  then obtain sh1 where step: "router_event e sh = Some sh1" "router_run es sh1 = Some sh'"
    by (auto split: option.splits)
  then have cost: "sh_cost sh1 \<le> st_room tab0"
    using run_cost Cons.prems(4) le_trans by blast
  have "\<not> calls_router i e" "\<not> list_ex (calls_router i) es"
    using Cons.prems(5) by simp_all
  with Cons.IH [OF step(2)] event_snapshot [OF Cons.prems(2,3) cost step(1)]
    event_inv [OF Cons.prems(3) step(1) cost] Cons.prems(4) show ?case
    by blast
qed simp

lemma lock_snapshot:
  assumes "shared_inv tab sh" "sh_pcs sh i = WantsShared m route" "router_step i sh = Some sh'"
  shows "snapshot (sh_syms sh) (sh_root sh) m route i sh'" "sh_done sh' = sh_done sh"
  using assms(3)
proof (atomize (full), cases rule: router_step_cases)
  case (lock m' route' w mx)
  have "deref (sh_root sh) (wl_last w) = last_at_root (sh_root sh)"
    by (simp add: lock deref_def last_at_root_def)
  with lock assms(1,2) show "snapshot (sh_syms sh) (sh_root sh) m route i sh' \<and> sh_done sh' = sh_done sh"
    by (auto simp: snapshot_def set_pc_def same_reading_def shared_inv_def symtab_ok_def on_the_way_def
        quiet_walker_def walk_goal_def deref_def)
qed (use assms(2) in simp_all)


section \<open>Steps left\<close>

fun steps_left :: "('r, 'f) router_pc \<Rightarrow> nat" where
  "steps_left (WantsShared m route) = 3 * length route + 7"
| "steps_left (AtNode w) = 3 * length (wl_rest w) + 6"
| "steps_left (InRouter w) = 3 * length (wl_rest w) + 5"
| "steps_left (Descending w) = 3 * length (wl_rest w) + 4"
| "steps_left (Stopped w) = 3"
| "steps_left (InHandler f) = 2"
| "steps_left (Unlocking r) = 1"
| "steps_left _ = 0"

fun own_event :: "nat \<Rightarrow> ('r, 'f) router_event \<Rightarrow> bool" where
  "own_event i (ThreadStep j) = (j = i)"
| "own_event i (RouterAnswers j a) = (j = i)"
| "own_event i (HandlerThrows j e) = (j = i)"
| "own_event i _ = False"

fun changes_router :: "nat \<Rightarrow> ('r, 'f) router_event \<Rightarrow> bool" where
  "changes_router i (UserChanges j oper) = (j = i)"
| "changes_router i _ = False"

definition requesting :: "('r, 'f) router_pc \<Rightarrow> bool" where
  "requesting pc \<longleftrightarrow> (\<exists>r. pc = Answered r) \<or> 0 < steps_left pc"

lemma step_other: "router_step j sh = Some sh' \<Longrightarrow> j \<noteq> i \<Longrightarrow> sh_pcs sh' i = sh_pcs sh i"
  by (erule router_step_cases) (simp_all add: set_pc_def)

lemma own_step_left:
  assumes "router_step i sh = Some sh'" "requesting (sh_pcs sh i)"
  shows "requesting (sh_pcs sh' i)" "steps_left (sh_pcs sh' i) < steps_left (sh_pcs sh i)"
  using assms(1)
proof (atomize (full), cases rule: router_step_cases)
  case (descend w pc)
  from descend(2) have "requesting pc \<and> steps_left pc < steps_left (Descending w :: ('a, 'b) router_pc)"
    by (rule descend_cases) (auto simp: requesting_def)
  with descend show "requesting (sh_pcs sh' i) \<and> steps_left (sh_pcs sh' i) < steps_left (sh_pcs sh i)"
    by (simp add: set_pc_def)
qed (use assms(2) in \<open>auto simp: requesting_def set_pc_def split: prod.splits option.splits\<close>)

lemma event_left:
  assumes "router_event e sh = Some sh'" "requesting (sh_pcs sh i)"
    and "\<not> calls_router i e" "\<not> changes_router i e"
  shows "requesting (sh_pcs sh' i) \<and>
    steps_left (sh_pcs sh' i) + (if own_event i e then 1 else 0) \<le> steps_left (sh_pcs sh i)"
proof (cases e)
  case (ThreadStep j)
  then have "router_step j sh = Some sh'"
    using assms(1) by (simp add: router_event_def)
  with ThreadStep own_step_left [of i sh sh'] step_other [of j sh sh' i] assms(2) show ?thesis
    by (cases "j = i") auto
next
  case (RouterAnswers j a)
  then show ?thesis
    using assms(1,2) by (cases "j = i"; cases "sh_pcs sh j")
      (auto simp: router_event_def router_answers_def requesting_def set_pc_def Let_def split: sum.split if_splits)
qed (use assms in \<open>auto simp: router_event_def running_def requesting_def set_pc_def split: if_splits router_pc.splits\<close>)

lemma run_left:
  assumes "router_run es sh = Some sh'" "requesting (sh_pcs sh i)"
    and "\<not> list_ex (calls_router i) es" "\<not> list_ex (changes_router i) es"
  shows "requesting (sh_pcs sh' i) \<and>
    steps_left (sh_pcs sh' i) + length (filter (own_event i) es) \<le> steps_left (sh_pcs sh i)"
  using assms
proof (induction es arbitrary: sh)
  case (Cons e es)
  then obtain sh1 where step: "router_event e sh = Some sh1" "router_run es sh1 = Some sh'"
    by (auto split: option.splits)
  have "requesting (sh_pcs sh1 i) \<and>
      steps_left (sh_pcs sh1 i) + (if own_event i e then 1 else 0) \<le> steps_left (sh_pcs sh i)"
    using event_left [OF step(1) Cons.prems(2)] Cons.prems(3,4) by simp
  with Cons.IH [OF step(2)] Cons.prems(3,4) show ?case
    by auto
qed simp

text \<open>Some thread can go on, unless user code waits to change the router it was called from.\<close>

lemma holder_moves:
  assumes "pointers_ok (sh_root sh) (sh_pcs sh i)" "holds_shared (sh_pcs sh i)"
    and "\<And>oper code. sh_pcs sh i \<noteq> WantsExclusive oper (Some code)" "\<not> holds_exclusive (sh_pcs sh i)"
  shows "running (sh_pcs sh i) \<noteq> None \<or> router_step i sh \<noteq> None"
proof (cases "sh_pcs sh i")
  case (Descending w)
  then obtain p n where "wl_subroute w = Some p" "deref (sh_root sh) (Some p) = Some n"
    using assms(1) by (cases "wl_subroute w") (auto simp: deref_def)
  then have "descend (sh_syms sh) (sh_root sh) w \<noteq> None"
    by (simp add: descend_def Let_def split: list.split option.split)
  with Descending show ?thesis
    by (simp add: router_step_def)
next
  case (WantsExclusive oper h)
  with assms(2,3) show ?thesis
    by (cases h) auto
qed (use assms in \<open>auto simp: router_step_def running_def\<close>)

lemma some_thread_moves:
  assumes "shared_inv tab sh" "\<And>i oper code. sh_pcs sh i \<noteq> WantsExclusive oper (Some code)"
    and "\<not> resting (sh_pcs sh k)"
  shows "\<exists>i. running (sh_pcs sh i) \<noteq> None \<or> router_step i sh \<noteq> None"
proof -
  note inv = assms(1) [unfolded shared_inv_def]
  consider (writer) i where "holds_exclusive (sh_pcs sh i)"
    | (reader) i where "holds_shared (sh_pcs sh i)" "\<not> holds_exclusive (sh_pcs sh i)"
    | (free) "\<And>i. \<not> holds_exclusive (sh_pcs sh i)" "\<And>i. \<not> holds_shared (sh_pcs sh i)"
    by blast
  then show ?thesis
  proof cases
    case (writer i)
    then show ?thesis
      by (intro exI [of _ i], cases "sh_pcs sh i") (simp_all add: router_step_def split_beta)
  next
    case (reader i)
    then show ?thesis
      using holder_moves [of sh i] inv assms(2) by blast
  next
    case free
    then have "mx_writer (sh_mutex sh) = None" "mx_readers (sh_mutex sh) = {}"
      using inv by (auto simp: mutex_ok_def)
    with assms(3) free(2) [of k] free(1) [of k] show ?thesis
      by (intro exI [of _ k], cases "sh_pcs sh k")
        (auto simp: resting_def router_step_def lock_shared_def lock_exclusive_def)
  qed
qed

section \<open>User code that changes the router it was called from\<close>

lemma blocked_event:
  assumes "mutex_ok sh" "sh_pcs sh i = WantsExclusive oper (Some code)" "router_event e sh = Some sh'"
  shows "sh_pcs sh' i = sh_pcs sh i \<and> sh_done sh' = sh_done sh"
proof (cases e)
  case (ThreadStep j)
  then have "router_step j sh = Some sh'"
    using assms(3) by (simp add: router_event_def)
  then show ?thesis
  proof (cases rule: router_step_cases)
    case (lock_change oper' h mx)
    then have "j \<noteq> i"
      using mutex_free(1) [OF assms(1), of i] assms(2) by (auto simp: lock_exclusive_def split: if_splits)
    with lock_change show ?thesis
      by (simp add: set_pc_def)
  next
    case (change oper' h root tab)
    then show ?thesis
      using mutex_change(3) [OF assms(1) change(1), of i] assms(2) by simp
  qed (use assms(2) in \<open>auto simp: set_pc_def\<close>)
qed (use assms in \<open>auto simp: router_event_def running_def set_pc_def resting_def split: if_splits router_pc.splits\<close>)

lemma blocked_run:
  assumes "mutex_ok sh" "sh_pcs sh i = WantsExclusive oper (Some code)" "router_run es sh = Some sh'"
  shows "mutex_ok sh' \<and> sh_pcs sh' i = sh_pcs sh i \<and> sh_done sh' = sh_done sh"
  using assms
proof (induction es arbitrary: sh)
  case (Cons e es)
  then obtain sh1 where step: "router_event e sh = Some sh1" "router_run es sh1 = Some sh'"
    by (auto split: option.splits)
  with blocked_event [OF Cons.prems(1,2)] event_mutex [OF Cons.prems(1)] Cons.IH [OF _ _ step(2)]
    Cons.prems(2) show ?case
    by simp
qed simp

lemma run_mutex: "router_run es sh = Some sh' \<Longrightarrow> mutex_ok sh \<Longrightarrow> mutex_ok sh'"
  by (induction es arbitrary: sh) (auto dest: event_mutex split: option.splits)


section \<open>A sample router\<close>

text \<open>A handler is registered for \<open>GET\<close> on the root, and a thread calls the router.\<close>

definition sample_start :: "(unit, nat) router_event list" where
  "sample_start = [CallChange 0 (AddCallback 7 '''' GET), ThreadStep 0, ThreadStep 0, CallHandle 1 GET []]"

definition sample_shared :: "(unit, nat) shared_router" where
  "sample_shared =
    \<lparr>sh_root = SubRoute [] None [(GET, 7)], sh_mutex = \<lparr>mx_readers = {}, mx_writer = None\<rparr>, sh_syms = boot_table,
     sh_pcs = (\<lambda>i. Away)(0 := Registered_route, 1 := WantsShared GET []),
     sh_done = [AddCallback 7 '''' GET], sh_interned = 0\<rparr>"

lemma sample_start_run: "router_run sample_start (shared_new boot_table) = Some sample_shared"
  by (simp add: sample_start_def shared_new_def router_event_def resting_def pc_simps router_step_def
      add_route_callback_def sub_route_new_def find_route_start_dropWhile route_update.simps
      sample_shared_def fun_upd_twist)

lemmas sample_steps = sample_shared_def router_event_def resting_def pc_simps router_step_def deref_def
  descend_def endpoint_choice_def select_endpoint_def find_endpoint_def has_catch_all_recursive_def
  meth.find_Cons meth.find_Nil

lemma parse_empty: "parse_route '''' = []"
  by (simp add: parse_route_split)

section \<open>Properties\<close>

lemma unmounted_registered:
  "symtab_ok tab \<Longrightarrow> tree_ok tab root \<Longrightarrow> rt_router (table_of tab root) = (\<lambda>p. None) \<Longrightarrow> unmounted root"
  by (rule unmounted_table) (simp_all add: symtab_ok_def)

text \<open>C8: However the steps of requests and of changes to a router are mixed, a request sees one tree:
  the handler it calls, or its other answer, is what the table says that the changes made before
  it took the mutex amount to, although it reads the tree node by node while other threads wait
  to change it and make new symbols; while it holds the mutex the tree does not change.\<close>

theorem dispatch_sees_one_tree:
  fixes route
  assumes "symtab_ok tab" "router_run es0 (shared_new tab) = Some sh" "sh_pcs sh i = WantsShared m route"
    and "router_run (ThreadStep i # es) sh = Some sh'" "\<not> list_ex (calls_router i) es" "sh_cost sh' \<le> st_room tab"
  defines "t \<equiv> fold table_step (sh_done sh) table_empty"
  defines "says \<equiv> \<lambda>out. \<exists>res. (rt_router t = (\<lambda>p. None) \<longrightarrow> res = NotFound) \<and> table_finish t m route res = out"
  shows "(\<forall>f. sh_pcs sh' i = InHandler f \<longrightarrow> says (Some f, Handled)) \<and>
    (\<forall>res. sh_pcs sh' i = Answered (Inr res) \<longrightarrow> res \<noteq> Handled \<longrightarrow> says (None, res)) \<and>
    (i \<in> mx_readers (sh_mutex sh') \<longrightarrow> sh_root sh' = sh_root sh)"
proof -
  obtain sh1 where first: "router_step i sh = Some sh1" "router_run es sh1 = Some sh'"
    using assms(4) by (auto simp: router_event_def split: option.splits)
  have cost: "sh_cost sh \<le> st_room tab" "sh_cost sh1 \<le> st_room tab"
    using run_cost [OF assms(4)] run_cost [OF first(2)] assms(6) by simp_all
  have inv: "shared_inv tab sh"
    by (rule run_inv [OF assms(2) shared_inv_new [OF assms(1)] cost(1)])
  note inv1 = step_tree [OF inv first(1) cost(2)]
  have snap: "snapshot (sh_syms sh) (sh_root sh) m route i sh'"
    by (rule run_snapshot [OF first(2) lock_snapshot(1) [OF inv assms(3) first(1)] inv1 assms(6,5)])
  have ok: "symtab_ok (sh_syms sh)" "tree_ok (sh_syms sh) (sh_root sh)" "table_of (sh_syms sh) (sh_root sh) = t"
    using inv by (simp_all add: shared_inv_def t_def)
  have says: "says out" if "decided (sh_syms sh) (sh_root sh) m route out" for out
    using that unmounted_registered [OF ok(1,2)] choice_table [OF ok(1), of route "sh_root sh"]
    unfolding says_def decided_def walk_goal_def ok(3) by metis
  have "mutex_ok sh'"
    using run_inv [OF first(2) inv1 assms(6)] by (simp add: shared_inv_def)
  then show ?thesis
    using snap says by (auto simp: snapshot_def mutex_ok_def)
qed

theorem dispatch_sees_one_tree_witness:
  "\<exists>sh'. router_run [ThreadStep 1, CallChange 2 (RemoveRoute ''''), ThreadStep 1, Interns ''x'', ThreadStep 1,
      ThreadStep 1] sample_shared = Some sh' \<and>
    sh_pcs sh' 1 = InHandler 7 \<and> sh_root sh' = sh_root sample_shared \<and>
    table_finish (fold table_step [AddCallback (7::nat) '''' GET] (table_empty :: (unit, nat) route_table))
      GET [] NotFound = (Some 7, Handled)"
proof -
  let ?es = "[CallChange 2 (RemoveRoute ''''), ThreadStep 1, Interns ''x'', ThreadStep 1, ThreadStep 1]"
  obtain sh' where run: "router_run (ThreadStep 1 # ?es) sample_shared = Some sh'"
    and pc: "sh_pcs sh' 1 = InHandler 7" and reads: "1 \<in> mx_readers (sh_mutex sh')"
    and "sh_done sh' = [AddCallback 7 '''' GET]" "sh_interned sh' = 1"
    by (simp add: sample_steps)
  then have cost: "sh_cost sh' \<le> st_room boot_table"
    by (simp add: sh_cost_def route_cost_def parse_empty boot_room)
  have "sh_pcs sample_shared 1 = WantsShared GET []" "sh_done sample_shared = [AddCallback 7 '''' GET]"
    by (simp_all add: sample_shared_def)
  note one_tree = dispatch_sees_one_tree [OF symtab_ok_boot sample_start_run this(1) run _ cost, unfolded this(2)]
  have "rt_router (fold table_step [AddCallback (7::nat) '''' GET] (table_empty :: (unit, nat) route_table)) = (\<lambda>p. None)"
    by (simp add: table_touch_def table_empty_def)
  with one_tree pc reads run show ?thesis
    by auto
qed

text \<open>C20: No deadlock: a request that has called a router makes at most \<open>3 n + 7\<close> steps for a route of
  \<open>n\<close> components, and until it is answered and all other requests and changes are done too, some
  thread is inside a handler or a mounted router, or can make a step in the router's own code, if
  no handler, the router's own or one of a router mounted in it, is changing the router while a
  request to it is handled.\<close>

theorem router_threads_go_on:
  fixes route
  assumes "symtab_ok tab" "router_run es0 (shared_new tab) = Some sh" "sh_pcs sh i = WantsShared m route"
    and "router_run es sh = Some sh'" "\<not> list_ex (calls_router i) es" "\<not> list_ex (changes_router i) es"
    and "sh_cost sh' \<le> st_room tab" "\<And>j oper code. sh_pcs sh' j \<noteq> WantsExclusive oper (Some code)"
  shows "length (filter (own_event i) es) \<le> 3 * length route + 7 \<and>
    ((\<exists>answer. sh_pcs sh' i = Answered answer) \<and> (\<forall>k. resting (sh_pcs sh' k)) \<or>
     (\<exists>j. running (sh_pcs sh' j) \<noteq> None \<or> router_step j sh' \<noteq> None))"
proof -
  have "requesting (sh_pcs sh i)"
    using assms(3) by (simp add: requesting_def)
  note left = run_left [OF assms(4) this assms(5,6)]
  have "sh_cost sh \<le> st_room tab"
    using run_cost [OF assms(4)] assms(7) by simp
  then have inv: "shared_inv tab sh'"
    using run_inv [OF assms(4) _ assms(7)] run_inv [OF assms(2) shared_inv_new [OF assms(1)]] by blast
  have "resting (sh_pcs sh' i) \<Longrightarrow> \<exists>answer. sh_pcs sh' i = Answered answer"
    using left by (cases "sh_pcs sh' i") (auto simp: resting_def requesting_def)
  then show ?thesis
    using left assms(3) some_thread_moves [OF inv assms(8)] by (cases "\<forall>k. resting (sh_pcs sh' k)") auto
qed

theorem router_threads_go_on_witness:
  "\<exists>sh' j. router_run [ThreadStep 1, CallChange 2 (RemoveRoute ''''), ThreadStep 1] sample_shared = Some sh' \<and>
    router_step j sh' \<noteq> None"
proof -
  let ?es = "[ThreadStep 1, CallChange 2 (RemoveRoute ''''), ThreadStep 1]"
  obtain sh' where run: "router_run ?es sample_shared = Some sh'"
    and pcs: "sh_pcs sh' = (\<lambda>i. Away)(0 := Registered_route, 1 := Descending \<lparr>wl_method = GET, wl_rest = [],
      wl_subroute = Some [], wl_last = None, wl_result = NotFound\<rparr>, 2 := WantsExclusive (RemoveRoute '''') None)"
    and "sh_done sh' = [AddCallback 7 '''' GET]" "sh_interned sh' = 0"
    by (simp add: sample_steps fun_upd_twist)
  then have cost: "sh_cost sh' \<le> st_room boot_table"
    by (simp add: sh_cost_def route_cost_def parse_empty boot_room)
  have "sh_pcs sample_shared 1 = WantsShared GET []"
    by (simp add: sample_shared_def)
  note go_on = router_threads_go_on [OF symtab_ok_boot sample_start_run this run _ _ cost]
  have "sh_pcs sh' j \<noteq> WantsExclusive oper (Some code)" for j oper code
    by (simp add: pcs)
  moreover have "running (sh_pcs sh' j) = None" for j
    by (simp add: pcs running_def)
  ultimately show ?thesis
    using go_on pcs run by fastforce
qed

text \<open>C22: A handler that adds or removes a route of the router that called it never returns, and so a
  mounted router one of whose handlers changes the router it is mounted in: its thread holds the
  mutex shared and waits to hold it exclusively, and from then on no thread ever changes the
  router.\<close>

theorem change_in_handler_blocks:
  assumes "router_run es0 (shared_new tab) = Some sh" "running (sh_pcs sh i) = Some code"
    and "router_run (UserChanges i oper # es) sh = Some sh'"
  shows "sh_pcs sh' i = WantsExclusive oper (Some code) \<and> router_step i sh' = None \<and> sh_done sh' = sh_done sh"
proof -
  define sh1 where "sh1 = set_pc i (WantsExclusive oper (Some code)) sh"
  have first: "router_event (UserChanges i oper) sh = Some sh1"
    using assms(2) by (simp add: router_event_def sh1_def)
  then have run: "router_run es sh1 = Some sh'"
    using assms(3) by simp
  have "mutex_ok (shared_new tab)"
    by (simp add: shared_new_def mutex_ok_def)
  then have "mutex_ok sh1"
    using run_mutex [OF assms(1)] event_mutex [OF _ first] by blast
  note blocked = blocked_run [OF this _ run, of i oper code]
  have "mx_readers (sh_mutex sh') \<noteq> {}" if "mutex_ok sh'" "sh_pcs sh' i = WantsExclusive oper (Some code)"
    using mutex_free(1) [OF that(1), of i] that(2) by auto
  with blocked show ?thesis
    by (simp add: sh1_def set_pc_def router_step_def lock_exclusive_def)
qed

theorem change_in_handler_blocks_witness:
  "\<exists>sh sh'. router_run [ThreadStep 1, ThreadStep 1, ThreadStep 1, ThreadStep 1] sample_shared = Some sh \<and>
    router_run [UserChanges 1 (RemoveRoute ''''), CallChange 2 (RemoveRoute '''')] sh = Some sh' \<and>
    router_step 1 sh' = None"
proof -
  let ?es = "[ThreadStep 1, ThreadStep 1, ThreadStep 1, ThreadStep 1]"
  obtain sh where sh: "router_run ?es sample_shared = Some sh" "sh_pcs sh 1 = InHandler 7" "sh_pcs sh 2 = Away"
    by (simp add: sample_steps)
  obtain sh' where run: "router_run [UserChanges 1 (RemoveRoute ''''), CallChange 2 (RemoveRoute '''')] sh = Some sh'"
    using sh(2,3) by (simp add: router_event_def running_def set_pc_def resting_def)
  have "router_run (sample_start @ ?es) (shared_new boot_table) = Some sh"
    using sh(1) by (simp only: run_append sample_start_run option.case)
  moreover have "running (sh_pcs sh 1) = Some (InsideHandler 7)"
    using sh(2) by (simp add: running_def)
  ultimately show ?thesis
    using change_in_handler_blocks [OF _ _ run] sh(1) run by blast
qed

end
