(* ===== verification/RequestStream.thy ===== *)
theory RequestStream
  imports Response
begin

text \<open>
  \<open>request_stream.cpp\<close>: the formatter whose text goes to one of a request's two channels,
  with the insertion of \<open>HTMLContent\<close>, and the two functions of \<open>request.cpp\<close> that make
  such streams.  The pointer to a member function is one of the two channels.
\<close>

section \<open>Streams\<close>

datatype stream_channel = WriteChannel | ErrorChannel

record request_stream =
  rs_format :: GenericFormat
  rs_channel :: stream_channel

text \<open>The body's stream takes its format from the encoding, which must have been set.\<close>

definition write_stream :: "('c, 'd) request \<Rightarrow> request_stream option" where
  "write_stream rq =
    map_option (\<lambda>e. \<lparr>rs_format = to_format e, rs_channel = WriteChannel\<rparr>) (rq_encoding rq)"

definition error_stream :: request_stream where
  "error_stream = \<lparr>rs_format = GF_UTF8, rs_channel = ErrorChannel\<rparr>"

definition rs_real_append ::
  "('c, 'd) request_io \<Rightarrow> stream_channel \<Rightarrow> string \<Rightarrow> ('c, 'd) request \<Rightarrow> ('c, 'd) request" where
  "rs_real_append io channel s rq =
    (case channel of
       WriteChannel \<Rightarrow> snd (request_write io s rq)
     | ErrorChannel \<Rightarrow> snd (request_error io s rq))"

definition rs_put ::
  "('c, 'd) request_io \<Rightarrow> request_stream \<Rightarrow> fmt_arg \<Rightarrow> ('c, 'd) request \<Rightarrow> ('c, 'd) request" where
  "rs_put io rs arg rq =
    fold (rs_real_append io (rs_channel rs)) (fst (put_arg (rq_syms rq) (rs_format rs) arg)) rq"

text \<open>The format is switched to \<open>HTMLContent\<close> for the one insertion.\<close>

definition rs_put_html ::
  "('c, 'd) request_io \<Rightarrow> request_stream \<Rightarrow> string \<Rightarrow> ('c, 'd) request \<Rightarrow> ('c, 'd) request" where
  "rs_put_html io rs content rq =
    (if rs_format rs = GF_HTML
     then rs_put io (rs\<lparr>rs_format := GF_HTMLContent\<rparr>) (View content) rq
     else rs_put io rs (View content) rq)"

datatype stream_item = Arg fmt_arg | Content string

fun rs_item ::
  "('c, 'd) request_io \<Rightarrow> request_stream \<Rightarrow> stream_item \<Rightarrow> ('c, 'd) request \<Rightarrow> ('c, 'd) request"
where
  "rs_item io rs (Arg a) rq = rs_put io rs a rq"
| "rs_item io rs (Content s) rq = rs_put_html io rs s rq"

section \<open>The streams as sinks of text\<close>

lemma stream_append_flags:
  "rq_headers_sent (rs_real_append io WriteChannel s rq)"
  "rq_syms (rs_real_append io channel s rq) = rq_syms rq"
  by (simp_all add: rs_real_append_def request_write_def request_error_def send_headers_def Let_def
      split_beta split: stream_channel.split)

lemma stream_append_write:
  assumes "io_cgi io = mock_ops" "rq_headers_sent rq"
  shows "m_writebuf (rq_cgi (rs_real_append io WriteChannel s rq)) = m_writebuf (rq_cgi rq) @ s"
proof -
  have "send_headers io rq = rq"
    using assms(2) by (simp add: send_headers_def)
  then show ?thesis
    by (simp add: rs_real_append_def request_write_def assms(1) split_beta
        mock_streams.write_written)
qed

lemma stream_append_error:
  assumes "io_cgi io = mock_ops"
  shows "m_errorbuf (rq_cgi (rs_real_append io ErrorChannel s rq)) = m_errorbuf (rq_cgi rq) @ s"
  by (simp add: rs_real_append_def request_error_def assms split_beta mock_streams.error_reported)

text \<open>A request on in-memory data, with any callback and any order of the headers.\<close>

definition mock_io ::
  "'c log_message \<Rightarrow> (header_map \<Rightarrow> header_map) \<Rightarrow> ('c, mock_cgi) request_io" where
  "mock_io lm order = \<lparr>io_log = lm, io_cgi = mock_ops, io_order = order\<rparr>"

interpretation body: text_sink "rs_real_append (mock_io lm order) WriteChannel"
  "\<lambda>rq. m_writebuf (rq_cgi rq)" rq_headers_sent
  by unfold_locales (simp_all add: stream_append_write stream_append_flags mock_io_def)

interpretation err: text_sink "rs_real_append (mock_io lm order) ErrorChannel"
  "\<lambda>rq. m_errorbuf (rq_cgi rq)" "\<lambda>_. True"
  by unfold_locales (simp_all add: stream_append_error mock_io_def)

lemma stream_syms:
  "rq_syms (fold (rs_real_append io channel) ts rq) = rq_syms rq"
  by (induction ts arbitrary: rq) (simp_all add: stream_append_flags)

text \<open>The text of an item on a stream of a given format.\<close>

fun item_text :: "symtab \<Rightarrow> GenericFormat \<Rightarrow> stream_item \<Rightarrow> string" where
  "item_text tab fmt (Arg a) = out_text (put_arg tab fmt a)"
| "item_text tab fmt (Content s) =
     out_text (put_string_view (if fmt = GF_HTML then GF_HTMLContent else fmt) s)"

lemma stream_item:
  assumes "rq_headers_sent rq" "rs_channel rs = WriteChannel"
  shows "m_writebuf (rq_cgi (rs_item (mock_io lm order) rs i rq)) =
      m_writebuf (rq_cgi rq) @ item_text (rq_syms rq) (rs_format rs) i"
    and "rq_headers_sent (rs_item (mock_io lm order) rs i rq)"
    and "rq_syms (rs_item (mock_io lm order) rs i rq) = rq_syms rq"
  using assms
  by (cases i; simp add: rs_put_def rs_put_html_def body.append_all stream_syms)+

lemma stream_items:
  assumes "rq_headers_sent rq" "rs_channel rs = WriteChannel"
  shows "m_writebuf (rq_cgi (fold (rs_item (mock_io lm order) rs) is rq)) =
      m_writebuf (rq_cgi rq) @ concat (map (item_text (rq_syms rq) (rs_format rs)) is)"
  using assms(1)
proof (induction "is" arbitrary: rq)
  case (Cons i "is")
  note item = stream_item [OF Cons.prems assms(2), where lm = lm and order = order and i = i]
  show ?case
    using Cons.IH [OF item(2)] item(1,3) by simp
qed simp

section \<open>When the encoding has a value\<close>

fun is_content_type :: "request_call \<Rightarrow> bool" where
  "is_content_type (SetContentType ct) = True"
| "is_content_type (SetContentTypeEncoding ct e) = True"
| "is_content_type _ = False"

fun is_set_encoding :: "request_call \<Rightarrow> bool" where
  "is_set_encoding (SetEncoding e) = True"
| "is_set_encoding _ = False"

lemma only_env_flags:
  "only_env rq rq' \<Longrightarrow> rq_encoding rq' = rq_encoding rq \<and> rq_headers_sent rq' = rq_headers_sent rq"
  by (simp add: only_env_def)

lemma set_header_flags:
  "rq_encoding (snd (set_header io k v rq)) = rq_encoding rq"
  "rq_headers_sent (snd (set_header io k v rq)) = rq_headers_sent rq"
  "fst (set_header io k v rq) = (\<not> rq_headers_sent rq)"
proof -
  have "rq_encoding (issue_headers_sent_warning io k rq) = rq_encoding rq \<and>
      rq_headers_sent (issue_headers_sent_warning io k rq) = rq_headers_sent rq"
    using warning_effect [where rq = rq and io = io and key = k] only_env_flags by fastforce
  then show "rq_encoding (snd (set_header io k v rq)) = rq_encoding rq"
    "rq_headers_sent (snd (set_header io k v rq)) = rq_headers_sent rq"
    "fst (set_header io k v rq) = (\<not> rq_headers_sent rq)"
    by (simp_all add: set_header_def)
qed

lemma send_flags:
  "rq_encoding (send_headers io rq) = rq_encoding rq" "rq_headers_sent (send_headers io rq)"
  "rq_encoding (snd (request_write io s rq)) = rq_encoding rq"
  "rq_headers_sent (snd (request_write io s rq))"
  by (simp_all add: send_headers_def request_write_def Let_def split_beta)

lemma call_flags:
  "(rq_encoding (call_step io c rq) \<noteq> None \<longleftrightarrow>
     rq_encoding rq \<noteq> None \<or> is_set_encoding c \<or> is_content_type c \<and> \<not> rq_headers_sent rq) \<and>
   (rq_headers_sent (call_step io c rq) \<longleftrightarrow> rq_headers_sent rq \<or> sends c)"
  using only_env_flags [OF only_env_env [of rq io]] only_env_flags [OF only_env_accessors(1) [of rq io]]
    only_env_flags [OF only_env_accessors(2) [of rq io]]
    only_env_flags [OF only_env_accessors(3) [of rq io]]
    only_env_flags [OF only_env_accessors(4) [of rq io]]
    only_env_flags [OF only_env_accessors(5) [of rq io]]
    only_env_flags [OF only_env_accessors(6) [of rq io]]
    only_env_flags [OF only_env_accessors(7) [of rq io]]
    only_env_flags [OF only_env_accessors(8) [of rq]]
  by (cases c)
    (simp_all add: set_header_flags send_flags set_header_int_def set_http_status_def
      set_content_type_def set_content_type_encoding_def set_encoding_def flush_write_def
      flush_error_def request_error_def request_read_def split_beta split: option.split)

lemma run_flags:
  "rq_encoding (fold (call_step io) cs rq) \<noteq> None \<longleftrightarrow>
     rq_encoding rq \<noteq> None \<or> list_ex is_set_encoding cs \<or>
     \<not> rq_headers_sent rq \<and> list_ex is_content_type (takeWhile (\<lambda>c. \<not> sends c) cs)"
proof (induction cs arbitrary: rq)
  case (Cons c cs)
  have "\<not> (is_content_type c \<and> sends c)"
    by (cases c) simp_all
  then show ?case
    using Cons.IH [of "call_step io c rq"] call_flags [of io c rq] by auto
qed simp

section \<open>Properties\<close>

text \<open>Text streamed into the body of a request whose headers are sent arrives in order and
  nothing else does: each insertion contributes the text the formatter makes of it in the
  stream's format, and \<open>HTMLContent\<close> on an HTML stream contributes text that cannot open or
  close a tag, whatever bytes it is made from.\<close>

theorem streamed_body:
  assumes "rq_headers_sent rq" "write_stream rq = Some rs"
  shows "m_writebuf (rq_cgi (fold (rs_item (mock_io lm order) rs) is rq)) =
      m_writebuf (rq_cgi rq) @ concat (map (item_text (rq_syms rq) (rs_format rs)) is) \<and>
    (rs_format rs = GF_HTML \<longrightarrow>
      {CHR ''<'', CHR ''>''} \<inter> set (item_text (rq_syms rq) (rs_format rs) (Content s)) = {})"
proof -
  have "rs_channel rs = WriteChannel"
    using assms(2) by (auto simp: write_stream_def)
  moreover have "CHR ''<'' \<notin> set (out_text (put_string_view GF_HTMLContent s))"
    "CHR ''>'' \<notin> set (out_text (put_string_view GF_HTMLContent s))"
    using glyph_text_no_markup by (auto simp: put_string_view_text simp del: glyph_text_def)
  ultimately show ?thesis
    using stream_items [OF assms(1)] by simp
qed

definition sample_html :: "(mock_logger, mock_cgi) request" where
  "sample_html = send_headers sample_io
    (snd (set_content_type sample_io ''text/html'' (sample_request [])))"

theorem streamed_body_witness:
  "m_writebuf (rq_cgi (fold (rs_item (mock_io mock_log_message rev)
      \<lparr>rs_format = GF_HTML, rs_channel = WriteChannel\<rparr>) [Arg (View ''<b>''), Content ''a<b''] sample_html)) =
   m_writebuf (rq_cgi sample_html) @ ''<b>a&lt;b''"
proof -
  have "rq_headers_sent sample_html"
    by (simp add: sample_html_def send_flags)
  moreover have "write_stream sample_html = Some \<lparr>rs_format = GF_HTML, rs_channel = WriteChannel\<rparr>"
    by (simp add: sample_html_def send_flags write_stream_def set_content_type_def
        set_content_type_encoding_def set_header_def sample_request_def request_new_def
        detect_encoding_def)
  ultimately show ?thesis
    using streamed_body [of sample_html "\<lparr>rs_format = GF_HTML, rs_channel = WriteChannel\<rparr>"
        mock_log_message rev "[Arg (View ''<b>''), Content ''a<b'']"]
    by (simp add: formatter_eval)
qed

text \<open>The body's stream has a format only after \<open>set_encoding\<close>, or a content type set before
  the headers were sent; otherwise making it reads a member that was never initialised.\<close>

theorem write_stream_needs_encoding:
  "write_stream (fold (call_step io) cs (request_new tab d lg)) = None \<longleftrightarrow>
    \<not> list_ex is_set_encoding cs \<and> \<not> list_ex is_content_type (takeWhile (\<lambda>c. \<not> sends c) cs)"
  using run_flags [of io cs "request_new tab d lg"]
  by (auto simp: write_stream_def request_new_def)

end
