(* ===== verification/Server.thy ===== *)
theory Server
  imports RequestStream Mounting
begin

text \<open>
  \<open>server.cpp\<close> and \<open>i_log_callback.cpp\<close>: the server's state and the operations the
  program calls on it, the loop of a worker thread with everything it does for one request, and
  the maintenance thread.  libfcgi and the operating system are the record \<open>platform\<close> and the
  results of accepting.  A worker's iteration is one step here, during which it alone uses the
  symbol table and the log; \<open>Workers\<close> cuts it where signals and other workers come between,
  and how the table behaves between threads is in \<open>SymbolRace\<close>.
\<close>

section \<open>State\<close>

text \<open>A registered router, or the one \<open>add_threads\<close> falls back to.\<close>

datatype 'r server_router = Registered 'r | EmptyRouter

datatype server_thread = Ticker | Worker u64

record ('c, 'r, 'u) server =
  srv_syms :: symtab
  srv_logger :: "'c logger"
  srv_socket_path :: string
  srv_socket_fd :: int
  srv_router :: "'r server_router option"
  srv_threads :: "server_thread list"
  srv_last_thread_id :: u64
  srv_global_context :: "'u option"
  srv_create_thread_context :: "('u option \<Rightarrow> 'u option) option"
  srv_tick_interval :: int

definition server_new :: "symtab \<Rightarrow> 'c \<Rightarrow> ('c, 'r, 'u) server" where
  "server_new tab console_callback =
    \<lparr>srv_syms = tab, srv_logger = set_log_callback (Some console_callback) logger_new,
     srv_socket_path = '''', srv_socket_fd = 0, srv_router = None, srv_threads = [],
     srv_last_thread_id = 0, srv_global_context = None, srv_create_thread_context = None,
     srv_tick_interval = 60\<rparr>"

definition server_log ::
  "'c log_message \<Rightarrow> LogLevel \<Rightarrow> string \<Rightarrow> ('c, 'r, 'u) server \<Rightarrow> ('c, 'r, 'u) server" where
  "server_log lm level message srv = srv\<lparr>srv_logger := logger_log lm level message (srv_logger srv)\<rparr>"

definition server_log_line ::
  "'c log_message \<Rightarrow> LogLevel \<Rightarrow> fmt_arg list \<Rightarrow> ('c, 'r, 'u) server \<Rightarrow> ('c, 'r, 'u) server" where
  "server_log_line lm level args srv =
    srv\<lparr>srv_logger := log_line lm (srv_syms srv) level args (srv_logger srv)\<rparr>"

definition server_logger :: "('c, 'r, 'u) server \<Rightarrow> 'c logger" where
  "server_logger srv = srv_logger srv"

section \<open>Configuration\<close>

definition set_router ::
  "'c log_message \<Rightarrow> 'r option \<Rightarrow> ('c, 'r, 'u) server \<Rightarrow> ('c, 'r, 'u) server" where
  "set_router lm router srv =
    (case router of
       None \<Rightarrow> server_log lm Error ''Attempted to register an invalid router'' srv
     | Some r \<Rightarrow> srv\<lparr>srv_router := Some (Registered r)\<rparr>)"

definition set_global_context :: "'u option \<Rightarrow> ('c, 'r, 'u) server \<Rightarrow> ('c, 'r, 'u) server" where
  "set_global_context new_context srv = srv\<lparr>srv_global_context := new_context\<rparr>"

definition set_thread_context ::
  "('u option \<Rightarrow> 'u option) option \<Rightarrow> ('c, 'r, 'u) server \<Rightarrow> ('c, 'r, 'u) server" where
  "set_thread_context create srv = srv\<lparr>srv_create_thread_context := create\<rparr>"

definition set_thread_context_tick_interval :: "int \<Rightarrow> ('c, 'r, 'u) server \<Rightarrow> ('c, 'r, 'u) server" where
  "set_thread_context_tick_interval seconds srv = srv\<lparr>srv_tick_interval := seconds\<rparr>"

section \<open>Start and end\<close>

text \<open>What the server asks of libfcgi and of the C library, and what it tells them.\<close>

record platform =
  FCGX_Init :: int
  FCGX_IsCGI :: bool
  FCGX_OpenSocket :: "string \<Rightarrow> int"
  FCGX_InitRequest :: "int \<Rightarrow> int"
  errno_text :: string
  strerror :: "int \<Rightarrow> string"

datatype server_event =
    FCGX_ShutdownPending
  | Kill server_thread
  | Join server_thread
  | CloseSocket int
  | Unlink string

definition server_initialize ::
  "'c log_message \<Rightarrow> platform \<Rightarrow> string \<Rightarrow> ('c, 'r, 'u) server \<Rightarrow> bool \<times> ('c, 'r, 'u) server"
where
  "server_initialize lm pf socket_path srv =
    (if FCGX_Init pf \<noteq> 0 then
       (False, server_log_line lm Error
          [CString ''Error '', I32 (word_of_int (FCGX_Init pf)), CString '' on FCGX_Init''] srv)
     else if FCGX_IsCGI pf then
       (if socket_path = '''' then
          (False, server_log lm Error ''Running as CGI but no socket_path given!'' srv)
        else
          (let sockfd = FCGX_OpenSocket pf socket_path
           in if sockfd = -1 then
                (False, server_log_line lm Error
                   [CString ''Create socket error: '', CString (errno_text pf)] srv)
              else (True, srv\<lparr>srv_socket_path := socket_path, srv_socket_fd := sockfd\<rparr>)))
     else (True, srv\<lparr>srv_socket_fd := 0\<rparr>))"

text \<open>The threads \<open>add_threads\<close> starts, with their numbers.\<close>

fun emplace_workers :: "nat \<Rightarrow> ('c, 'r, 'u) server \<Rightarrow> ('c, 'r, 'u) server" where
  "emplace_workers 0 srv = srv"
| "emplace_workers (Suc n) srv =
     emplace_workers n (srv\<lparr>srv_last_thread_id := srv_last_thread_id srv + 1,
       srv_threads := srv_threads srv @ [Worker (srv_last_thread_id srv + 1)]\<rparr>)"

definition add_threads ::
  "'c log_message \<Rightarrow> u64 \<Rightarrow> ('c, 'r, 'u) server \<Rightarrow> bool \<times> ('c, 'r, 'u) server" where
  "add_threads lm n srv =
    (let srv = (if srv_router srv = None
           then (server_log lm Error ''No router provided, adding an empty route'' srv)
             \<lparr>srv_router := Some EmptyRouter\<rparr>
           else srv);
         srv = server_log_line lm Info [CString ''Starting '', U64 n, CString '' threads''] srv;
         srv = (if srv_threads srv = [] then srv\<lparr>srv_threads := [Ticker]\<rparr> else srv)
     in (True, emplace_workers (unat n) srv))"

definition kill_threads :: "('c, 'r, 'u) server \<Rightarrow> server_event list \<times> ('c, 'r, 'u) server" where
  "kill_threads srv =
    (map Kill (srv_threads srv) @ map Join (srv_threads srv), srv\<lparr>srv_threads := []\<rparr>)"

definition finalize :: "('c, 'r, 'u) server \<Rightarrow> server_event list \<times> ('c, 'r, 'u) server" where
  "finalize srv =
    (let (killed, srv) = kill_threads srv
     in if srv_socket_fd srv \<noteq> 0 then
          (FCGX_ShutdownPending # killed @ [CloseSocket (srv_socket_fd srv), Unlink (srv_socket_path srv)],
           srv\<lparr>srv_socket_fd := 0, srv_socket_path := ''''\<rparr>)
        else (FCGX_ShutdownPending # killed, srv))"

section \<open>The empty router\<close>

definition empty_router_page :: "string list" where
  "empty_router_page =
    [''<!DOCTYPE html>'' @ [CHR 0x0A],
     ''<html lang=\"en\">'' @ [CHR 0x0A],
     ''<head><meta charset=\"utf-8\" /><title>FCGIserver online</title></head>'' @ [CHR 0x0A],
     ''<body>'' @ [CHR 0x0A],
     ''<h1>Hello world</h1>'' @ [CHR 0x0A],
     ''Congratulations! Your server is working. Now it is time to register a router and add some content!'' @ [CHR 0x0A],
     ''</body>'' @ [CHR 0x0A] @ ''</html>'' @ [CHR 0x0A]]"

definition empty_router ::
  "('c, 'd) request_io \<Rightarrow> ('u, 'c, 'd) request_context \<Rightarrow>
   (RouteResult, ('u, 'c, 'd) request_context) outcome"
where
  "empty_router io cx =
    (let (uri, rq) = document_uri io (cx_request cx)
     in if uri \<noteq> ''/'' then (Inr NotFound, cx\<lparr>cx_request := rq\<rparr>)
        else
          (let rq = snd (set_content_type io ''text/html'' rq);
               rq = fold (\<lambda>s rq. snd (request_write io s rq)) empty_router_page rq
           in (Inr Handled, cx\<lparr>cx_request := rq\<rparr>)))"

section \<open>One request\<close>

text \<open>\<open>ILogCallback::log_request\<close>.  The arguments may be evaluated in any order: each only
  reads the environment, which is parsed once.\<close>

definition log_request :: "('c, 'd) request_io \<Rightarrow> ('c, 'd) request \<Rightarrow> ('c, 'd) request" where
  "log_request io rq =
    (case log_callback (rq_logger rq) of
       None \<Rightarrow> rq
     | Some cb \<Rightarrow>
         (let (addr, rq) = remote_addr io rq;
              (port, rq) = remote_port io rq;
              (meth, rq) = request_method_string io rq;
              (uri, rq) = document_uri io rq;
              lf = lf_append (rq_syms rq)
                [View addr, Char (CHR '':''), I32 (word_of_int port), CString '' - '',
                 View (http_status rq), CString '' - '', View meth, Char (CHR '' ''), View uri]
                (lf_new GF_UTF8)
          in rq\<lparr>rq_logger := set_log_callback (Some (io_log io Debug (lf_buffer lf) cb)) (rq_logger rq)\<rparr>))"

definition exception_text :: "u64 \<Rightarrow> exn \<Rightarrow> fmt_arg list" where
  "exception_text tid e =
    (case e of
       StdException what \<Rightarrow>
         [CString ''Uncaught exception in thread '', U64 tid, CString '': '', CString what, CString '' - '']
     | UnknownException \<Rightarrow>
         [CString ''Uncaught unknown exception in thread '', U64 tid, CString '' - ''])"

definition report_exception ::
  "('c, 'd) request_io \<Rightarrow> u64 \<Rightarrow> exn \<Rightarrow> ('c, 'd) request \<Rightarrow> ('c, 'd) request" where
  "report_exception io tid e rq =
    (let (meth, rq) = request_method_string io rq;
         (uri, rq) = document_uri io rq
     in rq\<lparr>rq_logger := log_line (io_log io) (rq_syms rq) Error
          (exception_text tid e @ [View meth, Char (CHR '' ''), View uri]) (rq_logger rq)\<rparr>)"

fun result_status :: "RouteResult \<Rightarrow> u16" where
  "result_status Handled = 200"
| "result_status NotFound = 404"
| "result_status InvalidMethod = 405"
| "result_status InternalError = 500"

definition ensure_status ::
  "('c, 'd) request_io \<Rightarrow> RouteResult \<Rightarrow> ('c, 'd) request \<Rightarrow> ('c, 'd) request" where
  "ensure_status io route_result rq =
    (if http_status rq = '''' then snd (set_http_status io (result_status route_result) rq) else rq)"

text \<open>The stream's format is that of the content type set just before.\<close>

definition ensure_headers :: "('c, 'd) request_io \<Rightarrow> ('c, 'd) request \<Rightarrow> ('c, 'd) request" where
  "ensure_headers io rq =
    (if rq_headers_sent rq then rq
     else if content_type rq = '''' then
       (let rq = snd (set_content_type io ''text/plain'' rq)
        in case write_stream rq of
             None \<Rightarrow> rq
           | Some rs \<Rightarrow> rs_put io rs (View (http_status rq)) rq)
     else send_headers io rq)"

text \<open>A call of a router by the handle the server holds.\<close>

definition call_server_router ::
  "('c, 'd) request_io \<Rightarrow>
   ('r \<Rightarrow> ('u, 'c, 'd) request_context \<Rightarrow> (RouteResult, ('u, 'c, 'd) request_context) outcome) \<Rightarrow>
   'r server_router \<Rightarrow> ('u, 'c, 'd) request_context \<Rightarrow>
   (RouteResult, ('u, 'c, 'd) request_context) outcome"
where
  "call_server_router io call r cx =
    (case r of Registered r \<Rightarrow> call r cx | EmptyRouter \<Rightarrow> empty_router io cx)"

text \<open>Routing with both handlers of exceptions: an exception is logged and is an internal error.\<close>

definition route_request ::
  "('c, 'd) request_io \<Rightarrow>
   ('r \<Rightarrow> ('u, 'c, 'd) request_context \<Rightarrow> (RouteResult, ('u, 'c, 'd) request_context) outcome) \<Rightarrow>
   'r server_router \<Rightarrow> u64 \<Rightarrow> ('u, 'c, 'd) request_context \<Rightarrow>
   RouteResult \<times> ('u, 'c, 'd) request_context"
where
  "route_request io call r tid cx =
    (case call_server_router io call r cx of
       (Inr res, cx) \<Rightarrow> (res, cx)
     | (Inl e, cx) \<Rightarrow> (InternalError, cx\<lparr>cx_request := report_exception io tid e (cx_request cx)\<rparr>))"

definition finish_response ::
  "('c, 'd) request_io \<Rightarrow> RouteResult \<Rightarrow> ('c, 'd) request \<Rightarrow> ('c, 'd) request" where
  "finish_response io route_result rq = ensure_headers io (ensure_status io route_result rq)"

definition publish_global_context ::
  "('u, 'c, 'd) request_context \<Rightarrow> ('c, 'r, 'u) server \<Rightarrow>
   ('u, 'c, 'd) request_context \<times> ('c, 'r, 'u) server"
where
  "publish_global_context cx srv =
    (if cx_replaced_global_context cx
     then (cx\<lparr>cx_replaced_global_context := False\<rparr>, srv\<lparr>srv_global_context := cx_global_context cx\<rparr>)
     else (cx, srv))"

text \<open>
  From the accepted data to the end of the loop's body, where the destructors of the request
  and of its CGI data run.
\<close>

definition serve_request ::
  "('c, 'd) request_io \<Rightarrow> ('d \<Rightarrow> 'd) \<Rightarrow>
   ('r \<Rightarrow> ('u, 'c, 'd) request_context \<Rightarrow> (RouteResult, ('u, 'c, 'd) request_context) outcome) \<Rightarrow>
   'r server_router \<Rightarrow> u64 \<Rightarrow> 'd \<Rightarrow> 'u context_base \<Rightarrow> ('c, 'r, 'u) server \<Rightarrow>
   'd \<times> 'u context_base \<times> ('c, 'r, 'u) server"
where
  "serve_request io finish_cgi call r tid d base srv =
    (let cx = set_request (request_new (srv_syms srv) d (srv_logger srv))
           (base\<lparr>cx_global_context := srv_global_context srv\<rparr>);
         (route_result, cx) = route_request io call r tid cx;
         rq = log_request io (finish_response io route_result (cx_request cx));
         (cx, srv) = publish_global_context cx srv;
         rq = request_destroy io rq
     in (finish_cgi (rq_cgi rq), context_base.truncate cx,
         srv\<lparr>srv_syms := rq_syms rq, srv_logger := rq_logger rq\<rparr>))"

section \<open>A worker thread\<close>

record 'u worker =
  wk_id :: u64
  wk_context :: "'u context_base"
  wk_shutdown :: bool
  wk_tick :: bool

text \<open>What \<open>thread_function\<close> does before its loop; \<open>None\<close> when it returns at once.\<close>

definition worker_start ::
  "'c log_message \<Rightarrow> platform \<Rightarrow> u64 \<Rightarrow> ('c, 'r, 'u) server \<Rightarrow>
   'u worker option \<times> ('c, 'r, 'u) server"
where
  "worker_start lm pf tid srv =
    (let result = FCGX_InitRequest pf (srv_socket_fd srv)
     in if result \<noteq> 0 then
          (None, server_log_line lm Error
             [CString ''Error '', I32 (word_of_int result), CString '' on FCGX_InitRequest: '',
              CString (strerror pf (- result))] srv)
        else
          (let cx = context_new\<lparr>cx_thread_id := unat tid, cx_server := True,
                 cx_thread_context :=
                   (case srv_create_thread_context srv of
                      None \<Rightarrow> None | Some create \<Rightarrow> create (srv_global_context srv))\<rparr>
           in (Some \<lparr>wk_id = tid, wk_context = cx, wk_shutdown = False, wk_tick = False\<rparr>,
               server_log_line lm Debug [CString ''Thread #'', U64 tid, CString '' started''] srv)))"

text \<open>
  What reaches a thread in one round of its loop: the signals since the last round, and the
  result of \<open>FCGX_Accept_r\<close> with the request's data where it is 0.
\<close>

record 'd poll =
  poll_usr1 :: bool
  poll_usr2 :: bool
  poll_result :: int
  poll_data :: 'd

definition receive_signals :: "'d poll \<Rightarrow> 'u worker \<Rightarrow> 'u worker" where
  "receive_signals pl wk =
    wk\<lparr>wk_shutdown := wk_shutdown wk \<or> poll_usr1 pl, wk_tick := wk_tick wk \<or> poll_usr2 pl\<rparr>"

text \<open>Maintenance: \<open>tick\<close> is the virtual function of the thread's context.\<close>

definition worker_tick :: "('u \<Rightarrow> 'u) \<Rightarrow> 'u worker \<Rightarrow> 'u worker" where
  "worker_tick tick wk =
    (if wk_tick wk
     then wk\<lparr>wk_tick := False,
       wk_context := (wk_context wk)\<lparr>cx_thread_context := map_option tick (cx_thread_context (wk_context wk))\<rparr>\<rparr>
     else wk)"

definition EINTR :: int where
  "EINTR = 4"

text \<open>How a round ends: with the next one, with the loop's end, or at a null router.\<close>

datatype 'd round_end = NextRound "'d option" | LeaveLoop | NullRouter

definition worker_round ::
  "('c, 'd) request_io \<Rightarrow> platform \<Rightarrow> ('d \<Rightarrow> 'd) \<Rightarrow> ('u \<Rightarrow> 'u) \<Rightarrow>
   ('r \<Rightarrow> ('u, 'c, 'd) request_context \<Rightarrow> (RouteResult, ('u, 'c, 'd) request_context) outcome) \<Rightarrow>
   'd poll \<Rightarrow> 'u worker \<Rightarrow> ('c, 'r, 'u) server \<Rightarrow> 'd round_end \<times> 'u worker \<times> ('c, 'r, 'u) server"
where
  "worker_round io pf finish_cgi tick call pl wk srv =
    (let wk = receive_signals pl wk
     in if wk_shutdown wk then (LeaveLoop, wk, srv)
        else
          (let wk = worker_tick tick wk; result = poll_result pl
           in if result \<noteq> 0 then
                (if result = -9999 then (LeaveLoop, wk\<lparr>wk_shutdown := True\<rparr>, srv)
                 else if result \<noteq> - EINTR then
                   (LeaveLoop, wk, server_log_line (io_log io) Error
                      [CString ''Error '', I32 (word_of_int result), CString '' on FCGX_Accept_r: '',
                       CString (strerror pf (- result))] srv)
                 else (NextRound None, wk, srv))
              else
                (case srv_router srv of
                   None \<Rightarrow> (NullRouter, wk, srv)
                 | Some r \<Rightarrow>
                     (let (d, cx, srv) = serve_request io finish_cgi call r (wk_id wk) (poll_data pl)
                            (wk_context wk) srv
                      in (NextRound (Some d), wk\<lparr>wk_context := cx\<rparr>, srv)))))"

datatype loop_state = Running | Finished | Crashed

text \<open>The loop over what reaches the thread; it collects the answered requests' data.\<close>

fun worker_loop ::
  "('c, 'd) request_io \<Rightarrow> platform \<Rightarrow> ('d \<Rightarrow> 'd) \<Rightarrow> ('u \<Rightarrow> 'u) \<Rightarrow>
   ('r \<Rightarrow> ('u, 'c, 'd) request_context \<Rightarrow> (RouteResult, ('u, 'c, 'd) request_context) outcome) \<Rightarrow>
   'd poll list \<Rightarrow> 'u worker \<Rightarrow> ('c, 'r, 'u) server \<Rightarrow>
   loop_state \<times> 'd list \<times> 'u worker \<times> ('c, 'r, 'u) server"
where
  "worker_loop io pf finish_cgi tick call [] wk srv = (Running, [], wk, srv)"
| "worker_loop io pf finish_cgi tick call (pl # pls) wk srv =
     (case worker_round io pf finish_cgi tick call pl wk srv of
        (NullRouter, wk, srv) \<Rightarrow> (Crashed, [], wk, srv)
      | (LeaveLoop, wk, srv) \<Rightarrow>
          (Finished, [], wk, server_log_line (io_log io) Debug
             [CString ''Thread #'', U64 (wk_id wk), CString '' finished''] srv)
      | (NextRound answered, wk, srv) \<Rightarrow>
          (let (st, ds, wk, srv) = worker_loop io pf finish_cgi tick call pls wk srv
           in (st, (case answered of None \<Rightarrow> ds | Some d \<Rightarrow> d # ds), wk, srv)))"

section \<open>The maintenance thread\<close>

text \<open>The pause between two ticks, in milliseconds, and as a \<open>timespec\<close>; the duration's
  representation is unsigned, as the number of threads is.\<close>

definition tick_pause :: "int \<Rightarrow> u64 \<Rightarrow> u64" where
  "tick_pause interval num_threads =
    (word_of_int interval * 1000) div (if 1 < num_threads then num_threads - 1 else 1)"

definition tick_timespec :: "u64 \<Rightarrow> u64 \<times> u64" where
  "tick_timespec remaining =
    (let seconds = remaining div 1000
     in (seconds, (remaining - seconds * 1000) * 1000000))"

text \<open>The thread to signal next, from the one signalled last and the number of threads; it may
  be the number of threads itself, when there is no worker.\<close>

definition tick_index :: "u64 \<Rightarrow> u64 \<Rightarrow> u64" where
  "tick_index num_threads trigger_index =
    (let i = (trigger_index + 1) mod num_threads in if i = 0 then 1 else i)"

definition tick_threads :: "server_thread list \<Rightarrow> u64 \<Rightarrow> server_thread option \<times> u64" where
  "tick_threads threads trigger_index =
    (let i = tick_index (word_of_nat (length threads)) trigger_index
     in (if unat i < length threads then Some (threads ! unat i) else None, i))"

text \<open>The signals of several rounds over the same threads.\<close>

fun tick_rounds :: "nat \<Rightarrow> server_thread list \<Rightarrow> u64 \<Rightarrow> server_thread option list" where
  "tick_rounds 0 threads trigger_index = []"
| "tick_rounds (Suc n) threads trigger_index =
     (let (t, i) = tick_threads threads trigger_index in t # tick_rounds n threads i)"

end
