(* ===== verification/Serving.thy ===== *)
theory Serving
  imports Server
begin

text \<open>
  What a worker thread does for a request.  Everything the server adds to a handler's own calls
  is again a sequence of calls of the request, so the response machine of \<open>Response\<close> tells what
  has been sent when the round is over; exceptions, accept errors and signals decide only how
  the loop goes on.
\<close>

section \<open>The server's calls\<close>

text \<open>Status texts: ASCII without zero bytes, so that the body's stream leaves them alone.\<close>

definition plain_text :: "string \<Rightarrow> bool" where
  "plain_text s \<longleftrightarrow> s \<noteq> '''' \<and> (\<forall>c\<in>set s. char_byte c \<noteq> 0 \<and> char_byte c < 0x80)"

lemma plain_char:
  assumes "b \<noteq> 0" "b < 0x80"
  shows "utf32_to_8 (ucast b) = [b]" "(ucast (b :: u8) :: u32) \<noteq> 0" "(ucast b :: u32) < 0x110000"
    "(ucast b :: u32) < 0x80"
proof -
  have "uint b < 128" "uint b \<noteq> 0"
    using assms by (simp_all add: word_less_alt uint_0_iff)
  then have "uint (ucast b :: u32) = uint b"
    by (simp add: unsigned_ucast_eq take_bit_int_eq_self)
  with \<open>uint b < 128\<close> \<open>uint b \<noteq> 0\<close> show "(ucast b :: u32) \<noteq> 0" "(ucast b :: u32) < 0x110000"
    by (auto simp: word_less_alt uint_0_iff)
  show small: "(ucast b :: u32) < 0x80"
    using \<open>uint (ucast b :: u32) = uint b\<close> \<open>uint b < 128\<close> by (simp add: word_less_alt)
  have "ucast ((ucast b :: u32) AND 0xff) = b"
  proof -
    have "(ucast b :: u32) AND 0xff = take_bit 8 (ucast b)"
      by (simp add: take_bit_eq_mask mask_eq_exp_minus_1)
    then show ?thesis
      by (simp only:) (rule bit_word_eqI, auto simp: bit_simps)
  qed
  with small show "utf32_to_8 (ucast b) = [b]"
    by (simp add: utf32_to_8_ascii)
qed

lemma put_plain_text:
  assumes "plain_text s"
  shows "out_text (put_string_view GF_UTF8 s) = s" "fst (put_string_view GF_UTF8 s) \<noteq> []"
proof -
  let ?gs = "map (\<lambda>c. ucast (char_byte c) :: u32) s"
  have ok: "\<forall>g\<in>set ?gs. 0 < g \<and> g < 0x110000"
    using assms plain_char by (auto simp: plain_text_def word_gt_0)
  have bytes: "\<forall>c\<in>set s. utf32_to_8 (ucast (char_byte c)) = [char_byte c]"
    using assms plain_char(1) by (auto simp: plain_text_def)
  then have "utf8_encode ?gs = s"
    by (induction s) simp_all
  moreover have "glyph32_text GF_UTF8 = (\<lambda>g. map byte_char (utf32_to_8 g))"
    by (rule ext) (simp add: glyph32_text_def glyph_text_def)
  ultimately show "out_text (put_string_view GF_UTF8 s) = s"
    using put_utf8_valid [OF ok, of GF_UTF8] by (simp add: utf8_encode_concat)
  then show "fst (put_string_view GF_UTF8 s) \<noteq> []"
    using assms by (auto simp: plain_text_def)
qed

lemma result_status_text:
  "to_chars (uint (result_status Handled)) = ''200''" "to_chars (uint (result_status NotFound)) = ''404''"
  "to_chars (uint (result_status InvalidMethod)) = ''405''"
  "to_chars (uint (result_status InternalError)) = ''500''"
  by (simp_all add: to_chars_def digits.simps digit_char_def)

lemma plain_status: "plain_text (to_chars (uint (result_status res)))"
  by (cases res; simp only: result_status_text) (simp_all add: plain_text_def char_byte_def)

text \<open>The calls, from the state in which the handler left the request.\<close>

definition server_calls :: "RouteResult \<Rightarrow> ('c, 'd) request \<Rightarrow> request_call list" where
  "server_calls res rq =
    (let status = (if http_status rq = '''' then to_chars (uint (result_status res)) else http_status rq)
     in (if http_status rq = '''' then [SetHttpStatus (result_status res)] else []) @
        (if rq_headers_sent rq then []
         else if content_type rq = '''' then
           SetContentType ''text/plain'' # map Write (fst (put_string_view GF_UTF8 status))
         else [SendHeaders]))"

lemma write_stream_plain:
  assumes "\<not> rq_headers_sent rq"
  shows "write_stream (snd (set_content_type io ''text/plain'' rq)) =
    Some \<lparr>rs_format = GF_UTF8, rs_channel = WriteChannel\<rparr>"
  using assms
  by (simp add: set_content_type_def set_content_type_encoding_def set_header_def detect_encoding_def
      sv_substr_def write_stream_def)

lemma put_as_calls:
  "rs_put io \<lparr>rs_format = fmt, rs_channel = WriteChannel\<rparr> (View s) rq =
    fold (call_step io) (map Write (fst (put_string_view fmt s))) rq"
proof -
  have "fold (rs_real_append io WriteChannel) ts rq = fold (call_step io) (map Write ts) rq" for ts
    by (induction ts arbitrary: rq) (simp_all add: rs_real_append_def)
  then show ?thesis by (simp add: rs_put_def)
qed

lemma set_header_get:
  assumes "\<not> rq_headers_sent rq"
  shows "request_header k (snd (set_header io k' v rq)) =
    (if k = k' \<and> map_of (rq_headers rq) k = None then v else request_header k rq)"
  using assms by (auto simp: set_header_def request_header_def container_simps split: option.split)

lemma finish_response_calls:
  assumes "map_of (rq_headers rq) sym_Status \<noteq> Some ''''"
  shows "finish_response io res rq = fold (call_step io) (server_calls res rq) rq"
proof -
  let ?rq1 = "ensure_status io res rq"
  let ?ct = "snd (set_content_type io ''text/plain'' ?rq1)"
  have none: "map_of (rq_headers rq) sym_Status = None" if "http_status rq = ''''"
    using that assms by (auto simp: http_status_def request_header_def split: option.splits)
  have sent: "rq_headers_sent ?rq1 = rq_headers_sent rq"
    by (simp add: ensure_status_def set_http_status_def set_header_flags)
  have ctype: "content_type ?rq1 = content_type rq" if "\<not> rq_headers_sent rq"
    using that by (simp add: ensure_status_def set_http_status_def content_type_def set_header_get
        sym_values)
  have status: "http_status ?ct =
      (if http_status rq = '''' then to_chars (uint (result_status res)) else http_status rq)"
    if "\<not> rq_headers_sent rq"
  proof -
    have "http_status ?ct = http_status ?rq1"
      using that sent by (simp add: set_content_type_def set_content_type_encoding_def split_beta
          http_status_def set_header_get sym_values set_header_flags)
        (simp add: request_header_def set_header_get [unfolded request_header_def] sym_values)
    then show ?thesis
      using that none by (simp add: ensure_status_def set_http_status_def http_status_def set_header_get)
  qed
  have "ensure_status io res rq = fold (call_step io)
      (if http_status rq = '''' then [SetHttpStatus (result_status res)] else []) rq"
    by (simp add: ensure_status_def)
  then show ?thesis
    using sent ctype status
    by (simp add: finish_response_def ensure_headers_def server_calls_def write_stream_plain
        put_as_calls Let_def)
qed

section \<open>The log leaves the response alone\<close>

lemma refines_any_logger:
  assumes "refines written io tab w lg rq r"
  shows "\<exists>lg'. refines written io tab w lg' (rq\<lparr>rq_logger := logger_log (io_log io) Error msg (rq_logger rq)\<rparr>) r"
proof (cases "re_warned r")
  case True
  with assms show ?thesis
    by (intro exI [of _ "rq_logger rq"]) (auto simp: refines_def)
next
  case False
  with assms show ?thesis
    by (intro exI [of _ "logger_log (io_log io) Error msg (rq_logger rq)"]) (simp add: refines_def)
qed

lemma report_exception_refines:
  assumes "refines written io tab w lg rq r"
  shows "\<exists>lg'. refines written io tab w lg' (report_exception io tid e rq) r"
proof -
  let ?rq1 = "snd (request_method_string io rq)"
  let ?rq2 = "snd (document_uri io ?rq1)"
  have env: "only_env rq ?rq1" "only_env ?rq1 ?rq2"
    by (simp_all add: request_method_string_def document_uri_def only_env_env)
  have "refines written io tab w lg ?rq2 r"
    by (rule refines_only_env [OF only_env_trans [OF env] assms])
  moreover have "\<exists>msg. report_exception io tid e rq =
      ?rq2\<lparr>rq_logger := logger_log (io_log io) Error msg (rq_logger ?rq2)\<rparr>"
    by (simp add: report_exception_def split_beta log_line_def log_stream_destroy_def
        log_stream_append_def log_stream_new_def line_formatter.defs) blast
  ultimately show ?thesis
    using refines_any_logger by metis
qed

lemma log_request_effect:
  "\<exists>rq' lg. only_env rq rq' \<and> log_request io rq = rq'\<lparr>rq_logger := lg\<rparr>"
proof (cases "log_callback (rq_logger rq)")
  case None
  then show ?thesis
    by (intro exI [of _ rq] exI [of _ "rq_logger rq"]) (simp add: log_request_def)
next
  case (Some cb)
  obtain addr rq1 where 1: "remote_addr io rq = (addr, rq1)" by fastforce
  obtain port rq2 where 2: "remote_port io rq1 = (port, rq2)" by fastforce
  obtain meth rq3 where 3: "request_method_string io rq2 = (meth, rq3)" by fastforce
  obtain uri rq4 where 4: "document_uri io rq3 = (uri, rq4)" by fastforce
  have "only_env rq rq1" "only_env rq1 rq2" "only_env rq2 rq3" "only_env rq3 rq4"
    using only_env_env [of rq io sym_REMOTE_ADDR] only_env_accessors(6) [of rq1 io]
      only_env_env [of rq2 io sym_REQUEST_METHOD] only_env_env [of rq3 io sym_DOCUMENT_URI] 1 2 3 4
    by (simp_all add: remote_addr_def request_method_string_def document_uri_def)
  then have "only_env rq rq4"
    by (blast intro: only_env_trans)
  moreover have "\<exists>lg. log_request io rq = rq4\<lparr>rq_logger := lg\<rparr>"
    unfolding log_request_def Some option.case 1 2 3 4 prod.case Let_def by blast
  ultimately show ?thesis by blast
qed

lemma log_request_keeps:
  "rq_cgi (log_request io rq) = rq_cgi rq" "rq_headers_sent (log_request io rq) = rq_headers_sent rq"
  using log_request_effect [of rq io] by (auto simp: only_env_def)

section \<open>The finished response\<close>

lemma re_body_sent:
  "re_body (fold re_step cs r) \<noteq> None \<longleftrightarrow> re_body r \<noteq> None \<or> list_ex sends cs"
proof (induction cs arbitrary: r)
  case (Cons c cs)
  have "re_body (re_step c r) \<noteq> None \<longleftrightarrow> re_body r \<noteq> None \<or> sends c"
    by (cases c) (simp_all add: re_set_def re_send_def split: option.split)
  with Cons show ?case by simp
qed simp

text \<open>The status and the content type a handler leaves behind are not empty, and the status is
  plain text.\<close>

definition headers_usable :: "request_call list \<Rightarrow> bool" where
  "headers_usable cs \<longleftrightarrow>
     (\<forall>v. map_of (early_headers cs) sym_Status = Some v \<longrightarrow> plain_text v) \<and>
     map_of (early_headers cs) sym_ContentType \<noteq> Some ''''"

definition served_status :: "RouteResult \<Rightarrow> request_call list \<Rightarrow> string" where
  "served_status res cs =
    (case map_of (early_headers cs) sym_Status of
       Some v \<Rightarrow> v | None \<Rightarrow> to_chars (uint (result_status res)))"

definition served_defaults :: "RouteResult \<Rightarrow> request_call list \<Rightarrow> header_map" where
  "served_defaults res cs =
    (if list_ex sends cs then [(sym_Status, ''200'')]
     else [(sym_Status, to_chars (uint (result_status res))), (sym_ContentType, ''text/plain'')])"

definition served_body :: "RouteResult \<Rightarrow> request_call list \<Rightarrow> string" where
  "served_body res cs =
    (if list_ex sends cs then concat (map written_by cs)
     else if map_of (early_headers cs) sym_ContentType = None then served_status res cs
     else '''')"

lemma served_status_plain: "headers_usable cs \<Longrightarrow> plain_text (served_status res cs)"
  by (auto simp: headers_usable_def served_status_def plain_status split: option.split)

text \<open>The server's calls in terms of the handler's.\<close>

definition added_calls :: "RouteResult \<Rightarrow> request_call list \<Rightarrow> request_call list" where
  "added_calls res cs =
    (if list_ex sends cs then []
     else (if map_of (early_headers cs) sym_Status = None then [SetHttpStatus (result_status res)] else []) @
       (if map_of (early_headers cs) sym_ContentType = None then
          SetContentType ''text/plain'' # map Write (fst (put_string_view GF_UTF8 (served_status res cs)))
        else [SendHeaders]))"

lemma server_calls_added:
  assumes "rq_headers rq = re_headers (fold re_step cs re_init)" "rq_headers_sent rq \<longleftrightarrow> list_ex sends cs"
    and "headers_usable cs"
  shows "server_calls res rq = added_calls res cs \<and> map_of (rq_headers rq) sym_Status \<noteq> Some ''''"
proof (cases "list_ex sends cs")
  case True
  then have "re_finish (fold re_step cs re_init) = fold re_step cs re_init"
    using re_body_sent [of cs re_init] by (auto simp: re_finish_def)
  then have "map_of (rq_headers rq) = map_of (default_headers cs) ++ map_of (early_headers cs)"
    using re_finish_closed(1) [of cs] assms(1) by simp
  then have "map_of (rq_headers rq) sym_Status =
      (case map_of (early_headers cs) sym_Status of None \<Rightarrow> Some ''200'' | v \<Rightarrow> v)"
    using True by (simp add: default_headers_def map_add_def split: option.split)
  then have "\<exists>v. map_of (rq_headers rq) sym_Status = Some v \<and> v \<noteq> ''''"
    using assms(3) by (auto simp: headers_usable_def plain_text_def split: option.splits)
  with True assms(2) show ?thesis
    by (auto simp: server_calls_def added_calls_def http_status_def request_header_def)
next
  case False
  then have "map_of (rq_headers rq) = map_of (early_headers cs)"
    using re_run_unsent [of re_init cs] assms(1)
    by (simp add: re_init_def early_headers_def map_of_fold_emplace list_ex_iff takeWhile_eq_all_conv [THEN iffD2])
  with False assms(2,3) show ?thesis
    by (auto simp: server_calls_def added_calls_def http_status_def content_type_def
        request_header_def served_status_def headers_usable_def plain_text_def split: option.splits)
qed

lemma added_calls_ok: "call_ok tab c" if "c \<in> set (added_calls res cs)"
  using that by (auto simp: added_calls_def split: if_splits)

lemma quiet_written: "\<not> list_ex sends cs \<Longrightarrow> concat (map written_by cs) = ''''"
  by (induction cs) (auto elim: sends.elims written_by.elims)

lemma early_headers_append:
  "\<not> list_ex sends cs \<Longrightarrow> early_headers (cs @ ds) = early_headers cs @ early_headers ds"
  by (simp add: early_headers_def list_ex_iff takeWhile_append takeWhile_eq_all_conv [THEN iffD2])

lemma writes_only: "early_headers (map Write ts) = []" "concat (map written_by (map Write ts)) = concat ts"
proof -
  show "early_headers (map Write ts) = []"
    by (cases ts) (simp_all add: early_headers_def)
  show "concat (map written_by (map Write ts)) = concat ts"
    by (induction ts) simp_all
qed

lemma added_response:
  assumes "headers_usable cs"
  shows "list_ex sends (cs @ added_calls res cs)"
    and "response_body (cs @ added_calls res cs) = served_body res cs"
    and "map_of (default_headers (cs @ added_calls res cs)) ++ map_of (early_headers (cs @ added_calls res cs)) =
      map_of (served_defaults res cs) ++ map_of (early_headers cs)"
proof -
  let ?ac = "added_calls res cs" and ?early = "early_headers cs"
  note plain = put_plain_text [OF served_status_plain [OF assms], of res]
  show sends: "list_ex sends (cs @ ?ac)"
    using plain(2) by (cases "fst (put_string_view GF_UTF8 (served_status res cs))")
      (simp_all add: added_calls_def)
  have "concat (map written_by ?ac) = (if list_ex sends cs \<or> map_of ?early sym_ContentType \<noteq> None
      then '''' else served_status res cs)"
    using plain(1) writes_only(2) by (simp add: added_calls_def o_def)
  then show "response_body (cs @ ?ac) = served_body res cs"
    using sends quiet_written [of cs] by (auto simp: response_body_def served_body_def)
  show "map_of (default_headers (cs @ ?ac)) ++ map_of (early_headers (cs @ ?ac)) =
      map_of (served_defaults res cs) ++ map_of ?early"
  proof (cases "list_ex sends cs")
    case True
    then show ?thesis
      by (simp add: added_calls_def default_headers_def served_defaults_def)
  next
    case False
    let ?code = "to_chars (uint (result_status res))"
    have "early_headers ?ac = (if map_of ?early sym_Status = None then [(sym_Status, ?code)] else []) @
        (if map_of ?early sym_ContentType = None then [(sym_ContentType, ''text/plain'')] else [])"
      using False writes_only(1) [of "fst (put_string_view GF_UTF8 (served_status res cs))"]
      by (simp add: added_calls_def early_headers_def)
    then show ?thesis
      using False sends unfolding early_headers_append [OF False]
      by (auto simp: default_headers_def served_defaults_def fun_eq_iff map_add_def sym_values
          split: option.split)
  qed
qed

section \<open>A served request\<close>

definition route_answer :: "exn + RouteResult \<Rightarrow> RouteResult" where
  "route_answer result = (case result of Inl e \<Rightarrow> InternalError | Inr res \<Rightarrow> res)"

lemma route_request_answer:
  assumes "call_server_router io call r cx = (result, cx1)"
    and "refines written io tab w lg (cx_request cx1) s"
  shows "fst (route_request io call r tid cx) = route_answer result"
    and "\<exists>lg'. refines written io tab w lg' (cx_request (snd (route_request io call r tid cx))) s"
proof -
  show "fst (route_request io call r tid cx) = route_answer result"
    using assms(1) by (simp add: route_request_def route_answer_def split: sum.split)
  show "\<exists>lg'. refines written io tab w lg' (cx_request (snd (route_request io call r tid cx))) s"
    using assms report_exception_refines [OF assms(2)]
    by (cases result) (auto simp: route_request_def)
qed

lemma finish_response_refines:
  assumes "io_cgi io = mock_ops" "\<And>hs. set (io_order io hs) = set hs" "symtab_ok tab"
    and "refines m_writebuf io tab w lg rq (fold re_step cs re_init)" "headers_usable cs"
  shows "refines m_writebuf io tab w lg (finish_response io res rq)
    (fold re_step (cs @ added_calls res cs) re_init)"
proof -
  have "rq_headers rq = re_headers (fold re_step cs re_init)" "rq_headers_sent rq \<longleftrightarrow> list_ex sends cs"
    using assms(4) re_body_sent [of cs re_init] by (auto simp: refines_def re_init_def)
  note calls = server_calls_added [OF this assms(5), of res]
  then have "finish_response io res rq = fold (call_step io) (added_calls res cs) rq"
    using finish_response_calls by metis
  with mock_streams.refines_run [OF assms(1-3) _ assms(4)] added_calls_ok show ?thesis
    by fastforce
qed

text \<open>The request after routing, with everything the server adds before its destructor.\<close>

definition handled_request ::
  "('c, 'd) request_io \<Rightarrow>
   ('r \<Rightarrow> ('u, 'c, 'd) request_context \<Rightarrow> (RouteResult, ('u, 'c, 'd) request_context) outcome) \<Rightarrow>
   'r server_router \<Rightarrow> u64 \<Rightarrow> ('u, 'c, 'd) request_context \<Rightarrow> ('c, 'd) request"
where
  "handled_request io call r tid cx =
    (let (route_result, cx) = route_request io call r tid cx
     in log_request io (finish_response io route_result (cx_request cx)))"

lemma handled_request_written:
  fixes d :: mock_cgi
  assumes "io_cgi io = mock_ops" "\<And>hs. set (io_order io hs) = set hs" "symtab_ok tab" "headers_usable cs"
    and "call_server_router io call r cx0 = (result, cx)"
    and "refines m_writebuf io tab w lg (cx_request cx) (fold re_step cs re_init)"
  shows "rq_headers_sent (handled_request io call r tid cx0) \<and>
    (\<exists>lg' rq. rq_cgi (handled_request io call r tid cx0) = rq_cgi rq \<and>
      refines m_writebuf io tab w lg' rq (fold re_step (cs @ added_calls (route_answer result) cs) re_init))"
proof -
  let ?all = "cs @ added_calls (route_answer result) cs"
  note route = route_request_answer [OF assms(5,6), of tid]
  then obtain lg1 where "refines m_writebuf io tab w lg1
      (cx_request (snd (route_request io call r tid cx0))) (fold re_step cs re_init)"
    by blast
  note finished = finish_response_refines [OF assms(1-3) this assms(4), of "route_answer result"]
  let ?rq = "finish_response io (route_answer result) (cx_request (snd (route_request io call r tid cx0)))"
  have handled: "handled_request io call r tid cx0 = log_request io ?rq"
    using route(1) by (simp add: handled_request_def split_beta)
  have "re_body (fold re_step ?all re_init) \<noteq> None"
    using re_body_sent [of ?all re_init] added_response(1) [OF assms(4)] by blast
  then have "rq_headers_sent (log_request io ?rq)"
    using finished by (simp add: refines_def log_request_keeps)
  with finished show ?thesis
    unfolding handled log_request_keeps by blast
qed

lemma calls_written:
  fixes d :: mock_cgi
  assumes "io_cgi io = mock_ops" "\<And>hs. set (io_order io hs) = set hs" "symtab_ok tab"
    and "\<forall>c\<in>set cs. call_ok tab c"
  shows "refines m_writebuf io tab (m_writebuf d) lg (fold (call_step io) cs (request_new tab d lg))
    (fold re_step cs re_init)"
  by (rule mock_streams.refines_run [OF assms refines_new])

text \<open>What the client has got by then.\<close>

lemma served_text:
  assumes "\<And>hs. mset (io_order io hs) = mset hs" "headers_usable cs" "m_writebuf d = ''''"
    and "refines m_writebuf io tab (m_writebuf d) lg rq
      (fold re_step (cs @ added_calls res cs) re_init)"
  shows "\<exists>hs. m_writebuf (rq_cgi rq) = concat (map (header_text tab) hs) @ crlf @ served_body res cs \<and>
    distinct (map fst hs) \<and> map_of hs = map_of (served_defaults res cs) ++ map_of (early_headers cs)"
proof -
  let ?all = "cs @ added_calls res cs"
  let ?r = "fold re_step ?all re_init"
  note added = added_response [OF assms(2), of res]
  have finish: "re_finish ?r = ?r"
    using re_body_sent [of ?all re_init] added(1) by (auto simp: re_finish_def)
  note closed = re_finish_closed [of ?all, unfolded finish added(2,3)]
  have "m_writebuf (rq_cgi rq) = concat (map (header_text tab) (io_order io (re_headers ?r))) @
      crlf @ served_body res cs"
    using assms(3,4) closed(3) by (simp add: refines_def response_text_def)
  then show ?thesis
    using map_of_permuted [OF assms(1) closed(2)] closed(1) by metis
qed

lemma serve_request_handled:
  assumes "rq_headers_sent (handled_request io call r tid
      (set_request (request_new (srv_syms srv) d (srv_logger srv)) (base\<lparr>cx_global_context := srv_global_context srv\<rparr>)))"
  shows "fst (serve_request io finish_cgi call r tid d base srv) =
    finish_cgi (rq_cgi (handled_request io call r tid
      (set_request (request_new (srv_syms srv) d (srv_logger srv)) (base\<lparr>cx_global_context := srv_global_context srv\<rparr>))))"
  using assms by (simp add: serve_request_def handled_request_def request_destroy_def split_beta Let_def)

lemma serve_request_server:
  "srv_router (snd (snd (serve_request io finish_cgi call r tid d base srv))) = srv_router srv"
  "srv_threads (snd (snd (serve_request io finish_cgi call r tid d base srv))) = srv_threads srv"
  "srv_last_thread_id (snd (snd (serve_request io finish_cgi call r tid d base srv))) =
    srv_last_thread_id srv"
  by (simp_all add: serve_request_def split_beta Let_def publish_global_context_def)

section \<open>The loop\<close>

text \<open>A poll that does not end the loop.\<close>

definition harmless :: "'d poll \<Rightarrow> bool" where
  "harmless pl \<longleftrightarrow> \<not> poll_usr1 pl \<and> (poll_result pl = 0 \<or> poll_result pl = - EINTR)"

lemma worker_round_cases:
  assumes "\<not> wk_shutdown wk" "srv_router srv = Some r"
  shows "harmless pl \<Longrightarrow> \<exists>answered wk' srv'. worker_round io pf finish_cgi tick call pl wk srv =
      (NextRound answered, wk', srv') \<and> (answered \<noteq> None \<longleftrightarrow> poll_result pl = 0) \<and>
      \<not> wk_shutdown wk' \<and> wk_id wk' = wk_id wk \<and> srv_router srv' = Some r"
    and "\<not> harmless pl \<Longrightarrow> \<exists>wk' srv'. worker_round io pf finish_cgi tick call pl wk srv =
      (LeaveLoop, wk', srv')"
proof -
  assume h: "harmless pl"
  obtain d cx srv' where s: "serve_request io finish_cgi call r (wk_id wk) (poll_data pl)
      (wk_context (worker_tick tick (receive_signals pl wk))) srv = (d, cx, srv')"
    using prod_cases3 by blast
  then have "srv_router srv' = Some r"
    using serve_request_server(1) assms(2) by (metis snd_conv)
  moreover have "wk_id (worker_tick tick (receive_signals pl wk)) = wk_id wk"
    "\<not> wk_shutdown (worker_tick tick (receive_signals pl wk))"
    using h assms(1) by (simp_all add: worker_tick_def receive_signals_def harmless_def)
  ultimately show "\<exists>answered wk' srv'. worker_round io pf finish_cgi tick call pl wk srv =
      (NextRound answered, wk', srv') \<and> (answered \<noteq> None \<longleftrightarrow> poll_result pl = 0) \<and>
      \<not> wk_shutdown wk' \<and> wk_id wk' = wk_id wk \<and> srv_router srv' = Some r"
    using h assms s
    by (cases "poll_result pl = 0")
      (simp_all add: worker_round_def Let_def harmless_def receive_signals_def EINTR_def)
next
  assume "\<not> harmless pl"
  then show "\<exists>wk' srv'. worker_round io pf finish_cgi tick call pl wk srv = (LeaveLoop, wk', srv')"
    using assms by (auto simp: worker_round_def Let_def harmless_def receive_signals_def)
qed

definition sample_server :: "(mock_logger, unit, unit) server" where
  "sample_server =
    (server_new boot_table \<lparr>log_debug = [], log_info = [], log_error = []\<rparr>)
      \<lparr>srv_router := Some (Registered ())\<rparr>"

lemma sample_server_simps [simp]:
  "srv_syms sample_server = boot_table" "srv_router sample_server = Some (Registered ())"
  by (simp_all add: sample_server_def server_new_def)

definition sample_platform :: platform where
  "sample_platform =
    \<lparr>FCGX_Init = 0, FCGX_IsCGI = True, FCGX_OpenSocket = (\<lambda>path. 3), FCGX_InitRequest = (\<lambda>fd. 0),
     errno_text = ''Address already in use'', strerror = (\<lambda>n. ''Bad file descriptor'')\<rparr>"

section \<open>Properties\<close>

text \<open>C1: Whatever a router does with a request, by any sequence of calls and even if it then throws an
  exception, the client gets one complete response.  A handler that has sent something is left
  alone; otherwise the status is the one it set, or else the one for the answer (200, 404, 405,
  and 500 for an exception), and without a content type of its own the body is that status as
  plain text.\<close>

theorem every_request_answered:
  assumes "io_cgi io = mock_ops" "\<And>hs. mset (io_order io hs) = mset hs" "symtab_ok (srv_syms srv)"
    and "\<forall>c\<in>set cs. call_ok (srv_syms srv) c" "headers_usable cs" "m_writebuf d = ''''"
    and "call_server_router io call r (set_request (request_new (srv_syms srv) d (srv_logger srv))
        (base\<lparr>cx_global_context := srv_global_context srv\<rparr>)) = (result, cx)"
    and "cx_request cx = fold (call_step io) cs (request_new (srv_syms srv) d (srv_logger srv))"
  shows "\<exists>hs d'. fst (serve_request io finish_cgi call r tid d base srv) = finish_cgi d' \<and>
    m_writebuf d' = concat (map (header_text (srv_syms srv)) hs) @ crlf @
      served_body (route_answer result) cs \<and>
    distinct (map fst hs) \<and>
    map_of hs = map_of (served_defaults (route_answer result) cs) ++ map_of (early_headers cs)"
proof -
  have "refines m_writebuf io (srv_syms srv) (m_writebuf d) (srv_logger srv) (cx_request cx)
      (fold re_step cs re_init)"
    unfolding assms(8) by (rule calls_written [OF assms(1) mset_eq_setD [OF assms(2)] assms(3,4)])
  note handled = handled_request_written [OF assms(1) mset_eq_setD [OF assms(2)] assms(3,5,7) this, of tid]
  then obtain lg rq where "fst (serve_request io finish_cgi call r tid d base srv) = finish_cgi (rq_cgi rq)"
    "refines m_writebuf io (srv_syms srv) (m_writebuf d) lg rq
      (fold re_step (cs @ added_calls (route_answer result) cs) re_init)"
    using serve_request_handled by metis
  then show ?thesis
    using served_text [OF assms(2,5,6)] by metis
qed

theorem every_request_answered_witness:
  "\<exists>hs. m_writebuf (fst (serve_request sample_io id (\<lambda>r cx. (Inl (StdException ''boom''), cx)) (Registered ())
      1 (mock_cgi_new '''' [''REQUEST_METHOD=GET'']) context_new sample_server)) =
      concat (map (header_text boot_table) hs) @ crlf @ ''500'' \<and>
    map_of hs sym_Status = Some ''500'' \<and> map_of hs sym_ContentType = Some ''text/plain''"
proof -
  have "io_cgi sample_io = mock_ops" "mset (io_order sample_io hs) = mset hs" for hs
    by (simp_all add: sample_io_def)
  moreover have "headers_usable []" "early_headers [] = []"
    by (simp_all add: headers_usable_def early_headers_def)
  moreover have "served_body InternalError [] = ''500''"
    "served_defaults InternalError [] = [(sym_Status, ''500''), (sym_ContentType, ''text/plain'')]"
    by (simp_all only: served_body_def served_defaults_def served_status_def early_headers_def
        result_status_text) simp_all
  ultimately show ?thesis
    using every_request_answered [of sample_io sample_server "[]" "mock_cgi_new '''' [''REQUEST_METHOD=GET'']"
        "\<lambda>r cx. (Inl (StdException ''boom''), cx)" "Registered ()" context_new
        "Inl (StdException ''boom'')" _ id 1]
    by (auto simp: symtab_ok_boot mock_cgi_new_def call_server_router_def set_request_def
        request_context.defs context_new_def context_base.defs route_answer_def sym_values)
qed

text \<open>C9: A worker's loop goes on as long as it is not told to shut down and accepting either succeeds
  or is interrupted by a signal; it answers every accepted request until then, whatever the
  handlers do, and it never finds the router missing.\<close>

theorem worker_loop_outcome:
  assumes "\<not> wk_shutdown wk" "srv_router srv \<noteq> None"
  shows "fst (worker_loop io pf finish_cgi tick call pls wk srv) =
      (if list_all harmless pls then Running else Finished) \<and>
    length (fst (snd (worker_loop io pf finish_cgi tick call pls wk srv))) =
      length (filter (\<lambda>pl. poll_result pl = 0) (takeWhile harmless pls))"
  using assms
proof (induction pls arbitrary: wk srv)
  case (Cons pl pls)
  then obtain r where r: "srv_router srv = Some r" by blast
  show ?case
  proof (cases "harmless pl")
    case True
    from worker_round_cases(1) [OF Cons.prems(1) r True, of io pf finish_cgi tick call]
    obtain answered wk' srv' where step: "worker_round io pf finish_cgi tick call pl wk srv =
        (NextRound answered, wk', srv') \<and> (answered \<noteq> None \<longleftrightarrow> poll_result pl = 0) \<and>
        \<not> wk_shutdown wk' \<and> wk_id wk' = wk_id wk \<and> srv_router srv' = Some r"
      by (elim exE)
    note round = conjunct1 [OF step] conjunct1 [OF conjunct2 [OF step]]
    have cont: "\<not> wk_shutdown wk'" "srv_router srv' = Some r"
      using step by simp_all
    obtain st ds wk2 srv2 where rest: "worker_loop io pf finish_cgi tick call pls wk' srv' = (st, ds, wk2, srv2)"
      using prod_cases4 by blast
    have "worker_loop io pf finish_cgi tick call (pl # pls) wk srv =
        (st, (case answered of None \<Rightarrow> ds | Some d \<Rightarrow> d # ds), wk2, srv2)"
      by (simp add: round(1) rest)
    moreover have "st = (if list_all harmless pls then Running else Finished)"
      "length ds = length (filter (\<lambda>pl. poll_result pl = 0) (takeWhile harmless pls))"
      using Cons.IH [OF cont(1), of srv'] cont(2) rest by simp_all
    ultimately show ?thesis
      using True round(2) by (cases answered) simp_all
  next
    case False
    then show ?thesis
      using worker_round_cases(2) [OF Cons.prems(1) r False, of io pf finish_cgi tick call] by auto
  qed
qed simp

theorem worker_loop_outcome_witness:
  "fst (worker_loop sample_io sample_platform id id (\<lambda>r cx. (Inl UnknownException, cx))
      [\<lparr>poll_usr1 = False, poll_usr2 = True, poll_result = - EINTR, poll_data = mock_cgi_new '''' []\<rparr>,
       \<lparr>poll_usr1 = False, poll_usr2 = False, poll_result = 0, poll_data = mock_cgi_new '''' []\<rparr>]
      \<lparr>wk_id = 1, wk_context = context_new, wk_shutdown = False, wk_tick = False\<rparr> sample_server) = Running"
  using worker_loop_outcome [of "\<lparr>wk_id = 1, wk_context = context_new, wk_shutdown = False, wk_tick = False\<rparr>"
      sample_server sample_io sample_platform id id "\<lambda>r cx. (Inl UnknownException, cx)"
      "[\<lparr>poll_usr1 = False, poll_usr2 = True, poll_result = - EINTR, poll_data = mock_cgi_new '''' []\<rparr>,
       \<lparr>poll_usr1 = False, poll_usr2 = False, poll_result = 0, poll_data = mock_cgi_new '''' []\<rparr>]"]
  by (simp add: harmless_def del: worker_loop.simps)

end
