(* ===== verification/Workers.thy ===== *)
theory Workers
  imports Serving
begin

text \<open>
  The worker threads of \<open>server.cpp\<close> between one another and with the signals.  The loop of
  \<open>thread_function\<close> is cut where another thread or a signal can come between: after the test of
  \<open>shutdown_triggered\<close>, while \<open>FCGX_Accept_r\<close> blocks, after accepting, after copying the
  router and the global context under the lock, and before publishing a new global context.  A
  thread that runs alone does what \<open>worker_loop\<close> says.
\<close>

section \<open>The steps of a worker\<close>

text \<open>\<open>Entering\<close> is between the test and the accepting call.\<close>

datatype ('c, 'd, 'r) phase =
    Testing
  | Entering
  | Accepting
  | Accepted 'd
  | Handling "'r server_router" 'd
  | Closing "('c, 'd) request"
  | Ended
  | NoRouter

record ('u, 'c, 'd, 'r) thread =
  th_worker :: "'u worker"
  th_phase :: "('c, 'd, 'r) phase"
  th_answered :: "'d list"

definition thread_started :: "'u worker \<Rightarrow> ('u, 'c, 'd, 'r) thread" where
  "thread_started wk = \<lparr>th_worker = wk, th_phase = Testing, th_answered = []\<rparr>"

text \<open>What happens to a thread: one of the two signals, its own next step, or the end of the
  accepting call with its result.\<close>

datatype 'd thread_event = Usr1 | Usr2 | Step | AcceptReturns int 'd

text \<open>The end of the loop writes its message.\<close>

definition thread_ends ::
  "'c log_message \<Rightarrow> ('u, 'c, 'd, 'r) thread \<Rightarrow> ('c, 'r, 'u) server \<Rightarrow>
   ('u, 'c, 'd, 'r) thread \<times> ('c, 'r, 'u) server" where
  "thread_ends lm th srv =
    (th\<lparr>th_phase := Ended\<rparr>, server_log_line lm Debug
       [CString ''Thread #'', U64 (wk_id (th_worker th)), CString '' finished''] srv)"

text \<open>A signal sets its flag; it makes a blocking accepting call return \<open>-EINTR\<close>, since the
  handlers are installed without \<open>SA_RESTART\<close> and the request with
  \<open>FCGI_FAIL_ACCEPT_ON_INTR\<close>, and the loop goes on with its test.  A thread that has ended
  gets no signals.\<close>

definition thread_signal :: "('u worker \<Rightarrow> 'u worker) \<Rightarrow> ('u, 'c, 'd, 'r) thread \<Rightarrow> ('u, 'c, 'd, 'r) thread" where
  "thread_signal set_flag th =
    (if th_phase th = Ended \<or> th_phase th = NoRouter then th
     else th\<lparr>th_worker := set_flag (th_worker th),
       th_phase := (if th_phase th = Accepting then Testing else th_phase th)\<rparr>)"

definition accept_returns ::
  "'c log_message \<Rightarrow> platform \<Rightarrow> int \<Rightarrow> 'd \<Rightarrow> ('u, 'c, 'd, 'r) thread \<Rightarrow> ('c, 'r, 'u) server \<Rightarrow>
   ('u, 'c, 'd, 'r) thread \<times> ('c, 'r, 'u) server"
where
  "accept_returns lm pf result d th srv =
    (if result \<noteq> 0 then
       (if result = -9999 then
          thread_ends lm (th\<lparr>th_worker := (th_worker th)\<lparr>wk_shutdown := True\<rparr>\<rparr>) srv
        else if result \<noteq> - EINTR then
          thread_ends lm th (server_log_line lm Error
            [CString ''Error '', I32 (word_of_int result), CString '' on FCGX_Accept_r: '',
             CString (strerror pf (- result))] srv)
        else (th\<lparr>th_phase := Testing\<rparr>, srv))
     else (th\<lparr>th_phase := Accepted d\<rparr>, srv))"

text \<open>The copy of the router and of the global context under \<open>context_lock\<close>.\<close>

definition copy_shared ::
  "'d \<Rightarrow> ('u, 'c, 'd, 'r) thread \<Rightarrow> ('c, 'r, 'u) server \<Rightarrow> ('u, 'c, 'd, 'r) thread" where
  "copy_shared d th srv =
    (case srv_router srv of
       None \<Rightarrow> th\<lparr>th_phase := NoRouter\<rparr>
     | Some r \<Rightarrow>
         th\<lparr>th_phase := Handling r d, th_worker := (th_worker th)
           \<lparr>wk_context := (wk_context (th_worker th))\<lparr>cx_global_context := srv_global_context srv\<rparr>\<rparr>\<rparr>)"

text \<open>The request from its construction to the call of \<open>log_request\<close>.\<close>

definition handle_accepted ::
  "('c, 'd) request_io \<Rightarrow>
   ('r \<Rightarrow> ('u, 'c, 'd) request_context \<Rightarrow> (RouteResult, ('u, 'c, 'd) request_context) outcome) \<Rightarrow>
   'r server_router \<Rightarrow> 'd \<Rightarrow> ('u, 'c, 'd, 'r) thread \<Rightarrow> ('c, 'r, 'u) server \<Rightarrow>
   ('u, 'c, 'd, 'r) thread \<times> ('c, 'r, 'u) server"
where
  "handle_accepted io call r d th srv =
    (let wk = th_worker th;
         cx = set_request (request_new (srv_syms srv) d (srv_logger srv)) (wk_context wk);
         (route_result, cx) = route_request io call r (wk_id wk) cx;
         rq = log_request io (finish_response io route_result (cx_request cx))
     in (th\<lparr>th_worker := wk\<lparr>wk_context := context_base.truncate cx\<rparr>, th_phase := Closing rq\<rparr>,
         srv\<lparr>srv_syms := rq_syms rq, srv_logger := rq_logger rq\<rparr>))"

text \<open>The publication of a replaced global context and the destructors.  The table of symbols and
  the log are the process's, so the request sees what the other threads have made of them.\<close>

definition close_request ::
  "('c, 'd) request_io \<Rightarrow> ('d \<Rightarrow> 'd) \<Rightarrow> ('c, 'd) request \<Rightarrow> ('u, 'c, 'd, 'r) thread \<Rightarrow>
   ('c, 'r, 'u) server \<Rightarrow> ('u, 'c, 'd, 'r) thread \<times> ('c, 'r, 'u) server"
where
  "close_request io finish_cgi rq th srv =
    (let wk = th_worker th;
         (cx, srv) = publish_global_context (set_request rq (wk_context wk)) srv;
         rq = request_destroy io (rq\<lparr>rq_syms := srv_syms srv, rq_logger := srv_logger srv\<rparr>)
     in (th\<lparr>th_worker := wk\<lparr>wk_context := context_base.truncate cx\<rparr>, th_phase := Testing,
            th_answered := th_answered th @ [finish_cgi (rq_cgi rq)]\<rparr>,
         srv\<lparr>srv_syms := rq_syms rq, srv_logger := rq_logger rq\<rparr>))"

definition thread_step ::
  "('c, 'd) request_io \<Rightarrow> ('d \<Rightarrow> 'd) \<Rightarrow> ('u \<Rightarrow> 'u) \<Rightarrow>
   ('r \<Rightarrow> ('u, 'c, 'd) request_context \<Rightarrow> (RouteResult, ('u, 'c, 'd) request_context) outcome) \<Rightarrow>
   ('u, 'c, 'd, 'r) thread \<Rightarrow> ('c, 'r, 'u) server \<Rightarrow>
   ('u, 'c, 'd, 'r) thread \<times> ('c, 'r, 'u) server"
where
  "thread_step io finish_cgi tick call th srv =
    (case th_phase th of
       Testing \<Rightarrow>
         (if wk_shutdown (th_worker th) then thread_ends (io_log io) th srv
          else (th\<lparr>th_worker := worker_tick tick (th_worker th), th_phase := Entering\<rparr>, srv))
     | Entering \<Rightarrow> (th\<lparr>th_phase := Accepting\<rparr>, srv)
     | Accepting \<Rightarrow> (th, srv)
     | Accepted d \<Rightarrow> (copy_shared d th srv, srv)
     | Handling r d \<Rightarrow> handle_accepted io call r d th srv
     | Closing rq \<Rightarrow> close_request io finish_cgi rq th srv
     | Ended \<Rightarrow> (th, srv)
     | NoRouter \<Rightarrow> (th, srv))"

fun run_event ::
  "('c, 'd) request_io \<Rightarrow> platform \<Rightarrow> ('d \<Rightarrow> 'd) \<Rightarrow> ('u \<Rightarrow> 'u) \<Rightarrow>
   ('r \<Rightarrow> ('u, 'c, 'd) request_context \<Rightarrow> (RouteResult, ('u, 'c, 'd) request_context) outcome) \<Rightarrow>
   'd thread_event \<Rightarrow> ('u, 'c, 'd, 'r) thread \<times> ('c, 'r, 'u) server \<Rightarrow>
   ('u, 'c, 'd, 'r) thread \<times> ('c, 'r, 'u) server"
where
  "run_event io pf finish_cgi tick call Usr1 (th, srv) =
     (thread_signal (\<lambda>wk. wk\<lparr>wk_shutdown := True\<rparr>) th, srv)"
| "run_event io pf finish_cgi tick call Usr2 (th, srv) =
     (thread_signal (\<lambda>wk. wk\<lparr>wk_tick := True\<rparr>) th, srv)"
| "run_event io pf finish_cgi tick call Step (th, srv) = thread_step io finish_cgi tick call th srv"
| "run_event io pf finish_cgi tick call (AcceptReturns result d) (th, srv) =
     (if th_phase th = Accepting then accept_returns (io_log io) pf result d th srv else (th, srv))"

text \<open>All workers of a server: an event names its thread.\<close>

definition pool_event ::
  "('c, 'd) request_io \<Rightarrow> platform \<Rightarrow> ('d \<Rightarrow> 'd) \<Rightarrow> ('u \<Rightarrow> 'u) \<Rightarrow>
   ('r \<Rightarrow> ('u, 'c, 'd) request_context \<Rightarrow> (RouteResult, ('u, 'c, 'd) request_context) outcome) \<Rightarrow>
   nat \<times> 'd thread_event \<Rightarrow> ('u, 'c, 'd, 'r) thread list \<times> ('c, 'r, 'u) server \<Rightarrow>
   ('u, 'c, 'd, 'r) thread list \<times> ('c, 'r, 'u) server"
where
  "pool_event io pf finish_cgi tick call e pool =
    (if fst e < length (fst pool) then
       (let (th, srv) = run_event io pf finish_cgi tick call (snd e) (fst pool ! fst e, snd pool)
        in ((fst pool)[fst e := th], srv))
     else pool)"

section \<open>A thread that runs alone\<close>

lemma closing_truncated:
  "publish_global_context (set_request rq (context_base.truncate cx)) srv =
    (set_request rq (context_base.truncate (fst (publish_global_context cx srv))),
     snd (publish_global_context cx srv))"
  by (simp add: publish_global_context_def set_request_def context_base.defs)

lemma set_request_parts:
  "context_base.truncate (set_request rq base) = base" "cx_request (set_request rq base) = rq"
  by (simp_all add: set_request_def context_base.defs)

lemma publish_keeps:
  "srv_syms (snd (publish_global_context cx srv)) = srv_syms srv"
  "srv_logger (snd (publish_global_context cx srv)) = srv_logger srv"
  by (simp_all add: publish_global_context_def)

lemma publish_update:
  "publish_global_context cx (srv\<lparr>srv_syms := a, srv_logger := b\<rparr>) =
    (fst (publish_global_context cx srv), (snd (publish_global_context cx srv))\<lparr>srv_syms := a, srv_logger := b\<rparr>)"
  by (simp add: publish_global_context_def)

lemma serve_steps:
  assumes "th_phase th = Accepted d" "srv_router srv = Some r"
    and "serve_request io finish_cgi call r (wk_id (th_worker th)) d (wk_context (th_worker th)) srv =
      (d', cx, srv')"
  shows "fold (run_event io pf finish_cgi tick call) [Step, Step, Step] (th, srv) =
    (th\<lparr>th_worker := (th_worker th)\<lparr>wk_context := cx\<rparr>, th_phase := Testing,
        th_answered := th_answered th @ [d']\<rparr>, srv')"
proof -
  let ?wk = "(th_worker th)\<lparr>wk_context := (wk_context (th_worker th))\<lparr>cx_global_context := srv_global_context srv\<rparr>\<rparr>"
  obtain res cx1 where route: "route_request io call r (wk_id (th_worker th))
      (set_request (request_new (srv_syms srv) d (srv_logger srv)) (wk_context ?wk)) = (res, cx1)"
    by fastforce
  let ?rq = "log_request io (finish_response io res (cx_request cx1))"
  have copied: "copy_shared d th srv = th\<lparr>th_phase := Handling r d, th_worker := ?wk\<rparr>"
    using assms(2) by (simp add: copy_shared_def)
  have rq: "?rq\<lparr>rq_syms := rq_syms ?rq, rq_logger := rq_logger ?rq\<rparr> = ?rq"
    by simp
  show ?thesis
    using assms(1,3) route
    by (simp add: thread_step_def copied handle_accepted_def close_request_def serve_request_def
        closing_truncated publish_update set_request_parts publish_keeps rq Let_def split_beta)
qed

text \<open>What reaches a thread in one round, as events.\<close>

definition poll_events :: "'d poll \<Rightarrow> 'd thread_event list" where
  "poll_events pl =
    (if poll_usr1 pl then [Usr1] else []) @ (if poll_usr2 pl then [Usr2] else []) @
    [Step, Step, AcceptReturns (poll_result pl) (poll_data pl)] @
    (if poll_result pl = 0 then [Step, Step, Step] else [])"

lemma stopped_event:
  "th_phase th = Ended \<or> th_phase th = NoRouter \<Longrightarrow> run_event io pf finish_cgi tick call e (th, srv) = (th, srv)"
  by (cases e) (auto simp: thread_signal_def thread_step_def)

lemma stopped_events:
  "th_phase th = Ended \<or> th_phase th = NoRouter \<Longrightarrow>
   fold (run_event io pf finish_cgi tick call) es (th, srv) = (th, srv)"
  by (induction es) (simp_all add: stopped_event)

lemma signal_events:
  "th_phase th = Testing \<Longrightarrow>
   fold (run_event io pf finish_cgi tick call)
     ((if poll_usr1 pl then [Usr1] else []) @ (if poll_usr2 pl then [Usr2] else [])) (th, srv) =
   (th\<lparr>th_worker := receive_signals pl (th_worker th)\<rparr>, srv)"
  by (simp add: thread_signal_def receive_signals_def)

text \<open>The phase and the answers after a round that ends so.\<close>

fun after_round :: "'d round_end \<Rightarrow> 'u worker \<Rightarrow> ('u, 'c, 'd, 'r) thread \<Rightarrow> ('u, 'c, 'd, 'r) thread" where
  "after_round (NextRound d) wk th =
     th\<lparr>th_worker := wk, th_answered := th_answered th @ (case d of None \<Rightarrow> [] | Some d \<Rightarrow> [d])\<rparr>"
| "after_round LeaveLoop wk th = th\<lparr>th_worker := wk, th_phase := Ended\<rparr>"
| "after_round NullRouter wk th = th\<lparr>th_worker := wk, th_phase := NoRouter\<rparr>"

lemma round_events:
  assumes "th_phase th = Testing"
    and "worker_round io pf finish_cgi tick call pl (th_worker th) srv = (re, wk, srv')"
  shows "fold (run_event io pf finish_cgi tick call) (poll_events pl) (th, srv) =
    (after_round re wk th, if re = LeaveLoop then snd (thread_ends (io_log io) (after_round re wk th) srv') else srv')"
proof -
  let ?run = "fold (run_event io pf finish_cgi tick call)"
  let ?wk = "receive_signals pl (th_worker th)"
  let ?wk2 = "worker_tick tick ?wk"
  have signals: "?run (poll_events pl) (th, srv) =
      ?run ([Step, Step, AcceptReturns (poll_result pl) (poll_data pl)] @
        (if poll_result pl = 0 then [Step, Step, Step] else [])) (th\<lparr>th_worker := ?wk\<rparr>, srv)"
    unfolding poll_events_def fold_append o_apply
    using signal_events [OF assms(1), unfolded fold_append o_apply] by metis
  show ?thesis
  proof (cases "wk_shutdown ?wk")
    case True
    have "run_event io pf finish_cgi tick call Step (th\<lparr>th_worker := ?wk\<rparr>, srv) =
        thread_ends (io_log io) (th\<lparr>th_worker := ?wk\<rparr>) srv"
      using True assms(1) by (simp add: thread_step_def)
    with True assms(2) show ?thesis
      unfolding signals
      by (auto simp: thread_ends_def stopped_event worker_round_def simp del: run_event.simps)
  next
    case False
    let ?th2 = "th\<lparr>th_worker := ?wk2, th_phase := Accepting\<rparr>"
    have entered: "?run [Step, Step] (th\<lparr>th_worker := ?wk\<rparr>, srv) = (?th2, srv)"
      using False assms(1) by (simp add: thread_step_def)
    show ?thesis
    proof (cases "poll_result pl = 0")
      case False
      with entered \<open>\<not> wk_shutdown ?wk\<close> assms show ?thesis
        unfolding signals
        by (auto simp: accept_returns_def thread_ends_def worker_round_def Let_def split: if_splits)
    next
      case True
      show ?thesis
      proof (cases "srv_router srv")
        case None
        with True entered False assms show ?thesis
          unfolding signals
          by (auto simp: accept_returns_def worker_round_def Let_def copy_shared_def thread_step_def)
      next
        case (Some r)
        obtain d' cx s where serve: "serve_request io finish_cgi call r (wk_id ?wk2) (poll_data pl)
            (wk_context ?wk2) srv = (d', cx, s)"
          using prod_cases3 by blast
        have id: "wk_id ?wk2 = wk_id ?wk" by (simp add: worker_tick_def)
        have "?run [Step, Step, Step] (th\<lparr>th_worker := ?wk2, th_phase := Accepted (poll_data pl)\<rparr>, srv) =
            (th\<lparr>th_worker := ?wk2\<lparr>wk_context := cx\<rparr>, th_phase := Testing,
              th_answered := th_answered th @ [d']\<rparr>, s)"
          using serve_steps [OF _ Some, of "th\<lparr>th_worker := ?wk2, th_phase := Accepted (poll_data pl)\<rparr>"
              "poll_data pl" io finish_cgi call d' cx s pf tick] serve by simp
        with True entered False Some assms serve show ?thesis
          unfolding signals
          by (auto simp: accept_returns_def worker_round_def Let_def split_beta)
      qed
    qed
  qed
qed

lemma loop_events:
  assumes "th_phase th = Testing"
    and "worker_loop io pf finish_cgi tick call pls (th_worker th) srv = (st, ds, wk, srv')"
  shows "fold (run_event io pf finish_cgi tick call) (concat (map poll_events pls)) (th, srv) =
    (th\<lparr>th_worker := wk, th_answered := th_answered th @ ds,
       th_phase := (case st of Running \<Rightarrow> Testing | Finished \<Rightarrow> Ended | Crashed \<Rightarrow> NoRouter)\<rparr>, srv')"
  using assms
proof (induction pls arbitrary: th srv st ds wk srv')
  case (Cons pl pls)
  obtain re wk1 srv1 where round: "worker_round io pf finish_cgi tick call pl (th_worker th) srv = (re, wk1, srv1)"
    using prod_cases3 by blast
  note step = round_events [OF Cons.prems(1) round]
  show ?case
  proof (cases re)
    case (NextRound d)
    obtain st2 ds2 wk2 srv2 where rest: "worker_loop io pf finish_cgi tick call pls wk1 srv1 = (st2, ds2, wk2, srv2)"
      using prod_cases4 by blast
    have th1: "th_phase (after_round re wk1 th) = Testing" "th_worker (after_round re wk1 th) = wk1"
      using NextRound Cons.prems(1) by simp_all
    show ?thesis
      using Cons.IH [OF th1(1), of srv1] step rest round Cons.prems(2) NextRound unfolding th1(2)
      by (auto split: option.splits)
  next
    case LeaveLoop
    then show ?thesis
      using step round Cons.prems(2) by (auto simp: stopped_events thread_ends_def)
  next
    case NullRouter
    then show ?thesis
      using step round Cons.prems(2) by (auto simp: stopped_events)
  qed
qed simp

text \<open>A worker that runs alone, cut into its steps with the signals and the results of accepting
  between them, does what \<open>worker_loop\<close> does round by round: the two models of the loop agree.\<close>

lemma steps_make_loop:
  assumes "worker_loop io pf finish_cgi tick call pls wk srv = (st, ds, wk', srv')"
  shows "fold (run_event io pf finish_cgi tick call) (concat (map poll_events pls)) (thread_started wk, srv) =
    (\<lparr>th_worker = wk',
      th_phase = (case st of Running \<Rightarrow> Testing | Finished \<Rightarrow> Ended | Crashed \<Rightarrow> NoRouter),
      th_answered = ds\<rparr>, srv')"
  using loop_events [of "thread_started wk" io pf finish_cgi tick call pls srv] assms
  by (simp add: thread_started_def)

section \<open>Several threads\<close>

lemma pool_event_thread:
  "fst (pool_event io pf finish_cgi tick call e pool) ! i =
    (if fst e = i \<and> i < length (fst pool)
     then fst (run_event io pf finish_cgi tick call (snd e) (fst pool ! i, snd pool)) else fst pool ! i)"
  "length (fst (pool_event io pf finish_cgi tick call e pool)) = length (fst pool)"
  by (auto simp: pool_event_def split_beta)

lemma run_event_router:
  "srv_router (snd (run_event io pf finish_cgi tick call e (th, srv))) = srv_router srv"
  by (cases e)
    (auto simp: thread_step_def thread_ends_def accept_returns_def handle_accepted_def close_request_def
      publish_global_context_def server_log_line_def Let_def split_beta split: phase.splits)

lemma pool_event_router: "srv_router (snd (pool_event io pf finish_cgi tick call e pool)) = srv_router (snd pool)"
  by (simp add: pool_event_def split_beta run_event_router)

text \<open>A thread that will not accept again: how many steps it has left, and whether a request is
  in its hands.\<close>

definition stopping :: "('u, 'c, 'd, 'r) thread \<Rightarrow> bool" where
  "stopping th \<longleftrightarrow> (th_phase th = Ended \<or> wk_shutdown (th_worker th)) \<and>
     (case th_phase th of Entering \<Rightarrow> False | Accepting \<Rightarrow> False | NoRouter \<Rightarrow> False | _ \<Rightarrow> True)"

fun steps_left :: "('c, 'd, 'r) phase \<Rightarrow> nat" where
  "steps_left (Accepted d) = 4"
| "steps_left (Handling r d) = 3"
| "steps_left (Closing rq) = 2"
| "steps_left Testing = 1"
| "steps_left _ = 0"

definition requests_held :: "('u, 'c, 'd, 'r) thread \<Rightarrow> nat" where
  "requests_held th = length (th_answered th) + (if 1 < steps_left (th_phase th) then 1 else 0)"

lemma stopping_event:
  assumes "stopping th" "srv_router srv \<noteq> None"
  shows "stopping (fst (run_event io pf finish_cgi tick call e (th, srv)))"
    and "steps_left (th_phase (fst (run_event io pf finish_cgi tick call e (th, srv)))) \<le>
      steps_left (th_phase th) - (if e = Step then 1 else 0)"
    and "requests_held (fst (run_event io pf finish_cgi tick call e (th, srv))) = requests_held th"
  using assms
  by (cases e; cases "th_phase th";
      auto simp: stopping_def thread_signal_def thread_step_def thread_ends_def copy_shared_def
        handle_accepted_def close_request_def requests_held_def Let_def split_beta)+

lemma stopping_pool:
  assumes "i < length (fst pool)" "stopping (fst pool ! i)" "srv_router (snd pool) \<noteq> None"
  shows "stopping (fst (fold (pool_event io pf finish_cgi tick call) es pool) ! i) \<and>
    steps_left (th_phase (fst (fold (pool_event io pf finish_cgi tick call) es pool) ! i)) \<le>
      steps_left (th_phase (fst pool ! i)) - length (filter (\<lambda>e. e = (i, Step)) es) \<and>
    requests_held (fst (fold (pool_event io pf finish_cgi tick call) es pool) ! i) = requests_held (fst pool ! i)"
  using assms
proof (induction es arbitrary: pool)
  case (Cons e es)
  let ?p = "pool_event io pf finish_cgi tick call e pool"
  note one = stopping_event [OF Cons.prems(2,3), of io pf finish_cgi tick call "snd e"]
  have "stopping (fst ?p ! i)" "requests_held (fst ?p ! i) = requests_held (fst pool ! i)"
    "steps_left (th_phase (fst ?p ! i)) \<le> steps_left (th_phase (fst pool ! i)) - (if e = (i, Step) then 1 else 0)"
    using one Cons.prems(1,2) by (auto simp: pool_event_thread prod_eq_iff)
  then show ?case
    using Cons.IH [of ?p] Cons.prems by (auto simp: pool_event_thread pool_event_router split: if_splits)
qed simp

text \<open>A thread in the window between its test and the accepting call, with nothing but its own
  steps to come.\<close>

definition entered :: "('u, 'c, 'd, 'r) thread \<Rightarrow> bool" where
  "entered th \<longleftrightarrow> wk_shutdown (th_worker th) \<and> (th_phase th = Entering \<or> th_phase th = Accepting)"

lemma entered_pool:
  assumes "i < length (fst pool)" "entered (fst pool ! i)" "\<forall>e\<in>set es. fst e = i \<longrightarrow> snd e = Step"
  shows "entered (fst (fold (pool_event io pf finish_cgi tick call) es pool) ! i) \<and>
    ((i, Step) \<in> set es \<or> th_phase (fst pool ! i) = Accepting \<longrightarrow>
      th_phase (fst (fold (pool_event io pf finish_cgi tick call) es pool) ! i) = Accepting)"
  using assms
proof (induction es arbitrary: pool)
  case (Cons e es)
  let ?p = "pool_event io pf finish_cgi tick call e pool"
  have "entered (fst ?p ! i) \<and> (e = (i, Step) \<or> th_phase (fst pool ! i) = Accepting \<longrightarrow> th_phase (fst ?p ! i) = Accepting)"
    using Cons.prems by (auto simp: pool_event_thread entered_def thread_step_def)
  then show ?case
    using Cons.IH [of ?p] Cons.prems by (auto simp: pool_event_thread)
qed simp

text \<open>A request that is about to be closed stays so whatever the other threads do.\<close>

lemma closing_pool:
  assumes "i < length (fst pool)" "th_phase (fst pool ! i) = Closing rq"
    and "\<forall>e\<in>set es. fst e = i \<longrightarrow> snd e \<noteq> Step"
  shows "th_phase (fst (fold (pool_event io pf finish_cgi tick call) es pool) ! i) = Closing rq \<and>
    th_answered (fst (fold (pool_event io pf finish_cgi tick call) es pool) ! i) = th_answered (fst pool ! i) \<and>
    length (fst (fold (pool_event io pf finish_cgi tick call) es pool)) = length (fst pool)"
  using assms
proof (induction es arbitrary: pool)
  case (Cons e es)
  let ?p = "pool_event io pf finish_cgi tick call e pool"
  have "th_phase (fst ?p ! i) = Closing rq \<and> th_answered (fst ?p ! i) = th_answered (fst pool ! i)"
    using Cons.prems by (cases "snd e") (auto simp: pool_event_thread thread_signal_def)
  then show ?case
    using Cons.IH [of ?p] Cons.prems by (simp add: pool_event_thread)
qed simp

lemma closed_answer:
  assumes "i < length (fst pool)" "th_phase (fst pool ! i) = Closing rq" "rq_headers_sent rq"
  shows "th_answered (fst (pool_event io pf finish_cgi tick call (i, Step) pool) ! i) =
    th_answered (fst pool ! i) @ [finish_cgi (rq_cgi rq)]"
  using assms
  by (simp add: pool_event_thread thread_step_def close_request_def request_destroy_def Let_def split_beta)

lemma handle_accepted_handled:
  "th_phase (fst (handle_accepted io call r d th srv)) =
    Closing (handled_request io call r (wk_id (th_worker th))
      (set_request (request_new (srv_syms srv) d (srv_logger srv)) (wk_context (th_worker th))))"
  "th_answered (fst (handle_accepted io call r d th srv)) = th_answered th"
  by (simp_all add: handle_accepted_def handled_request_def Let_def split_beta)

definition sample_worker :: "unit worker" where
  "sample_worker = \<lparr>wk_id = 1, wk_context = context_new, wk_shutdown = False, wk_tick = False\<rparr>"

section \<open>Properties\<close>

text \<open>C14: Whatever the other workers do while a request is handled and until it is closed, and
  whatever signals and router, the client of that request gets one complete response: between
  the two steps of its own thread nothing that others do reaches the request.\<close>

theorem answered_among_others:
  assumes "io_cgi io = mock_ops" "\<And>hs. mset (io_order io hs) = mset hs" "symtab_ok (srv_syms srv)"
    and "\<forall>c\<in>set cs. call_ok (srv_syms srv) c" "headers_usable cs" "m_writebuf d = ''''"
    and "i < length ths" "th_phase (ths ! i) = Handling r d"
    and "call_server_router io call r (set_request (request_new (srv_syms srv) d (srv_logger srv))
        (wk_context (th_worker (ths ! i)))) = (result, cx)"
    and "cx_request cx = fold (call_step io) cs (request_new (srv_syms srv) d (srv_logger srv))"
    and "\<forall>e\<in>set es. fst e = i \<longrightarrow> snd e \<noteq> Step"
    and "fold (pool_event io pf finish_cgi tick call) ((i, Step) # es @ [(i, Step)]) (ths, srv) = (ths', srv')"
  shows "\<exists>hs d'. th_answered (ths' ! i) = th_answered (ths ! i) @ [finish_cgi d'] \<and>
    m_writebuf d' = concat (map (header_text (srv_syms srv)) hs) @ crlf @
      served_body (route_answer result) cs \<and>
    distinct (map fst hs) \<and>
    map_of hs = map_of (served_defaults (route_answer result) cs) ++ map_of (early_headers cs)"
proof -
  let ?rq = "handled_request io call r (wk_id (th_worker (ths ! i)))
    (set_request (request_new (srv_syms srv) d (srv_logger srv)) (wk_context (th_worker (ths ! i))))"
  let ?p1 = "pool_event io pf finish_cgi tick call (i, Step) (ths, srv)"
  let ?p2 = "fold (pool_event io pf finish_cgi tick call) es ?p1"
  have "refines m_writebuf io (srv_syms srv) (m_writebuf d) (srv_logger srv) (cx_request cx)
      (fold re_step cs re_init)"
    unfolding assms(10) by (rule calls_written [OF assms(1) mset_eq_setD [OF assms(2)] assms(3,4)])
  note handled = handled_request_written [OF assms(1) mset_eq_setD [OF assms(2)] assms(3,5,9) this,
      of "wk_id (th_worker (ths ! i))"]
  have "th_phase (fst ?p1 ! i) = Closing ?rq" "th_answered (fst ?p1 ! i) = th_answered (ths ! i)"
      "i < length (fst ?p1)"
    using assms(7,8) by (simp_all add: pool_event_thread thread_step_def handle_accepted_handled)
  then have "th_phase (fst ?p2 ! i) = Closing ?rq" "th_answered (fst ?p2 ! i) = th_answered (ths ! i)"
      "i < length (fst ?p2)"
    using closing_pool [of i ?p1 ?rq es io pf finish_cgi tick call] assms(11) by simp_all
  moreover have "ths' = fst (pool_event io pf finish_cgi tick call (i, Step) ?p2)"
    using assms(12) by simp
  ultimately have "th_answered (ths' ! i) = th_answered (ths ! i) @ [finish_cgi (rq_cgi ?rq)]"
    using closed_answer [of i ?p2 ?rq] handled by simp
  then show ?thesis
    using handled served_text [OF assms(2,5,6)] by metis
qed

theorem answered_among_others_witness:
  "\<exists>hs d'. th_answered (fst (fold (pool_event sample_io sample_platform id id (\<lambda>r cx. (Inl (StdException ''boom''), cx)))
      [(0, Step), (1, Step), (0, Usr1), (1, Step), (0, Step)]
      ([(thread_started sample_worker)\<lparr>th_phase := Handling (Registered ()) (mock_cgi_new '''' [])\<rparr>,
        thread_started sample_worker], sample_server)) ! 0) = [d'] \<and>
    m_writebuf d' = concat (map (header_text boot_table) hs) @ crlf @ ''500'' \<and>
    map_of hs sym_Status = Some ''500'' \<and> map_of hs sym_ContentType = Some ''text/plain''"
proof -
  have "io_cgi sample_io = mock_ops" "mset (io_order sample_io hs) = mset hs" for hs
    by (simp_all add: sample_io_def)
  moreover have "headers_usable []" "early_headers [] = []"
    by (simp_all add: headers_usable_def early_headers_def)
  moreover have "served_body InternalError [] = ''500''"
    "served_defaults InternalError [] = [(sym_Status, ''500''), (sym_ContentType, ''text/plain'')]"
    by (simp_all only: served_body_def served_defaults_def served_status_def early_headers_def
        result_status_text) simp_all
  moreover obtain ths' srv' where run: "fold (pool_event sample_io sample_platform id id
      (\<lambda>r cx. (Inl (StdException ''boom''), cx))) ((0, Step) # [(1, Step), (0, Usr1), (1, Step)] @ [(0, Step)])
      ([(thread_started sample_worker)\<lparr>th_phase := Handling (Registered ()) (mock_cgi_new '''' [])\<rparr>,
        thread_started sample_worker], sample_server) = (ths', srv')"
    by fastforce
  ultimately obtain hs d' where "th_answered (ths' ! 0) = [d']"
      "m_writebuf d' = concat (map (header_text boot_table) hs) @ crlf @ ''500''"
      "map_of hs = [sym_ContentType \<mapsto> ''text/plain'', sym_Status \<mapsto> ''500'']"
    using answered_among_others [of sample_io sample_server "[]" "mock_cgi_new '''' []" 0
        "[(thread_started sample_worker)\<lparr>th_phase := Handling (Registered ()) (mock_cgi_new '''' [])\<rparr>,
          thread_started sample_worker]" "Registered ()" "\<lambda>r cx. (Inl (StdException ''boom''), cx)"
        "Inl (StdException ''boom'')" _ "[(1, Step), (0, Usr1), (1, Step)]" sample_platform id id ths' srv']
    by (auto simp: symtab_ok_boot mock_cgi_new_def call_server_router_def set_request_parts
        route_answer_def sym_values thread_started_def simp del: fold.simps(2))
  with run show ?thesis
    by (intro exI [of _ hs] exI [of _ d']) (simp add: sym_values del: fold.simps(2))
qed

text \<open>C16: A worker told to stop at any point but one accepts no further request: whatever happens
  then, it answers at most the request it holds, and after four more steps of its own it has
  ended.\<close>

theorem shutdown_reaches_worker:
  assumes "i < length ths" "th_phase (ths ! i) \<noteq> Entering" "th_phase (ths ! i) \<noteq> NoRouter"
    and "srv_router srv \<noteq> None"
    and "fold (pool_event io pf finish_cgi tick call) ((i, Usr1) # es) (ths, srv) = (ths', srv')"
  shows "length (th_answered (ths' ! i)) \<le> length (th_answered (ths ! i)) + 1 \<and>
    (4 \<le> length (filter (\<lambda>e. e = (i, Step)) es) \<longrightarrow> th_phase (ths' ! i) = Ended)"
proof -
  let ?p = "pool_event io pf finish_cgi tick call (i, Usr1) (ths, srv)"
  have p: "stopping (fst ?p ! i)" "i < length (fst ?p)" "srv_router (snd ?p) \<noteq> None"
      "th_answered (fst ?p ! i) = th_answered (ths ! i)" "steps_left (th_phase (fst ?p ! i)) \<le> 4"
    using assms(1-4)
    by (cases "th_phase (ths ! i)"; simp add: pool_event_thread pool_event_router stopping_def thread_signal_def)+
  have q: "ths' = fst (fold (pool_event io pf finish_cgi tick call) es ?p)"
    using assms(5) by simp
  note run = stopping_pool [OF p(2,1,3), of io pf finish_cgi tick call es, folded q]
  have "th_phase (ths' ! i) = Ended" if "steps_left (th_phase (ths' ! i)) = 0"
    using that run by (cases "th_phase (ths' ! i)") (auto simp: stopping_def)
  then show ?thesis
    using run p(4,5) by (auto simp: requests_held_def split: if_splits)
qed

theorem shutdown_reaches_worker_witness:
  "th_phase (fst (fold (pool_event sample_io sample_platform id id (\<lambda>r cx. (Inr Handled, cx)))
      ((0, Usr1) # replicate 4 (0, Step)) ([(thread_started sample_worker)\<lparr>th_phase := Accepting\<rparr>], sample_server)) ! 0) =
    Ended"
  using shutdown_reaches_worker [of 0 "[(thread_started sample_worker)\<lparr>th_phase := Accepting\<rparr>]" sample_server
      sample_io sample_platform id id "\<lambda>r cx. (Inr Handled, cx)" "replicate 4 (0, Step)"
      "fst (fold (pool_event sample_io sample_platform id id (\<lambda>r cx. (Inr Handled, cx)))
        ((0, Usr1) # replicate 4 (0, Step)) ([(thread_started sample_worker)\<lparr>th_phase := Accepting\<rparr>], sample_server))"
      "snd (fold (pool_event sample_io sample_platform id id (\<lambda>r cx. (Inr Handled, cx)))
        ((0, Usr1) # replicate 4 (0, Step)) ([(thread_started sample_worker)\<lparr>th_phase := Accepting\<rparr>], sample_server))"]
  by (simp del: fold.simps)

text \<open>C31: The one point is the window between the test of the flag and the accepting call: a worker
  told to stop there goes on into that call and stays there, whatever the others do, until a
  request comes or another signal, so joining it does not return.\<close>

theorem shutdown_lost_in_window:
  assumes "i < length ths" "th_phase (ths ! i) = Entering"
    and "\<forall>e\<in>set es. fst e = i \<longrightarrow> snd e = Step"
    and "fold (pool_event io pf finish_cgi tick call) ((i, Usr1) # es) (ths, srv) = (ths', srv')"
  shows "wk_shutdown (th_worker (ths' ! i)) \<and> th_phase (ths' ! i) \<noteq> Ended \<and>
    ((i, Step) \<in> set es \<longrightarrow> th_phase (ths' ! i) = Accepting)"
proof -
  let ?p = "pool_event io pf finish_cgi tick call (i, Usr1) (ths, srv)"
  have "entered (fst ?p ! i)" "i < length (fst ?p)"
    using assms(1,2) by (simp_all add: pool_event_thread entered_def thread_signal_def)
  moreover have "ths' = fst (fold (pool_event io pf finish_cgi tick call) es ?p)"
    using assms(4) by simp
  ultimately show ?thesis
    using entered_pool [of i ?p es io pf finish_cgi tick call] assms(3) by (auto simp: entered_def)
qed

theorem shutdown_lost_in_window_witness:
  "th_phase (fst (fold (pool_event sample_io sample_platform id id (\<lambda>r cx. (Inr Handled, cx)))
      [(0, Usr1), (0, Step), (0, Step)] ([(thread_started sample_worker)\<lparr>th_phase := Entering\<rparr>], sample_server)) ! 0) =
    Accepting"
  using shutdown_lost_in_window [of 0 "[(thread_started sample_worker)\<lparr>th_phase := Entering\<rparr>]"
      "[(0, Step), (0, Step)]" sample_io sample_platform id id "\<lambda>r cx. (Inr Handled, cx)" sample_server]
  by (metis (no_types, lifting) prod.collapse fst_conv length_Cons less_Suc_eq_0_disj list.size(3) nth_Cons_0
      set_ConsD list.set_intros(1) empty_iff list.set(1) snd_conv thread.select_convs(2) thread.surjective
      thread.update_convs(2))

end
