(* ===== verification/GlobalContext.thy ===== *)
theory GlobalContext
  imports Workers
begin

text \<open>
  The global context of a server while its workers answer requests: each request gets a copy of
  the shared pointer, a handler may replace it, and the worker writes the replacement back when
  the request is done (the end of the loop in \<open>thread_function\<close> of \<open>server.cpp\<close>).
\<close>

section \<open>What is written back\<close>

text \<open>The context a worker writes back with its next step, if any.\<close>

definition publishes :: "('u, 'c, 'd, 'r) thread \<Rightarrow> 'u option list" where
  "publishes th =
    (case th_phase th of
       Closing rq \<Rightarrow>
         if cx_replaced_global_context (wk_context (th_worker th))
         then [cx_global_context (wk_context (th_worker th))] else []
     | _ \<Rightarrow> [])"

text \<open>The contexts written back over a sequence of events of all workers.\<close>

fun publications ::
  "('c, 'd) request_io \<Rightarrow> platform \<Rightarrow> ('d \<Rightarrow> 'd) \<Rightarrow> ('u \<Rightarrow> 'u) \<Rightarrow>
   ('r \<Rightarrow> ('u, 'c, 'd) request_context \<Rightarrow> (RouteResult, ('u, 'c, 'd) request_context) outcome) \<Rightarrow>
   (nat \<times> 'd thread_event) list \<Rightarrow> ('u, 'c, 'd, 'r) thread list \<times> ('c, 'r, 'u) server \<Rightarrow> 'u option list"
where
  "publications io pf finish_cgi tick call [] pool = []"
| "publications io pf finish_cgi tick call ((i, e) # es) pool =
     (case e of Step \<Rightarrow> if i < length (fst pool) then publishes (fst pool ! i) else [] | _ \<Rightarrow> []) @
     publications io pf finish_cgi tick call es (pool_event io pf finish_cgi tick call (i, e) pool)"

text \<open>What the handlers replace it with: the context a handler leaves when it is called with one that
  nothing has replaced yet, if it then is replaced; it counts when its request is closed, so
  \<open>held\<close> keeps what the request of each worker waits with.\<close>

definition replaces ::
  "('c, 'd) request_io \<Rightarrow>
   ('r \<Rightarrow> ('u, 'c, 'd) request_context \<Rightarrow> (RouteResult, ('u, 'c, 'd) request_context) outcome) \<Rightarrow>
   'r server_router \<Rightarrow> 'd \<Rightarrow> ('u, 'c, 'd, 'r) thread \<Rightarrow> ('c, 'r, 'u) server \<Rightarrow> 'u option list"
where
  "replaces io call r d th srv =
    (let cx = snd (call_server_router io call r
           (set_request (request_new (srv_syms srv) d (srv_logger srv))
             ((wk_context (th_worker th))\<lparr>cx_replaced_global_context := False\<rparr>)))
     in if cx_replaced_global_context cx then [cx_global_context cx] else [])"

fun replacements ::
  "('c, 'd) request_io \<Rightarrow> platform \<Rightarrow> ('d \<Rightarrow> 'd) \<Rightarrow> ('u \<Rightarrow> 'u) \<Rightarrow>
   ('r \<Rightarrow> ('u, 'c, 'd) request_context \<Rightarrow> (RouteResult, ('u, 'c, 'd) request_context) outcome) \<Rightarrow>
   (nat \<Rightarrow> 'u option list) \<Rightarrow>
   (nat \<times> 'd thread_event) list \<Rightarrow> ('u, 'c, 'd, 'r) thread list \<times> ('c, 'r, 'u) server \<Rightarrow> 'u option list"
where
  "replacements io pf finish_cgi tick call held [] pool = []"
| "replacements io pf finish_cgi tick call held ((i, e) # es) pool =
     (let pool' = pool_event io pf finish_cgi tick call (i, e) pool in
      case (if i < length (fst pool) then e else Usr1, th_phase (fst pool ! i)) of
        (Step, Handling r d) \<Rightarrow>
          replacements io pf finish_cgi tick call
            (held(i := replaces io call r d (fst pool ! i) (snd pool))) es pool'
      | (Step, Closing rq) \<Rightarrow> held i @ replacements io pf finish_cgi tick call held es pool'
      | _ \<Rightarrow> replacements io pf finish_cgi tick call held es pool')"

section \<open>The threads over a history of contexts\<close>

text \<open>Outside the closing of a request nothing waits to be written back, and a handler has a
  context of the history.\<close>

definition context_ok :: "'u option list \<Rightarrow> ('u, 'c, 'd, 'r) thread \<Rightarrow> bool" where
  "context_ok hist th \<longleftrightarrow>
    ((\<forall>rq. th_phase th \<noteq> Closing rq) \<longrightarrow> \<not> cx_replaced_global_context (wk_context (th_worker th))) \<and>
    (\<forall>r d. th_phase th = Handling r d \<longrightarrow> cx_global_context (wk_context (th_worker th)) \<in> set hist)"

lemma context_ok_more: "context_ok hist th \<Longrightarrow> context_ok (hist @ new) th"
  by (auto simp: context_ok_def)

lemma step_context:
  fixes th :: "('u, 'c, 'd, 'r) thread"
  assumes "context_ok hist th" "hist \<noteq> []" "srv_global_context srv = last hist"
    and "thread_step io finish_cgi tick call th srv = (th', srv')"
  shows "context_ok (hist @ publishes th) th' \<and> srv_global_context srv' = last (hist @ publishes th)"
proof (cases "th_phase th")
  case (Closing rq)
  with assms show ?thesis
    by (auto simp: thread_step_def close_request_def publish_global_context_def set_request_def
        context_base.defs context_ok_def publishes_def Let_def)
qed (use assms in \<open>auto simp: thread_step_def thread_ends_def worker_tick_def copy_shared_def
    handle_accepted_def server_log_line_def context_ok_def publishes_def Let_def split_beta
    split: if_splits option.splits\<close>)

lemma event_context:
  assumes "context_ok hist th" "hist \<noteq> []" "srv_global_context srv = last hist"
    and "run_event io pf finish_cgi tick call e (th, srv) = (th', srv')"
  defines "pubs \<equiv> (case e of Step \<Rightarrow> publishes th | _ \<Rightarrow> [])"
  shows "context_ok (hist @ pubs) th' \<and> srv_global_context srv' = last (hist @ pubs)"
proof (cases e)
  case Step
  then show ?thesis
    using step_context [OF assms(1-3)] assms(4) by (simp add: pubs_def)
next
  case (AcceptReturns result d)
  then show ?thesis
    using assms
    by (auto simp: accept_returns_def thread_ends_def server_log_line_def context_ok_def split: if_splits)
qed (use assms in \<open>auto simp: thread_signal_def context_ok_def split: if_splits\<close>)

lemma pool_context:
  assumes "\<forall>th\<in>set (fst pool). context_ok hist th" "hist \<noteq> []" "srv_global_context (snd pool) = last hist"
  shows "(\<forall>th\<in>set (fst (fold (pool_event io pf finish_cgi tick call) es pool)).
      context_ok (hist @ publications io pf finish_cgi tick call es pool) th) \<and>
    srv_global_context (snd (fold (pool_event io pf finish_cgi tick call) es pool)) =
      last (hist @ publications io pf finish_cgi tick call es pool)"
  using assms
proof (induction es arbitrary: pool hist)
  case (Cons e es)
  obtain i ev where e: "e = (i, ev)" by fastforce
  let ?p = "pool_event io pf finish_cgi tick call e pool"
  let ?now = "case ev of Step \<Rightarrow> if i < length (fst pool) then publishes (fst pool ! i) else [] | _ \<Rightarrow> []"
  have "(\<forall>th\<in>set (fst ?p). context_ok (hist @ ?now) th) \<and> srv_global_context (snd ?p) = last (hist @ ?now)"
  proof (cases "i < length (fst pool)")
    case True
    obtain th' srv' where run: "run_event io pf finish_cgi tick call ev (fst pool ! i, snd pool) = (th', srv')"
      by fastforce
    have "context_ok hist (fst pool ! i)"
      using True Cons.prems(1) by simp
    note one = event_context [OF this Cons.prems(2,3) run]
    have "?p = ((fst pool)[i := th'], srv')"
      using True run by (simp add: pool_event_def e)
    moreover have "th = th' \<or> th \<in> set (fst pool)" if "th \<in> set ((fst pool)[i := th'])" for th
      using that set_update_subset_insert by fastforce
    ultimately show ?thesis
      using True one Cons.prems(1) context_ok_more [of hist] by (cases ev) auto
  next
    case False
    then show ?thesis
      using Cons.prems by (cases ev) (simp_all add: pool_event_def e)
  qed
  then show ?case
    using Cons.IH [of ?p "hist @ ?now"] Cons.prems(2) by (simp add: e)
qed simp

section \<open>A handler's replacement\<close>

lemma handled_publishes:
  assumes "call_server_router io call r (set_request (request_new (srv_syms srv) d (srv_logger srv))
      (wk_context (th_worker th))) = (result, cx)"
  shows "publishes (fst (handle_accepted io call r d th srv)) =
    (if cx_replaced_global_context cx then [cx_global_context cx] else [])"
  using assms
  by (cases result) (simp_all add: publishes_def handle_accepted_def route_request_def Let_def split_beta
      context_base.defs)

lemma handled_replaces:
  assumes "\<not> cx_replaced_global_context (wk_context (th_worker th))"
  shows "publishes (fst (handle_accepted io call r d th srv)) = replaces io call r d th srv"
proof -
  have "(wk_context (th_worker th))\<lparr>cx_replaced_global_context := False\<rparr> = wk_context (th_worker th)"
    using assms by (cases "wk_context (th_worker th)") simp
  then show ?thesis
    using handled_publishes [where io = io and call = call and r = r and srv = srv and d = d and th = th,
        OF surjective_pairing]
    by (simp add: replaces_def Let_def)
qed

text \<open>Over any run the workers write back what the handlers have replaced.\<close>

definition held_ok :: "(nat \<Rightarrow> 'u option list) \<Rightarrow> ('u, 'c, 'd, 'r) thread list \<Rightarrow> bool" where
  "held_ok held ths \<longleftrightarrow> (\<forall>i < length ths. \<forall>rq. th_phase (ths ! i) = Closing rq \<longrightarrow> held i = publishes (ths ! i))"

lemma held_event:
  assumes "held_ok held (fst pool)" "i < length (fst pool)"
    and "\<And>rq. th_phase (fst (run_event io pf finish_cgi tick call e (fst pool ! i, snd pool))) = Closing rq \<Longrightarrow>
      h = publishes (fst (run_event io pf finish_cgi tick call e (fst pool ! i, snd pool)))"
  shows "held_ok (held(i := h)) (fst (pool_event io pf finish_cgi tick call (i, e) pool))"
  using assms by (auto simp: held_ok_def pool_event_thread)

lemma still_closing:
  assumes "th_phase (fst (run_event io pf finish_cgi tick call e (th, srv))) = Closing rq"
    and "e = Step \<Longrightarrow> \<not> (\<exists>r d. th_phase th = Handling r d)"
  shows "th_phase th = Closing rq \<and> publishes (fst (run_event io pf finish_cgi tick call e (th, srv))) = publishes th"
  using assms
  by (cases e; cases "th_phase th")
    (auto simp: thread_signal_def thread_step_def thread_ends_def copy_shared_def close_request_def
      accept_returns_def publishes_def Let_def split_beta split: if_splits option.splits)

lemma publications_replacements:
  assumes "\<forall>th\<in>set (fst pool). context_ok hist th" "hist \<noteq> []" "srv_global_context (snd pool) = last hist"
    and "held_ok held (fst pool)"
  shows "publications io pf finish_cgi tick call es pool = replacements io pf finish_cgi tick call held es pool"
  using assms
proof (induction es arbitrary: pool hist held)
  case (Cons ie es)
  obtain i e where ie: "ie = (i, e)" by fastforce
  let ?p = "pool_event io pf finish_cgi tick call (i, e) pool"
  note next_ok = pool_context [OF Cons.prems(1-3), of io pf finish_cgi tick call "[(i, e)]", simplified]
  note IH = Cons.IH [of ?p "hist @ publications io pf finish_cgi tick call [(i, e)] pool", simplified]
  have rest: "publications io pf finish_cgi tick call es ?p = replacements io pf finish_cgi tick call held' es ?p"
    if "held_ok held' (fst ?p)" for held'
    using IH [of held'] next_ok Cons.prems(2) that by simp
  show ?case
  proof (cases "i < length (fst pool)")
    case False
    then show ?thesis
      using rest [of held] Cons.prems(4) by (cases e) (simp_all add: ie pool_event_def)
  next
    case True
    show ?thesis
    proof (cases "\<exists>r d. e = Step \<and> th_phase (fst pool ! i) = Handling r d")
      case True
      then obtain r d where h: "e = Step" "th_phase (fst pool ! i) = Handling r d" by blast
      with \<open>i < length (fst pool)\<close> Cons.prems(1)
      have "\<not> cx_replaced_global_context (wk_context (th_worker (fst pool ! i)))"
        by (auto simp: context_ok_def)
      then have "held_ok (held(i := replaces io call r d (fst pool ! i) (snd pool))) (fst ?p)"
        using h \<open>i < length (fst pool)\<close>
        by (intro held_event [OF Cons.prems(4)]) (simp_all add: thread_step_def handled_replaces)
      with rest h \<open>i < length (fst pool)\<close> show ?thesis
        by (simp add: ie publishes_def)
    next
      case False
      have "held i = publishes (fst pool ! i)" if "th_phase (fst pool ! i) = Closing rq" for rq
        using Cons.prems(4) True that by (simp add: held_ok_def)
      note held = this
      with False True have "held_ok (held(i := held i)) (fst ?p)"
        by (intro held_event [OF Cons.prems(4)]) (auto dest: still_closing)
      then have "publications io pf finish_cgi tick call es ?p = replacements io pf finish_cgi tick call held es ?p"
        by (intro rest) simp
      with False True held show ?thesis
        by (cases e; cases "th_phase (fst pool ! i)") (simp_all add: ie publishes_def)
    qed
  qed
qed simp

text \<open>The three steps of a request, as far as the global context goes.\<close>

lemma copy_step:
  fixes io and pf and finish_cgi and tick and call
  assumes "i < length (fst pool)" "th_phase (fst pool ! i) = Accepted d" "srv_router (snd pool) = Some r"
  defines "pool' \<equiv> pool_event io pf finish_cgi tick call (i, Step) pool"
  shows "th_phase (fst pool' ! i) = Handling r d"
    and "cx_global_context (wk_context (th_worker (fst pool' ! i))) = srv_global_context (snd pool)"
    and "srv_global_context (snd pool') = srv_global_context (snd pool)"
  using assms(1-3) by (simp_all add: pool'_def pool_event_def thread_step_def copy_shared_def split_beta)

lemma handle_step:
  fixes io and pf and finish_cgi and tick
  assumes "i < length (fst pool)" "th_phase (fst pool ! i) = Handling (Registered r) d"
    and "\<And>cx. call r cx = (Inr res, replace_global_context (f (cx_global_context cx)) cx)"
  defines "pool' \<equiv> pool_event io pf finish_cgi tick call (i, Step) pool"
  shows "publishes (fst pool' ! i) = [f (cx_global_context (wk_context (th_worker (fst pool ! i))))]"
    and "srv_global_context (snd pool') = srv_global_context (snd pool)"
proof -
  show "publishes (fst pool' ! i) = [f (cx_global_context (wk_context (th_worker (fst pool ! i))))]"
    using assms(1-3)
    by (simp add: pool'_def pool_event_thread thread_step_def handled_publishes call_server_router_def
        replace_global_context_def set_request_def context_base.defs)
  show "srv_global_context (snd pool') = srv_global_context (snd pool)"
    using assms(1,2) by (simp add: pool'_def pool_event_def thread_step_def handle_accepted_def Let_def split_beta)
qed

lemma close_step:
  assumes "i < length (fst pool)" "publishes (fst pool ! i) = [c]"
  shows "srv_global_context (snd (pool_event io pf finish_cgi tick call (i, Step) pool)) = c"
proof -
  obtain rq where "th_phase (fst pool ! i) = Closing rq"
    using assms(2) by (auto simp: publishes_def split: phase.splits)
  with assms show ?thesis
    by (auto simp: pool_event_def thread_step_def close_request_def publish_global_context_def publishes_def
        set_request_def context_base.defs Let_def split_beta split: if_splits)
qed

text \<open>A request whose three steps are not interrupted.\<close>

lemma request_replaces:
  fixes io and pf and finish_cgi and tick
  assumes "i < length (fst pool)" "th_phase (fst pool ! i) = Accepted d"
    and "srv_router (snd pool) = Some (Registered r)"
    and "\<And>cx. call r cx = (Inr res, replace_global_context (f (cx_global_context cx)) cx)"
  defines "pool' \<equiv> fold (pool_event io pf finish_cgi tick call) [(i, Step), (i, Step), (i, Step)] pool"
  shows "srv_global_context (snd pool') = f (srv_global_context (snd pool))"
    and "length (fst pool') = length (fst pool)" "srv_router (snd pool') = srv_router (snd pool)"
    and "j \<noteq> i \<Longrightarrow> fst pool' ! j = fst pool ! j"
proof -
  define a where "a = pool_event io pf finish_cgi tick call (i, Step) pool"
  define b where "b = pool_event io pf finish_cgi tick call (i, Step) a"
  have a: "th_phase (fst a ! i) = Handling (Registered r) d" "length (fst a) = length (fst pool)"
      "cx_global_context (wk_context (th_worker (fst a ! i))) = srv_global_context (snd pool)"
    using copy_step [OF assms(1-3)] by (simp_all add: a_def pool_event_thread)
  then have b: "publishes (fst b ! i) = [f (srv_global_context (snd pool))]" "length (fst b) = length (fst pool)"
    using handle_step(1) [where call = call and r = r and f = f and res = res, OF _ a(1) assms(4), of io pf finish_cgi tick] assms(1)
    by (simp_all add: b_def pool_event_thread)
  then show "srv_global_context (snd pool') = f (srv_global_context (snd pool))"
    using close_step [OF _ b(1)] assms(1) by (simp add: pool'_def a_def b_def)
qed (simp_all add: pool'_def pool_event_thread pool_event_router)

section \<open>Properties\<close>

text \<open>C18: What the workers write back to the server are, in the order the requests are finished, the
  contexts that their handlers have replaced the global context with, each once and nothing
  else, and the server's is the last of them or the one it had at first.  A handler gets a
  context the server has had, not marked as replaced, so that its worker writes one back exactly
  when this handler replaces it.  All this however the workers' steps are mixed.\<close>

theorem global_context_published:
  assumes "\<forall>th\<in>set ths. th_phase th = Testing \<and> \<not> cx_replaced_global_context (wk_context (th_worker th))"
    and "fold (pool_event io pf finish_cgi tick call) es (ths, srv) = (ths', srv')"
  defines "replaced \<equiv> replacements io pf finish_cgi tick call (\<lambda>i. []) es (ths, srv)"
  shows "publications io pf finish_cgi tick call es (ths, srv) = replaced \<and>
    srv_global_context srv' = last (srv_global_context srv # replaced) \<and>
    (\<forall>th\<in>set ths'. \<forall>r d. th_phase th = Handling r d \<longrightarrow>
      cx_global_context (wk_context (th_worker th)) \<in> set (srv_global_context srv # replaced) \<and>
      \<not> cx_replaced_global_context (wk_context (th_worker th)) \<and>
      publishes (fst (handle_accepted io call r d th srv')) = replaces io call r d th srv')"
proof -
  have start: "\<forall>th\<in>set (fst (ths, srv)). context_ok [srv_global_context srv] th"
    using assms(1) by (auto simp: context_ok_def)
  have "held_ok (\<lambda>i. []) (fst (ths, srv))"
    using assms(1) nth_mem by (fastforce simp: held_ok_def)
  then have pubs: "publications io pf finish_cgi tick call es (ths, srv) = replaced"
    unfolding replaced_def using publications_replacements [OF start] by simp
  note history = pool_context [OF start, of io pf finish_cgi tick call es]
  have "\<forall>th\<in>set ths'. \<forall>r d. th_phase th = Handling r d \<longrightarrow> \<not> cx_replaced_global_context (wk_context (th_worker th))"
    using history assms(2) by (auto simp: context_ok_def)
  then show ?thesis
    using history assms(2) pubs by (auto simp: context_ok_def handled_replaces)
qed

text \<open>C40: A handler that makes the new global context from the one it was given loses an update when
  two requests overlap: both copies are taken before either is written back, and the second
  replacement overwrites the first.  One after the other they both count.\<close>

theorem overlapping_replacement_lost:
  fixes io and pf and finish_cgi and tick
  assumes "i < length ths" "j < length ths" "i \<noteq> j" "srv_router srv = Some (Registered r)"
    and "th_phase (ths ! i) = Accepted d" "th_phase (ths ! j) = Accepted d'"
    and "\<And>cx. call r cx = (Inr res, replace_global_context (f (cx_global_context cx)) cx)"
  defines "after \<equiv> \<lambda>es. srv_global_context (snd (fold (pool_event io pf finish_cgi tick call) es (ths, srv)))"
  shows "after [(i, Step), (j, Step), (i, Step), (j, Step), (i, Step), (j, Step)] = f (srv_global_context srv) \<and>
    after [(i, Step), (i, Step), (i, Step), (j, Step), (j, Step), (j, Step)] = f (f (srv_global_context srv))"
proof -
  let ?e = "\<lambda>k. pool_event io pf finish_cgi tick call (k, Step)"
  have e: "length (fst (?e k p)) = length (fst p)" "srv_router (snd (?e k p)) = srv_router (snd p)"
      "k \<noteq> m \<Longrightarrow> fst (?e k p) ! m = fst p ! m" for k m p
    by (simp_all add: pool_event_thread pool_event_router)
  note copy = copy_step [where io = io and pf = pf and finish_cgi = finish_cgi and tick = tick and call = call]
    and handle = handle_step [where io = io and pf = pf and finish_cgi = finish_cgi and tick = tick and
      call = call and f = f and r = r and res = res, OF _ _ assms(7)]
    and close = close_step [where io = io and pf = pf and finish_cgi = finish_cgi and tick = tick and call = call]
  define a where "a = ?e i (ths, srv)"
  define b where "b = ?e j a"
  define c where "c = ?e i b"
  have a: "th_phase (fst a ! i) = Handling (Registered r) d" "th_phase (fst a ! j) = Accepted d'"
      "cx_global_context (wk_context (th_worker (fst a ! i))) = srv_global_context srv"
      "srv_global_context (snd a) = srv_global_context srv" "length (fst a) = length ths"
      "srv_router (snd a) = Some (Registered r)"
    using copy [of i "(ths, srv)" d "Registered r"] assms(1-6) unfolding a_def by (simp_all add: e)
  have b: "th_phase (fst b ! i) = Handling (Registered r) d" "th_phase (fst b ! j) = Handling (Registered r) d'"
      "cx_global_context (wk_context (th_worker (fst b ! i))) = srv_global_context srv"
      "cx_global_context (wk_context (th_worker (fst b ! j))) = srv_global_context srv" "length (fst b) = length ths"
    using copy [of j a d' "Registered r"] a assms(1-3) unfolding b_def by (simp_all add: e)
  have c: "publishes (fst c ! i) = [f (srv_global_context srv)]" "length (fst c) = length ths"
      "th_phase (fst c ! j) = Handling (Registered r) d'"
      "cx_global_context (wk_context (th_worker (fst c ! j))) = srv_global_context srv"
    using handle [of i b d] b assms(1-3) unfolding c_def by (simp_all add: e)
  have overlap: "srv_global_context (snd (?e j (?e i (?e j c)))) = f (srv_global_context srv)"
    using handle(1) [of j c d'] c assms(1-3) by (intro close) (simp_all add: e)
  let ?p = "fold (pool_event io pf finish_cgi tick call) [(i, Step), (i, Step), (i, Step)] (ths, srv)"
  note replaces = request_replaces [where call = call and r = r and f = f and res = res and io = io and pf = pf and
      finish_cgi = finish_cgi and tick = tick, OF _ _ _ assms(7)]
  note first = replaces [where pool = "(ths, srv)", unfolded fst_conv snd_conv, OF assms(1,5,4)]
  have "th_phase (fst ?p ! j) = Accepted d'" "j < length (fst ?p)" "srv_router (snd ?p) = Some (Registered r)"
    using first(2-4) assms(2-4,6) by metis+
  then have "srv_global_context (snd (fold (pool_event io pf finish_cgi tick call) [(j, Step), (j, Step), (j, Step)] ?p)) =
      f (f (srv_global_context srv))"
    using replaces(1) first(1) by metis
  with overlap show ?thesis
    by (simp add: after_def a_def b_def c_def)
qed

definition counting_server :: "(mock_logger, unit, nat) server" where
  "counting_server = (server_new boot_table \<lparr>log_debug = [], log_info = [], log_error = []\<rparr>)
    \<lparr>srv_router := Some (Registered ()), srv_global_context := Some 0\<rparr>"

definition counting_thread :: "nat \<Rightarrow> (nat, mock_logger, mock_cgi, unit) thread" where
  "counting_thread k = thread_started \<lparr>wk_id = word_of_nat k, wk_context = context_new, wk_shutdown = False, wk_tick = False\<rparr>"

definition counting_call ::
  "unit \<Rightarrow> (nat, mock_logger, mock_cgi) request_context \<Rightarrow>
   (RouteResult, (nat, mock_logger, mock_cgi) request_context) outcome" where
  "counting_call r cx = (Inr Handled, replace_global_context (map_option Suc (cx_global_context cx)) cx)"

lemma publishes_open:
  "publishes \<lparr>th_worker = wk, th_phase = Testing, th_answered = ds\<rparr> = []"
  "publishes \<lparr>th_worker = wk, th_phase = Entering, th_answered = ds\<rparr> = []"
  "publishes \<lparr>th_worker = wk, th_phase = Accepted d, th_answered = ds\<rparr> = []"
  "publishes \<lparr>th_worker = wk, th_phase = Handling r d, th_answered = ds\<rparr> = []"
  by (auto simp: publishes_def)

lemma counting_publishes:
  "publishes (fst (handle_accepted io counting_call (Registered ()) d th srv)) =
    [map_option Suc (cx_global_context (wk_context (th_worker th)))]"
  using handled_publishes [of io counting_call "Registered ()" srv d th]
  by (simp add: call_server_router_def counting_call_def replace_global_context_def set_request_def
      context_base.defs)

theorem global_context_published_witness:
  "srv_global_context (snd (fold (pool_event sample_io sample_platform id id counting_call)
      [(0, Step), (0, Step), (0, AcceptReturns 0 (mock_cgi_new '''' [])), (0, Step), (1, Usr2), (0, Step), (0, Step)]
      ([counting_thread 1, counting_thread 2], counting_server))) = Some 1"
proof -
  let ?es = "[(0, Step), (0, Step), (0, AcceptReturns 0 (mock_cgi_new '''' [])), (0, Step), (1, Usr2), (0, Step), (0, Step)]"
  let ?ths = "[counting_thread 1, counting_thread 2]"
  have "\<forall>th\<in>set ?ths. th_phase th = Testing \<and> \<not> cx_replaced_global_context (wk_context (th_worker th))"
    by (simp add: counting_thread_def thread_started_def context_new_def)
  note global = global_context_published [OF this surjective_pairing, of sample_io sample_platform id id
      counting_call ?es counting_server]
  have pubs: "publications sample_io sample_platform id id counting_call ?es (?ths, counting_server) = [Some 1]"
    by (simp add: pool_event_def counting_thread_def thread_started_def thread_step_def
        worker_tick_def accept_returns_def copy_shared_def counting_server_def thread_signal_def split_beta
        publishes_open counting_publishes)
  show ?thesis
    using conjunct1 [OF conjunct2 [OF global], folded conjunct1 [OF global], unfolded pubs]
    by (simp only: last_ConsR last_ConsL not_Cons_self2 list.distinct simp_thms)
qed

text \<open>Two requests that count: a count of 1 when they overlap, of 2 when they do not.\<close>

theorem overlapping_replacement_lost_witness:
  "let accepted = (\<lambda>k. (counting_thread k)\<lparr>th_phase := Accepted (mock_cgi_new '''' [])\<rparr>);
       after = (\<lambda>es. srv_global_context (snd (fold (pool_event sample_io sample_platform id id counting_call) es
         ([accepted 1, accepted 2], counting_server))))
   in after [(0, Step), (1, Step), (0, Step), (1, Step), (0, Step), (1, Step)] = Some 1 \<and>
      after [(0, Step), (0, Step), (0, Step), (1, Step), (1, Step), (1, Step)] = Some 2"
  using overlapping_replacement_lost [of 0 "[(counting_thread 1)\<lparr>th_phase := Accepted (mock_cgi_new '''' [])\<rparr>,
      (counting_thread 2)\<lparr>th_phase := Accepted (mock_cgi_new '''' [])\<rparr>]" 1 counting_server "()"
      "mock_cgi_new '''' []" "mock_cgi_new '''' []" counting_call Handled "map_option Suc"
      sample_io sample_platform id id]
  by (simp add: counting_call_def counting_server_def server_new_def numeral_2_eq_2 del: fold.simps)

end
