(* ===== verification/Threads.thy ===== *)
theory Threads
  imports Server "HOL-Library.Sublist"
begin

text \<open>
  The server's threads and its socket over its life: which threads there are and with which
  numbers after any sequence of the program's calls, in which order the maintenance thread
  signals the workers, and that what was opened is closed once.
\<close>

section \<open>The calls of a program\<close>

datatype ('r, 'u) server_call =
    SetRouter "'r option"
  | SetGlobalContext "'u option"
  | SetThreadContext "('u option \<Rightarrow> 'u option) option"
  | SetTickInterval int
  | Initialize platform string
  | AddThreads u64
  | KillThreads
  | Finalize

fun server_step ::
  "'c log_message \<Rightarrow> ('r, 'u) server_call \<Rightarrow> ('c, 'r, 'u) server \<Rightarrow>
   server_event list \<times> ('c, 'r, 'u) server"
where
  "server_step lm (SetRouter r) srv = ([], set_router lm r srv)"
| "server_step lm (SetGlobalContext u) srv = ([], set_global_context u srv)"
| "server_step lm (SetThreadContext f) srv = ([], set_thread_context f srv)"
| "server_step lm (SetTickInterval n) srv = ([], set_thread_context_tick_interval n srv)"
| "server_step lm (Initialize pf path) srv = ([], snd (server_initialize lm pf path srv))"
| "server_step lm (AddThreads n) srv = ([], snd (add_threads lm n srv))"
| "server_step lm KillThreads srv = kill_threads srv"
| "server_step lm Finalize srv = finalize srv"

fun server_steps ::
  "'c log_message \<Rightarrow> ('r, 'u) server_call list \<Rightarrow> ('c, 'r, 'u) server \<Rightarrow>
   server_event list \<times> ('c, 'r, 'u) server"
where
  "server_steps lm [] srv = ([], srv)"
| "server_steps lm (c # cs) srv =
     (let (es, srv) = server_step lm c srv; (es', srv) = server_steps lm cs srv in (es @ es', srv))"

section \<open>The thread list\<close>

text \<open>No threads, or the maintenance thread first and then workers whose numbers were given out
  in order and up to the last one; with threads there is a router.\<close>

definition threads_ok :: "nat \<Rightarrow> ('c, 'r, 'u) server \<Rightarrow> bool" where
  "threads_ok given srv \<longleftrightarrow>
     srv_last_thread_id srv = word_of_nat given \<and>
     (srv_threads srv = [] \<or>
       srv_router srv \<noteq> None \<and>
       (\<exists>first \<le> given. srv_threads srv = Ticker # map (\<lambda>k. Worker (word_of_nat k)) [Suc first..<Suc given]))"

lemma server_log_simps [simp]:
  "srv_last_thread_id (server_log lm level msg srv) = srv_last_thread_id srv"
  "srv_threads (server_log lm level msg srv) = srv_threads srv"
  "srv_router (server_log lm level msg srv) = srv_router srv"
  "srv_socket_fd (server_log lm level msg srv) = srv_socket_fd srv"
  "srv_socket_path (server_log lm level msg srv) = srv_socket_path srv"
  "srv_last_thread_id (server_log_line lm level args srv) = srv_last_thread_id srv"
  "srv_threads (server_log_line lm level args srv) = srv_threads srv"
  "srv_router (server_log_line lm level args srv) = srv_router srv"
  "srv_socket_fd (server_log_line lm level args srv) = srv_socket_fd srv"
  "srv_socket_path (server_log_line lm level args srv) = srv_socket_path srv"
  by (simp_all add: server_log_def server_log_line_def)

lemma emplace_workers_threads:
  "srv_last_thread_id srv = word_of_nat given \<Longrightarrow>
   srv_threads (emplace_workers n srv) =
     srv_threads srv @ map (\<lambda>k. Worker (word_of_nat k)) [Suc given..<Suc (given + n)] \<and>
   srv_last_thread_id (emplace_workers n srv) = word_of_nat (given + n) \<and>
   srv_router (emplace_workers n srv) = srv_router srv \<and>
   srv_socket_fd (emplace_workers n srv) = srv_socket_fd srv \<and>
   srv_socket_path (emplace_workers n srv) = srv_socket_path srv"
proof (induction n arbitrary: srv given)
  case (Suc n)
  let ?srv = "srv\<lparr>srv_last_thread_id := srv_last_thread_id srv + 1,
    srv_threads := srv_threads srv @ [Worker (srv_last_thread_id srv + 1)]\<rparr>"
  have "srv_last_thread_id ?srv = word_of_nat (Suc given)"
    using Suc.prems by (simp add: add.commute)
  from Suc.IH [OF this] Suc.prems show ?case
    by (simp add: upt_conv_Cons add.commute del: upt_Suc)
qed simp

fun threads_given :: "('r, 'u) server_call \<Rightarrow> nat" where
  "threads_given (AddThreads n) = unat n"
| "threads_given c = 0"

lemma add_threads_ok:
  assumes "threads_ok given srv"
  shows "threads_ok (given + unat n) (snd (add_threads lm n srv))"
proof -
  let ?srv1 = "if srv_router srv = None
    then (server_log lm Error ''No router provided, adding an empty route'' srv)\<lparr>srv_router := Some EmptyRouter\<rparr>
    else srv"
  let ?srv2 = "server_log_line lm Info [CString ''Starting '', U64 n, CString '' threads''] ?srv1"
  let ?srv3 = "if srv_threads ?srv2 = [] then ?srv2\<lparr>srv_threads := [Ticker]\<rparr> else ?srv2"
  have last: "srv_last_thread_id ?srv3 = word_of_nat given" and router: "srv_router ?srv3 \<noteq> None"
    using assms by (auto simp: threads_ok_def)
  obtain first where "first \<le> given"
    "srv_threads ?srv3 = Ticker # map (\<lambda>k. Worker (word_of_nat k)) [Suc first..<Suc given]"
  proof (cases "srv_threads srv = []")
    case True
    then have "srv_threads ?srv3 = Ticker # map (\<lambda>k. Worker (word_of_nat k)) [Suc given..<Suc given]"
      by simp
    then show ?thesis using that [of given] by blast
  next
    case False
    then show ?thesis
      using assms that by (auto simp: threads_ok_def)
  qed
  moreover have "[Suc first..<Suc given] @ [Suc given..<Suc (given + unat n)] =
      [Suc first..<Suc (given + unat n)]" if "first \<le> given" for first
    using upt_add_eq_append [of "Suc first" "Suc given" "unat n"] that by (simp del: upt_Suc)
  ultimately have "srv_threads (emplace_workers (unat n) ?srv3) =
      Ticker # map (\<lambda>k. Worker (word_of_nat k)) [Suc first..<Suc (given + unat n)]" "first \<le> given"
    using emplace_workers_threads [OF last, of "unat n"]
    by (simp_all del: upt_Suc add: map_append [symmetric])
  with emplace_workers_threads [OF last, of "unat n"] router show ?thesis
    unfolding threads_ok_def add_threads_def Let_def snd_conv
    by (intro conjI disjI2 exI [of _ first]) (simp_all del: upt_Suc)
qed

lemma set_router_ok: "threads_ok given srv \<Longrightarrow> threads_ok given (set_router lm r srv)"
  by (auto simp: threads_ok_def set_router_def split: option.split)

lemma server_step_ok:
  "threads_ok given srv \<Longrightarrow> threads_ok (given + threads_given c) (snd (server_step lm c srv))"
proof (cases c)
  case (AddThreads n)
  assume "threads_ok given srv"
  from add_threads_ok [OF this] show ?thesis
    by (simp add: AddThreads)
qed (auto simp: threads_ok_def set_router_ok set_global_context_def set_thread_context_def
    set_thread_context_tick_interval_def server_initialize_def kill_threads_def finalize_def Let_def
    set_router_def split: option.split)

lemma server_steps_ok:
  "threads_ok given srv \<Longrightarrow>
   threads_ok (given + sum_list (map threads_given cs)) (snd (server_steps lm cs srv))"
proof (induction cs arbitrary: given srv)
  case (Cons c cs)
  obtain es srv1 where step: "server_step lm c srv = (es, srv1)"
    by fastforce
  have "threads_ok (given + threads_given c) srv1"
    using server_step_ok [OF Cons.prems, of c lm] step by simp
  from Cons.IH [OF this] show ?case
    by (simp add: step split_beta add.assoc)
qed simp

section \<open>The socket\<close>

fun is_socket_event :: "server_event \<Rightarrow> bool" where
  "is_socket_event (CloseSocket fd) = True"
| "is_socket_event (Unlink path) = True"
| "is_socket_event _ = False"

fun is_initialize :: "('r, 'u) server_call \<Rightarrow> bool" where
  "is_initialize (Initialize pf path) = True"
| "is_initialize _ = False"

fun is_finalize :: "('r, 'u) server_call \<Rightarrow> bool" where
  "is_finalize Finalize = True"
| "is_finalize _ = False"

lemma kill_events: "filter is_socket_event (map Kill ts @ map Join ts) = []"
  by (induction ts) auto

lemma no_socket_kills [simp]: "filter is_socket_event (map Kill ts) = []" "filter is_socket_event (map Join ts) = []"
  by (induction ts) auto

lemma add_threads_socket:
  "srv_socket_fd (snd (add_threads lm n srv)) = srv_socket_fd srv"
  "srv_socket_path (snd (add_threads lm n srv)) = srv_socket_path srv"
proof -
  have "srv_socket_fd (emplace_workers k s) = srv_socket_fd s \<and>
      srv_socket_path (emplace_workers k s) = srv_socket_path s" for k and s :: "('a, 'b, 'c) server"
    by (induction k arbitrary: s) simp_all
  then show "srv_socket_fd (snd (add_threads lm n srv)) = srv_socket_fd srv"
    "srv_socket_path (snd (add_threads lm n srv)) = srv_socket_path srv"
    by (simp_all add: add_threads_def Let_def)
qed

lemma step_socket:
  assumes "\<not> is_initialize c"
  shows "filter is_socket_event (fst (server_step lm c srv)) =
      (if is_finalize c \<and> srv_socket_fd srv \<noteq> 0
       then [CloseSocket (srv_socket_fd srv), Unlink (srv_socket_path srv)] else []) \<and>
    srv_socket_fd (snd (server_step lm c srv)) = (if is_finalize c then 0 else srv_socket_fd srv) \<and>
    (\<not> is_finalize c \<longrightarrow> srv_socket_path (snd (server_step lm c srv)) = srv_socket_path srv)"
  using assms
  by (cases c)
    (simp_all add: set_router_def set_global_context_def set_thread_context_def
      set_thread_context_tick_interval_def add_threads_socket kill_threads_def finalize_def
      split: option.split)

lemma steps_socket:
  "list_all (\<lambda>c. \<not> is_initialize c) cs \<Longrightarrow>
   filter is_socket_event (fst (server_steps lm cs srv)) =
     (if list_ex is_finalize cs \<and> srv_socket_fd srv \<noteq> 0
      then [CloseSocket (srv_socket_fd srv), Unlink (srv_socket_path srv)] else []) \<and>
   srv_socket_fd (snd (server_steps lm cs srv)) =
     (if list_ex is_finalize cs then 0 else srv_socket_fd srv)"
proof (induction cs arbitrary: srv)
  case (Cons c cs)
  obtain es srv1 where step: "server_step lm c srv = (es, srv1)"
    by fastforce
  have "\<not> is_initialize c" "list_all (\<lambda>c. \<not> is_initialize c) cs"
    using Cons.prems by simp_all
  with Cons.IH [of srv1] step_socket [of c lm srv] show ?case
    by (auto simp: step split_beta)
qed simp

section \<open>The order of the ticks\<close>

lemma unat_small: "k < 2 ^ 64 \<Longrightarrow> unat (word_of_nat k :: u64) = k"
  by (simp add: unat_of_nat)

lemma tick_index_next:
  assumes "Suc n < 2 ^ 64" "0 < n" "unat i \<le> n" "0 < unat i"
  shows "tick_index (word_of_nat (Suc n)) i = word_of_nat (Suc (unat i mod n))"
proof -
  have "unat (i + 1) = Suc (unat i)"
    using assms(1,3) by (simp add: unat_plus_if' unat_1)
  moreover have "unat (word_of_nat (Suc n) :: u64) = Suc n"
    using assms(1) by (rule unat_small)
  ultimately have m: "unat ((i + 1) mod word_of_nat (Suc n)) = Suc (unat i) mod Suc n"
    by (simp add: unat_mod)
  show ?thesis
  proof (cases "unat i = n")
    case True
    with m have "(i + 1) mod word_of_nat (Suc n) = 0"
      by (simp add: unat_eq_0 [symmetric] del: unat_eq_0)
    with True show ?thesis
      by (simp add: tick_index_def)
  next
    case False
    with assms(3) m have "unat ((i + 1) mod word_of_nat (Suc n)) = Suc (unat i)"
      by simp
    then have "(i + 1) mod word_of_nat (Suc n) = word_of_nat (Suc (unat i))"
      by (metis of_nat_unat ucast_id)
    moreover have "(word_of_nat (Suc (unat i)) :: u64) \<noteq> 0"
      using calculation \<open>unat ((i + 1) mod word_of_nat (Suc n)) = Suc (unat i)\<close>
      by (metis Zero_not_Suc unat_0)
    ultimately show ?thesis
      using False assms(3) by (simp add: tick_index_def Let_def)
  qed
qed

lemma tick_rounds_from:
  assumes "Suc (length ws) < 2 ^ 64" "ws \<noteq> []" "j < length ws"
  shows "tick_rounds k (Ticker # ws) (word_of_nat (Suc j)) =
    map (\<lambda>m. Some (ws ! ((Suc j + m) mod length ws))) [0..<k]"
  using assms(3)
proof (induction k arbitrary: j)
  case (Suc k)
  let ?n = "length ws"
  have j: "unat (word_of_nat (Suc j) :: u64) = Suc j"
    using assms(1) Suc.prems by (intro unat_small) simp
  have i: "tick_index (word_of_nat (Suc ?n)) (word_of_nat (Suc j)) = word_of_nat (Suc (Suc j mod ?n))"
    using tick_index_next [OF assms(1), of "word_of_nat (Suc j)"] assms(2) Suc.prems j by simp
  have less: "Suc j mod ?n < ?n"
    using assms(2) by simp
  then have u: "unat (word_of_nat (Suc (Suc j mod ?n)) :: u64) = Suc (Suc j mod ?n)"
    using assms(1) by (intro unat_small) simp
  have "(Suc (Suc j mod ?n) + m) mod ?n = (Suc j + Suc m) mod ?n" for m
    using mod_add_left_eq [of "Suc j" ?n "Suc m"] by simp
  then have "tick_rounds k (Ticker # ws) (word_of_nat (Suc (Suc j mod ?n))) =
      map (\<lambda>m. Some (ws ! ((Suc j + Suc m) mod ?n))) [0..<k]"
    using Suc.IH [OF less] by simp
  moreover have "map f [0..<Suc k] = f 0 # map (\<lambda>m. f (Suc m)) [0..<k]" for f :: "nat \<Rightarrow> server_thread option"
    by (simp add: upt_conv_Cons map_Suc_upt [symmetric] del: upt_Suc)
  ultimately show ?case
    using less by (simp add: tick_threads_def i u Let_def del: upt_Suc of_nat_Suc)
qed simp

section \<open>Properties\<close>

text \<open>C27: After any sequence of the program's calls there are either no threads, or the maintenance
  thread comes first and once, the workers have numbers from 1 on that never repeat, not even
  over restarts, and there is a router for them to call.\<close>

theorem thread_numbers:
  assumes "server_steps lm cs (server_new tab cb) = (es, srv)"
    and "sum_list (map threads_given cs) < 2 ^ 64 - 1"
  shows "srv_threads srv = [] \<or> srv_router srv \<noteq> None \<and>
    (\<exists>ids. srv_threads srv = Ticker # map Worker ids \<and> sorted_wrt (<) ids \<and>
      (\<forall>i\<in>set ids. 0 < i \<and> i \<le> srv_last_thread_id srv))"
proof -
  let ?given = "sum_list (map threads_given cs)"
  have ok: "threads_ok ?given srv"
    using server_steps_ok [of 0 "server_new tab cb" cs lm] assms(1)
    by (simp add: threads_ok_def server_new_def)
  show ?thesis
  proof (cases "srv_threads srv = []")
    case False
    then obtain first where first: "srv_threads srv = Ticker # map (\<lambda>k. Worker (word_of_nat k)) [Suc first..<Suc ?given]"
      and "srv_router srv \<noteq> None" and last: "srv_last_thread_id srv = word_of_nat ?given"
      using ok by (auto simp: threads_ok_def)
    let ?ids = "map word_of_nat [Suc first..<Suc ?given] :: u64 list"
    have small: "unat (word_of_nat k :: u64) = k" if "k < Suc ?given" for k
      using that assms(2) by (intro unat_small) simp
    have "sorted_wrt (<) ?ids"
      unfolding sorted_wrt_map
      by (rule sorted_wrt_mono_rel [OF _ sorted_wrt_upt]) (auto simp: word_less_nat_alt small)
    moreover have "\<forall>i\<in>set ?ids. 0 < i \<and> i \<le> srv_last_thread_id srv"
      unfolding last by (auto simp: word_less_nat_alt word_le_nat_alt small)
    moreover have "srv_threads srv = Ticker # map Worker ?ids"
      using first by (simp add: o_def)
    ultimately show ?thesis
      using \<open>srv_router srv \<noteq> None\<close> by blast
  qed blast
qed

theorem thread_numbers_witness:
  "\<exists>es srv :: (mock_logger, unit, unit) server. server_steps mock_log_message [AddThreads 2, KillThreads, AddThreads 1]
      (server_new boot_table \<lparr>log_debug = [], log_info = [], log_error = []\<rparr>) = (es, srv) \<and>
    (srv_threads srv = [] \<or> (\<exists>ids. srv_threads srv = Ticker # map Worker ids \<and> sorted_wrt (<) ids))"
proof -
  obtain es and srv :: "(mock_logger, unit, unit) server"
    where run: "server_steps mock_log_message [AddThreads 2, KillThreads, AddThreads 1]
      (server_new boot_table \<lparr>log_debug = [], log_info = [], log_error = []\<rparr>) = (es, srv)"
    by fastforce
  from thread_numbers [OF run] run show ?thesis
    by auto
qed

text \<open>C28: The maintenance thread signals the workers in turn, from the first to the last and then from
  the first again, and never itself; without workers it signals nobody.\<close>

theorem ticks_take_turns:
  assumes "length ws + 1 < 2 ^ 64"
  shows "tick_rounds k (Ticker # ws) (- 1) =
    (if ws = [] then replicate k None else map (\<lambda>m. Some (ws ! (m mod length ws))) [0..<k])"
proof (cases "ws = []")
  case True
  have "tick_threads [Ticker] i = (None, 1)" for i
  proof -
    have "(i + 1) mod 1 = (0 :: u64)"
      by (simp add: unat_eq_0 [symmetric] unat_mod del: unat_eq_0)
    then show ?thesis
      by (simp add: tick_threads_def tick_index_def Let_def)
  qed
  then have "tick_rounds k [Ticker] i = replicate k None" for i
    by (induction k arbitrary: i) simp_all
  with True show ?thesis by simp
next
  case False
  have "tick_threads (Ticker # ws) (- 1) = (Some (ws ! 0), 1)"
    using False by (simp add: tick_threads_def tick_index_def)
  moreover have "tick_rounds k' (Ticker # ws) 1 = map (\<lambda>m. Some (ws ! (Suc m mod length ws))) [0..<k']" for k'
    using tick_rounds_from [of ws 0 k'] assms False by simp
  moreover have "map f [0..<Suc k'] = f 0 # map (\<lambda>m. f (Suc m)) [0..<k']"
    for f :: "nat \<Rightarrow> server_thread option" and k'
    by (simp add: upt_conv_Cons map_Suc_upt [symmetric] del: upt_Suc)
  ultimately show ?thesis
    using False by (cases k) (simp_all del: upt_Suc)
qed

theorem ticks_take_turns_witness:
  "tick_rounds 5 [Ticker, Worker 1, Worker 2] (- 1) =
    [Some (Worker 1), Some (Worker 2), Some (Worker 1), Some (Worker 2), Some (Worker 1)]"
proof -
  have "[0..<5] = [0, 1, 2, 3, 4::nat]"
    by (simp add: upt_rec)
  then show ?thesis
    using ticks_take_turns [of "[Worker 1, Worker 2]" 5] by (simp add: numeral_2_eq_2 [symmetric])
qed

text \<open>C29: The socket the server opened is closed and its path removed exactly once, at the first
  \<open>finalize\<close>, whatever else is called before it and however often it is called again, as by
  the destructor.\<close>

theorem socket_closed_once:
  assumes "server_initialize lm pf path srv = (True, srv1)" "FCGX_IsCGI pf"
    and "FCGX_OpenSocket pf path \<noteq> 0"
    and "list_all (\<lambda>c. \<not> is_initialize c) cs" "list_ex is_finalize cs"
  shows "filter is_socket_event (fst (server_steps lm cs srv1)) =
      [CloseSocket (FCGX_OpenSocket pf path), Unlink path] \<and>
    srv_socket_fd (snd (server_steps lm cs srv1)) = 0"
proof -
  have "srv_socket_fd srv1 = FCGX_OpenSocket pf path" "srv_socket_path srv1 = path"
    using assms(1,2) by (auto simp: server_initialize_def Let_def split: if_splits)
  with steps_socket [OF assms(4), of lm srv1] assms(3,5) show ?thesis
    by simp
qed

definition open_platform :: platform where
  "open_platform =
    \<lparr>FCGX_Init = 0, FCGX_IsCGI = True, FCGX_OpenSocket = (\<lambda>path. 3), FCGX_InitRequest = (\<lambda>fd. 0),
     errno_text = '''', strerror = (\<lambda>n. '''')\<rparr>"

theorem socket_closed_once_witness:
  "filter is_socket_event (fst (server_steps mock_log_message [AddThreads 4, Finalize, Finalize]
      (snd (server_initialize mock_log_message open_platform ''/tmp/s''
        (server_new boot_table \<lparr>log_debug = [], log_info = [], log_error = []\<rparr> :: (mock_logger, unit, unit) server))))) =
    [CloseSocket 3, Unlink ''/tmp/s'']"
proof -
  let ?srv = "server_new boot_table \<lparr>log_debug = [], log_info = [], log_error = []\<rparr> :: (mock_logger, unit, unit) server"
  have "server_initialize mock_log_message open_platform ''/tmp/s'' ?srv =
      (True, snd (server_initialize mock_log_message open_platform ''/tmp/s'' ?srv))"
    by (simp add: server_initialize_def open_platform_def)
  from socket_closed_once [OF this, of "[AddThreads 4, Finalize, Finalize]"] show ?thesis
    by (simp add: open_platform_def del: server_steps.simps)
qed

text \<open>The pause between two ticks is a valid \<open>timespec\<close>: less than a second of nanoseconds, and
  no millisecond of the pause is lost.\<close>

theorem tick_timespec_valid:
  "unat (snd (tick_timespec p)) < 10 ^ 9 \<and>
   unat (fst (tick_timespec p)) * 1000 + unat (snd (tick_timespec p)) div 10 ^ 6 = unat p \<and>
   unat (snd (tick_timespec p)) mod 10 ^ 6 = 0"
proof -
  have "p - p div 1000 * 1000 = p mod 1000"
    by (simp add: word_mod_div_equality [symmetric] minus_div_mult_eq_mod)
  moreover have "unat (p mod 1000) = unat p mod 1000" "unat (p div 1000) = unat p div 1000"
    by (simp_all add: unat_mod unat_div)
  moreover have "unat (p mod 1000 * 1000000) = unat p mod 1000 * 1000000"
    by (simp add: unat_mult_lem [THEN iffD1] calculation unat_word_ariths)
  ultimately show ?thesis
    unfolding tick_timespec_def Let_def fst_conv snd_conv by simp
qed

end
