(* ===== verification/Maintenance.thy ===== *)
theory Maintenance
  imports Threads Workers
begin

text \<open>
  All threads of a server: the program's thread and the maintenance thread of \<open>server.cpp\<close>, which
  share the list of threads under \<open>threads_lock\<close>, \<open>thread_tick_function\<close> step by step against
  \<open>add_threads\<close> and \<open>kill_threads\<close>, and the workers with the steps they have in \<open>Workers\<close>.  The
  signals go from the one to the others, through the handlers that the threads install.
\<close>

section \<open>Signals\<close>

datatype signal = SIGUSR1 | SIGUSR2 | SIGINT | SIGTERM | SIGHUP | OtherSignal nat

datatype signal_action = DefaultAction | SetShutdown | SetTick

text \<open>The signals a thread blocks, and what the process does on the others.\<close>

type_synonym sigset = "signal \<Rightarrow> bool"

definition install_thread_signal_handlers ::
  "(signal \<Rightarrow> signal_action) \<Rightarrow> sigset \<times> (signal \<Rightarrow> signal_action)" where
  "install_thread_signal_handlers actions =
    (let sigset = (\<lambda>s. True); sigset = sigset(SIGUSR1 := False); sigset = sigset(SIGUSR2 := False)
     in (sigset, actions(SIGUSR1 := SetShutdown, SIGUSR2 := SetTick)))"

text \<open>\<open>sigwait\<close> answers a signal of the set that has arrived; the caller's mask is changed before
  and after.\<close>

definition wait_for_terminate_signal :: "(sigset \<Rightarrow> sigset \<Rightarrow> signal) \<Rightarrow> sigset \<Rightarrow> signal \<times> sigset" where
  "wait_for_terminate_signal sigwait blocked =
    (let sigset = (\<lambda>s. False); sigset = sigset(SIGINT := True); sigset = sigset(SIGTERM := True);
         sigset = sigset(SIGHUP := True);
         blocked = (\<lambda>s. blocked s \<or> sigset s);
         signum = sigwait blocked sigset
     in (signum, \<lambda>s. blocked s \<and> \<not> sigset s))"

lemma signal_masks:
  "\<not> fst (install_thread_signal_handlers actions) s \<longleftrightarrow> s = SIGUSR1 \<or> s = SIGUSR2"
  "s \<in> {SIGINT, SIGTERM, SIGHUP} \<Longrightarrow> \<not> snd (wait_for_terminate_signal sigwait blocked) s"
  "s \<notin> {SIGINT, SIGTERM, SIGHUP} \<Longrightarrow> snd (wait_for_terminate_signal sigwait blocked) s = blocked s"
  by (auto simp: install_thread_signal_handlers_def wait_for_terminate_signal_def)

text \<open>A worker's thread installs the handlers before anything else; \<open>worker_start\<close> is what it does
  then up to its loop.\<close>

definition run_thread_function ::
  "'c log_message \<Rightarrow> platform \<Rightarrow> u64 \<Rightarrow> (signal \<Rightarrow> signal_action) \<Rightarrow> ('c, 'r, 'u) server \<Rightarrow>
   (sigset \<times> (signal \<Rightarrow> signal_action)) \<times> 'u worker option \<times> ('c, 'r, 'u) server"
where
  "run_thread_function lm pf tid actions srv =
    (install_thread_signal_handlers actions, worker_start lm pf tid srv)"

section \<open>The threads and the lock\<close>

datatype lock_owner = ByProgram | ByTicker

text \<open>Where the program is in \<open>add_threads\<close> and \<open>kill_threads\<close>; \<open>Terminated\<close> is the end of the
  process by a signal without a handler.\<close>

datatype program_pc =
    Idle
  | WantsAdd u64
  | Adding
  | WantsKill
  | Signalling nat
  | Joining nat
  | Terminated

text \<open>Where the maintenance thread is; \<open>Pausing\<close> holds the length of the pause.\<close>

datatype ticker_pc =
    Created
  | Locking
  | Counting
  | TickTesting
  | Pausing u64
  | Trying
  | Ticking
  | TickEnded

text \<open>A worker's thread before it has run, with the signals it has got so far, in its loop, and
  returned without a request to accept.\<close>

datatype ('u, 'c, 'd, 'r) member = Unstarted bool bool | InLoop "('u, 'c, 'd, 'r) thread" | NotInit

text \<open>\<open>cr_workers\<close> goes with the list of threads without its first element.  \<open>cr_ticked\<close> only records
  what has happened.\<close>

record ('u, 'c, 'd, 'r) crew =
  cr_server :: "('c, 'r, 'u) server"
  cr_workers :: "('u, 'c, 'd, 'r) member list"
  cr_lock :: "lock_owner option"
  cr_actions :: "signal \<Rightarrow> signal_action"
  cr_program :: program_pc
  cr_ticker :: ticker_pc
  cr_shutdown :: bool
  cr_num_threads :: u64
  cr_trigger_index :: u64
  cr_ticked :: "server_thread list"

definition crew_new :: "('c, 'r, 'u) server \<Rightarrow> ('u, 'c, 'd, 'r) crew" where
  "crew_new srv =
    \<lparr>cr_server = srv, cr_workers = [], cr_lock = None, cr_actions = (\<lambda>s. DefaultAction), cr_program = Idle,
     cr_ticker = TickEnded, cr_shutdown = False, cr_num_threads = 0, cr_trigger_index = - 1,
     cr_ticked = []\<rparr>"

abbreviation crew_threads :: "('u, 'c, 'd, 'r) crew \<Rightarrow> server_thread list" where
  "crew_threads cr \<equiv> srv_threads (cr_server cr)"

section \<open>Signals between the threads\<close>

fun member_usr1 :: "('u, 'c, 'd, 'r) member \<Rightarrow> ('u, 'c, 'd, 'r) member" where
  "member_usr1 (Unstarted usr1 usr2) = Unstarted True usr2"
| "member_usr1 (InLoop th) = InLoop (thread_signal (\<lambda>wk. wk\<lparr>wk_shutdown := True\<rparr>) th)"
| "member_usr1 NotInit = NotInit"

fun member_usr2 :: "('u, 'c, 'd, 'r) member \<Rightarrow> ('u, 'c, 'd, 'r) member" where
  "member_usr2 (Unstarted usr1 usr2) = Unstarted usr1 True"
| "member_usr2 (InLoop th) = InLoop (thread_signal (\<lambda>wk. wk\<lparr>wk_tick := True\<rparr>) th)"
| "member_usr2 NotInit = NotInit"

fun member_ended :: "('u, 'c, 'd, 'r) member \<Rightarrow> bool" where
  "member_ended (Unstarted usr1 usr2) = False"
| "member_ended (InLoop th) = (case th_phase th of Ended \<Rightarrow> True | _ \<Rightarrow> False)"
| "member_ended NotInit = True"

text \<open>\<open>pthread_kill\<close> of the thread at index \<open>k\<close>; a signal without a handler ends the process.  The
  flags are each thread's own; nothing reads the tick flag of the maintenance thread.\<close>

definition send_shutdown :: "nat \<Rightarrow> ('u, 'c, 'd, 'r) crew \<Rightarrow> ('u, 'c, 'd, 'r) crew" where
  "send_shutdown k cr =
    (case cr_actions cr SIGUSR1 of
       SetShutdown \<Rightarrow>
         (case k of
            0 \<Rightarrow> cr\<lparr>cr_shutdown := True\<rparr>
          | Suc j \<Rightarrow> cr\<lparr>cr_workers := (cr_workers cr)[j := member_usr1 (cr_workers cr ! j)]\<rparr>)
     | _ \<Rightarrow> cr\<lparr>cr_program := Terminated\<rparr>)"

definition send_tick :: "nat \<Rightarrow> ('u, 'c, 'd, 'r) crew \<Rightarrow> ('u, 'c, 'd, 'r) crew" where
  "send_tick k cr =
    (case cr_actions cr SIGUSR2 of
       SetTick \<Rightarrow>
         (case k of
            0 \<Rightarrow> cr
          | Suc j \<Rightarrow> cr\<lparr>cr_workers := (cr_workers cr)[j := member_usr2 (cr_workers cr ! j)]\<rparr>)
     | _ \<Rightarrow> cr\<lparr>cr_program := Terminated\<rparr>)"

section \<open>The steps\<close>

text \<open>The program's next step, \<open>None\<close> where it waits for the lock or for a thread's end.  The whole
  of \<open>add_threads\<close> is done where it takes the lock; a maintenance thread starts with the
  first call.\<close>

definition start_ticker :: "('u, 'c, 'd, 'r) crew \<Rightarrow> ('u, 'c, 'd, 'r) crew" where
  "start_ticker cr =
    (if crew_threads cr = []
     then cr\<lparr>cr_ticker := Created, cr_shutdown := False, cr_trigger_index := - 1\<rparr> else cr)"

definition thread_stopped :: "('u, 'c, 'd, 'r) crew \<Rightarrow> nat \<Rightarrow> bool" where
  "thread_stopped cr k =
    (case k of 0 \<Rightarrow> cr_ticker cr = TickEnded | Suc j \<Rightarrow> member_ended (cr_workers cr ! j))"

definition program_step ::
  "'c log_message \<Rightarrow> ('u, 'c, 'd, 'r) crew \<Rightarrow> ('u, 'c, 'd, 'r) crew option" where
  "program_step lm cr =
    (case cr_program cr of
       Idle \<Rightarrow> None
     | WantsAdd n \<Rightarrow>
         (if cr_lock cr = None
          then Some ((start_ticker cr)\<lparr>cr_lock := Some ByProgram, cr_program := Adding,
                 cr_workers := cr_workers cr @ replicate (unat n) (Unstarted False False),
                 cr_server := snd (add_threads lm n (cr_server cr))\<rparr>)
          else None)
     | Adding \<Rightarrow> Some (cr\<lparr>cr_lock := None, cr_program := Idle\<rparr>)
     | WantsKill \<Rightarrow>
         (if cr_lock cr = None then Some (cr\<lparr>cr_lock := Some ByProgram, cr_program := Signalling 0\<rparr>)
          else None)
     | Signalling k \<Rightarrow>
         Some (if k < length (crew_threads cr)
           then send_shutdown k (cr\<lparr>cr_program := Signalling (Suc k)\<rparr>)
           else cr\<lparr>cr_program := Joining 0\<rparr>)
     | Joining k \<Rightarrow>
         (if k < length (crew_threads cr)
          then (if thread_stopped cr k then Some (cr\<lparr>cr_program := Joining (Suc k)\<rparr>) else None)
          else Some (cr\<lparr>cr_lock := None, cr_program := Idle, cr_workers := [],
            cr_server := snd (kill_threads (cr_server cr))\<rparr>))
     | Terminated \<Rightarrow> None)"

text \<open>The maintenance thread's next step, from the installation of its handlers on.  It blocks on
  its first lock only; later it tries the lock, and goes on without it.\<close>

definition tick_message ::
  "'c log_message \<Rightarrow> string \<Rightarrow> ('u, 'c, 'd, 'r) crew \<Rightarrow> ('u, 'c, 'd, 'r) crew" where
  "tick_message lm text cr = cr\<lparr>cr_server := server_log_line lm Debug [CString text] (cr_server cr)\<rparr>"

definition num_threads :: "('u, 'c, 'd, 'r) crew \<Rightarrow> u64" where
  "num_threads cr = word_of_nat (length (crew_threads cr))"

definition ticker_step ::
  "'c log_message \<Rightarrow> ('u, 'c, 'd, 'r) crew \<Rightarrow> ('u, 'c, 'd, 'r) crew option" where
  "ticker_step lm cr =
    (case cr_ticker cr of
       Created \<Rightarrow> Some (tick_message lm ''Maintenance thread started''
         (cr\<lparr>cr_ticker := Locking, cr_actions := snd (install_thread_signal_handlers (cr_actions cr))\<rparr>))
     | Locking \<Rightarrow>
         (if cr_lock cr = None then Some (cr\<lparr>cr_lock := Some ByTicker, cr_ticker := Counting\<rparr>) else None)
     | Counting \<Rightarrow> Some (cr\<lparr>cr_num_threads := num_threads cr, cr_lock := None, cr_ticker := TickTesting\<rparr>)
     | TickTesting \<Rightarrow>
         Some (if cr_shutdown cr
           then tick_message lm ''Maintenance thread finished'' (cr\<lparr>cr_ticker := TickEnded\<rparr>)
           else cr\<lparr>cr_ticker := Pausing (tick_pause (srv_tick_interval (cr_server cr)) (cr_num_threads cr))\<rparr>)
     | Pausing p \<Rightarrow> Some (cr\<lparr>cr_ticker := Trying\<rparr>)
     | Trying \<Rightarrow>
         Some (if \<not> cr_shutdown cr \<and> cr_lock cr = None
           then cr\<lparr>cr_lock := Some ByTicker, cr_ticker := Ticking\<rparr> else cr\<lparr>cr_ticker := TickTesting\<rparr>)
     | Ticking \<Rightarrow>
         (let (th, i) = tick_threads (crew_threads cr) (cr_trigger_index cr);
              cr = cr\<lparr>cr_num_threads := num_threads cr, cr_trigger_index := i,
                 cr_ticked := cr_ticked cr @ (case th of None \<Rightarrow> [] | Some th \<Rightarrow> [th]),
                 cr_lock := None, cr_ticker := TickTesting\<rparr>
          in Some (if th = None then cr else send_tick (unat i) cr))
     | TickEnded \<Rightarrow> None)"

text \<open>A worker's thread begins to run: the handlers, and what comes before the loop.  The signals it
  has got before are in its flags then.\<close>

definition worker_starts ::
  "'c log_message \<Rightarrow> platform \<Rightarrow> nat \<Rightarrow> ('u, 'c, 'd, 'r) crew \<Rightarrow> ('u, 'c, 'd, 'r) crew option" where
  "worker_starts lm pf j cr =
    (case (if j < length (cr_workers cr) then (cr_workers cr ! j, crew_threads cr ! Suc j) else (NotInit, Ticker)) of
       (Unstarted usr1 usr2, Worker tid) \<Rightarrow>
         (let ((mask, actions), wk, srv) = run_thread_function lm pf tid (cr_actions cr) (cr_server cr);
              member = (case wk of
                  None \<Rightarrow> NotInit
                | Some wk \<Rightarrow> InLoop (thread_started (wk\<lparr>wk_shutdown := usr1, wk_tick := usr2\<rparr>)))
          in Some (cr\<lparr>cr_actions := actions, cr_server := srv, cr_workers := (cr_workers cr)[j := member]\<rparr>))
     | _ \<Rightarrow> None)"

text \<open>A worker in its loop makes a step, or its accepting call returns.\<close>

definition thread_can :: "('u, 'c, 'd, 'r) thread \<Rightarrow> 'd thread_event \<Rightarrow> bool" where
  "thread_can th e =
    (case (e, th_phase th) of
       (Step, Accepting) \<Rightarrow> False
     | (Step, Ended) \<Rightarrow> False
     | (Step, NoRouter) \<Rightarrow> False
     | (Step, _) \<Rightarrow> True
     | (AcceptReturns result d, Accepting) \<Rightarrow> True
     | _ \<Rightarrow> False)"

definition worker_event ::
  "('c, 'd) request_io \<Rightarrow> platform \<Rightarrow> ('d \<Rightarrow> 'd) \<Rightarrow> ('u \<Rightarrow> 'u) \<Rightarrow>
   ('r \<Rightarrow> ('u, 'c, 'd) request_context \<Rightarrow> (RouteResult, ('u, 'c, 'd) request_context) outcome) \<Rightarrow>
   nat \<Rightarrow> 'd thread_event \<Rightarrow> ('u, 'c, 'd, 'r) crew \<Rightarrow> ('u, 'c, 'd, 'r) crew option"
where
  "worker_event io pf finish_cgi tick call j e cr =
    (case (if j < length (cr_workers cr) then cr_workers cr ! j else NotInit) of
       InLoop th \<Rightarrow>
         (if thread_can th e
          then (let (th, srv) = run_event io pf finish_cgi tick call e (th, cr_server cr)
                in Some (cr\<lparr>cr_server := srv, cr_workers := (cr_workers cr)[j := InLoop th]\<rparr>))
          else None)
     | _ \<Rightarrow> None)"

text \<open>All steps; \<open>None\<close> where one is not possible.  \<open>try_lock\<close> may fail without reason.\<close>

datatype 'd crew_event =
    CallAdd u64
  | CallKill
  | ProgramStep
  | TickerStep
  | TryLockFails
  | WorkerStarts nat
  | WorkerEvent nat "'d thread_event"

definition crew_event ::
  "('c, 'd) request_io \<Rightarrow> platform \<Rightarrow> ('d \<Rightarrow> 'd) \<Rightarrow> ('u \<Rightarrow> 'u) \<Rightarrow>
   ('r \<Rightarrow> ('u, 'c, 'd) request_context \<Rightarrow> (RouteResult, ('u, 'c, 'd) request_context) outcome) \<Rightarrow>
   'd crew_event \<Rightarrow> ('u, 'c, 'd, 'r) crew \<Rightarrow> ('u, 'c, 'd, 'r) crew option"
where
  "crew_event io pf finish_cgi tick call e cr =
    (if cr_program cr = Terminated then None
     else case e of
       CallAdd n \<Rightarrow> if cr_program cr = Idle then Some (cr\<lparr>cr_program := WantsAdd n\<rparr>) else None
     | CallKill \<Rightarrow> if cr_program cr = Idle then Some (cr\<lparr>cr_program := WantsKill\<rparr>) else None
     | ProgramStep \<Rightarrow> program_step (io_log io) cr
     | TickerStep \<Rightarrow> ticker_step (io_log io) cr
     | TryLockFails \<Rightarrow> if cr_ticker cr = Trying then Some (cr\<lparr>cr_ticker := TickTesting\<rparr>) else None
     | WorkerStarts j \<Rightarrow> worker_starts (io_log io) pf j cr
     | WorkerEvent j ev \<Rightarrow> worker_event io pf finish_cgi tick call j ev cr)"

fun crew_run ::
  "('c, 'd) request_io \<Rightarrow> platform \<Rightarrow> ('d \<Rightarrow> 'd) \<Rightarrow> ('u \<Rightarrow> 'u) \<Rightarrow>
   ('r \<Rightarrow> ('u, 'c, 'd) request_context \<Rightarrow> (RouteResult, ('u, 'c, 'd) request_context) outcome) \<Rightarrow>
   'd crew_event list \<Rightarrow> ('u, 'c, 'd, 'r) crew \<Rightarrow> ('u, 'c, 'd, 'r) crew option"
where
  "crew_run io pf finish_cgi tick call [] cr = Some cr"
| "crew_run io pf finish_cgi tick call (e # es) cr =
     (case crew_event io pf finish_cgi tick call e cr of
        None \<Rightarrow> None
      | Some cr' \<Rightarrow> crew_run io pf finish_cgi tick call es cr')"

section \<open>The invariant\<close>

fun holds_lock :: "program_pc \<Rightarrow> bool" where
  "holds_lock Idle = False"
| "holds_lock (WantsAdd n) = False"
| "holds_lock WantsKill = False"
| "holds_lock _ = True"

fun told_ticker :: "program_pc \<Rightarrow> bool" where
  "told_ticker (Signalling k) \<longleftrightarrow> 0 < k"
| "told_ticker (Joining k) = True"
| "told_ticker _ = False"

fun joined_ticker :: "program_pc \<Rightarrow> bool" where
  "joined_ticker (Joining k) \<longleftrightarrow> 0 < k"
| "joined_ticker _ = False"

fun ticker_holds :: "ticker_pc \<Rightarrow> bool" where
  "ticker_holds Counting = True"
| "ticker_holds Ticking = True"
| "ticker_holds _ = False"

definition lock_of :: "program_pc \<Rightarrow> ticker_pc \<Rightarrow> lock_owner option" where
  "lock_of p t = (if holds_lock p then Some ByProgram else if ticker_holds t then Some ByTicker else None)"

fun crew_list :: "server_thread list \<Rightarrow> bool" where
  "crew_list [] = True"
| "crew_list (th # ths) \<longleftrightarrow> th = Ticker \<and> Ticker \<notin> set ths"

definition crew_inv :: "('u, 'c, 'd, 'r) crew \<Rightarrow> bool" where
  "crew_inv cr \<longleftrightarrow>
     cr_lock cr = lock_of (cr_program cr) (cr_ticker cr) \<and>
     \<not> (holds_lock (cr_program cr) \<and> ticker_holds (cr_ticker cr)) \<and>
     crew_list (crew_threads cr) \<and>
     (crew_threads cr = [] \<longrightarrow> cr_ticker cr = TickEnded) \<and>
     (cr_ticker cr = Created \<or> crew_threads cr = [] \<or> cr_actions cr SIGUSR1 = SetShutdown) \<and>
     (cr_actions cr SIGUSR1 = SetShutdown \<longrightarrow> cr_actions cr SIGUSR2 = SetTick) \<and>
     (crew_threads cr = [] \<or> cr_program cr = Terminated \<or> cr_shutdown cr = told_ticker (cr_program cr)) \<and>
     (crew_threads cr = [] \<or> cr_ticker cr \<noteq> TickEnded \<or> cr_shutdown cr) \<and>
     (joined_ticker (cr_program cr) \<longrightarrow> cr_ticker cr = TickEnded)"

lemma emplace_workers_list:
  "\<exists>ids. srv_threads (emplace_workers n srv) = srv_threads srv @ map Worker ids"
proof (induction n arbitrary: srv)
  case (Suc n)
  from Suc.IH [of "srv\<lparr>srv_last_thread_id := srv_last_thread_id srv + 1,
      srv_threads := srv_threads srv @ [Worker (srv_last_thread_id srv + 1)]\<rparr>"]
  obtain ids where "srv_threads (emplace_workers (Suc n) srv) =
      srv_threads srv @ [Worker (srv_last_thread_id srv + 1)] @ map Worker ids"
    by auto
  then show ?case
    by (intro exI [of _ "(srv_last_thread_id srv + 1) # ids"]) simp
qed (simp add: exI [of _ "[]"])

lemma add_threads_list:
  "\<exists>ids. srv_threads (snd (add_threads lm n srv)) =
    (if srv_threads srv = [] then [Ticker] else srv_threads srv) @ map Worker ids"
proof -
  obtain srv1 where "snd (add_threads lm n srv) = emplace_workers (unat n) srv1"
    "srv_threads srv1 = (if srv_threads srv = [] then [Ticker] else srv_threads srv)"
    using that by (auto simp: add_threads_def Let_def)
  then show ?thesis
    using emplace_workers_list [of "unat n" srv1] by simp
qed

lemma add_threads_crew:
  assumes "crew_list (srv_threads srv)"
  shows "crew_list (srv_threads (snd (add_threads lm n srv)))" "srv_threads (snd (add_threads lm n srv)) \<noteq> []"
proof -
  obtain ids where ids: "srv_threads (snd (add_threads lm n srv)) =
      (if srv_threads srv = [] then [Ticker] else srv_threads srv) @ map Worker ids"
    using add_threads_list by blast
  show "crew_list (srv_threads (snd (add_threads lm n srv)))"
    unfolding ids using assms by (cases "srv_threads srv") auto
  show "srv_threads (snd (add_threads lm n srv)) \<noteq> []"
    unfolding ids by simp
qed

lemma tick_message_simps [simp]:
  "crew_threads (tick_message lm msg cr) = crew_threads cr" "cr_lock (tick_message lm msg cr) = cr_lock cr"
  "cr_program (tick_message lm msg cr) = cr_program cr" "cr_ticker (tick_message lm msg cr) = cr_ticker cr"
  "cr_shutdown (tick_message lm msg cr) = cr_shutdown cr" "cr_actions (tick_message lm msg cr) = cr_actions cr"
  "cr_workers (tick_message lm msg cr) = cr_workers cr" "cr_ticked (tick_message lm msg cr) = cr_ticked cr"
  by (simp_all add: tick_message_def)

lemma program_step_inv: "crew_inv cr \<Longrightarrow> pred_option crew_inv (program_step lm cr)"
proof (cases "cr_program cr")
  case (WantsAdd n)
  assume inv: "crew_inv cr"
  then have "crew_list (crew_threads cr)"
    by (simp add: crew_inv_def)
  from inv add_threads_crew [OF this, of lm n] WantsAdd show ?thesis
    by (cases "cr_ticker cr"; cases "crew_threads cr"; cases "cr_shutdown cr")
      (simp_all add: program_step_def crew_inv_def lock_of_def start_ticker_def)
next
  case (Signalling k)
  assume "crew_inv cr"
  with Signalling show ?thesis
    by (cases "cr_ticker cr"; cases "crew_threads cr"; cases "cr_shutdown cr"; cases k; cases "cr_actions cr SIGUSR1")
      (auto simp: program_step_def crew_inv_def lock_of_def send_shutdown_def)
next
  case (Joining k)
  assume "crew_inv cr"
  with Joining show ?thesis
    by (cases "cr_ticker cr"; cases "crew_threads cr"; cases "cr_shutdown cr"; cases k)
      (simp_all add: program_step_def crew_inv_def lock_of_def kill_threads_def thread_stopped_def)
qed (simp_all add: program_step_def crew_inv_def lock_of_def)

lemma ticker_step_inv: "crew_inv cr \<Longrightarrow> pred_option crew_inv (ticker_step lm cr)"
proof (cases "cr_ticker cr")
  case Ticking
  assume inv: "crew_inv cr"
  with Ticking have "cr_actions cr SIGUSR2 = SetTick" "crew_threads cr \<noteq> []"
    by (auto simp: crew_inv_def)
  with inv Ticking show ?thesis
    by (cases "cr_program cr"; cases "crew_threads cr"; cases "cr_shutdown cr")
      (auto simp: ticker_step_def crew_inv_def lock_of_def send_tick_def split_beta Let_def split: nat.split)
qed (cases "cr_program cr"; cases "crew_threads cr"; cases "cr_shutdown cr";
    simp add: ticker_step_def crew_inv_def lock_of_def install_thread_signal_handlers_def)+

text \<open>What workers do leaves the lock, the other two threads and the list alone.\<close>

definition same_frame :: "('u, 'c, 'd, 'r) crew \<Rightarrow> ('u, 'c, 'd, 'r) crew \<Rightarrow> bool" where
  "same_frame cr cr' \<longleftrightarrow>
    cr_lock cr' = cr_lock cr \<and> cr_program cr' = cr_program cr \<and> cr_ticker cr' = cr_ticker cr \<and>
    crew_threads cr' = crew_threads cr \<and> srv_router (cr_server cr') = srv_router (cr_server cr) \<and>
    cr_shutdown cr' = cr_shutdown cr \<and> cr_ticked cr' = cr_ticked cr \<and>
    (cr_actions cr' = cr_actions cr \<or>
     cr_actions cr' SIGUSR1 = SetShutdown \<and> cr_actions cr' SIGUSR2 = SetTick)"

lemma same_frame_inv: "crew_inv cr \<Longrightarrow> same_frame cr cr' \<Longrightarrow> crew_inv cr'"
  by (auto simp: crew_inv_def same_frame_def)

lemma worker_start_server:
  "srv_threads (snd (worker_start lm pf tid srv)) = srv_threads srv"
  "srv_router (snd (worker_start lm pf tid srv)) = srv_router srv"
  by (simp_all add: worker_start_def server_log_line_def Let_def)

lemma run_event_threads:
  "srv_threads (snd (run_event io pf finish_cgi tick call e (th, srv))) = srv_threads srv"
  by (cases e)
    (auto simp: thread_step_def thread_ends_def accept_returns_def handle_accepted_def close_request_def
      publish_global_context_def server_log_line_def Let_def split_beta split: phase.splits)

text \<open>The two kinds of event of a worker.\<close>

lemma worker_starts_cases:
  assumes "worker_starts lm pf j cr = Some cr'"
  obtains usr1 usr2 tid member where
    "j < length (cr_workers cr)" "cr_workers cr ! j = Unstarted usr1 usr2" "crew_threads cr ! Suc j = Worker tid"
    "member = NotInit \<or> (\<exists>wk. member = InLoop (thread_started (wk\<lparr>wk_shutdown := usr1, wk_tick := usr2\<rparr>)))"
    "cr' = cr\<lparr>cr_actions := snd (install_thread_signal_handlers (cr_actions cr)),
      cr_server := snd (worker_start lm pf tid (cr_server cr)), cr_workers := (cr_workers cr)[j := member]\<rparr>"
  using assms
  by (auto simp: worker_starts_def run_thread_function_def split_beta Let_def
      split: if_splits member.splits server_thread.splits option.splits)

lemma worker_event_cases:
  assumes "worker_event io pf finish_cgi tick call j e cr = Some cr'"
  obtains th where
    "j < length (cr_workers cr)" "cr_workers cr ! j = InLoop th" "thread_can th e"
    "cr' = cr\<lparr>cr_server := snd (run_event io pf finish_cgi tick call e (th, cr_server cr)),
      cr_workers := (cr_workers cr)[j := InLoop (fst (run_event io pf finish_cgi tick call e (th, cr_server cr)))]\<rparr>"
  using assms
  by (auto simp: worker_event_def split_beta Let_def split: if_splits member.splits)

lemma worker_frame:
  "worker_starts lm pf j cr = Some cr' \<Longrightarrow> same_frame cr cr'"
  "worker_event io pf finish_cgi tick call j ev cr = Some cr' \<Longrightarrow> same_frame cr cr'"
proof -
  show "worker_starts lm pf j cr = Some cr' \<Longrightarrow> same_frame cr cr'"
    by (erule worker_starts_cases)
      (simp add: same_frame_def worker_start_server install_thread_signal_handlers_def)
  show "worker_event io pf finish_cgi tick call j ev cr = Some cr' \<Longrightarrow> same_frame cr cr'"
    by (erule worker_event_cases) (simp add: same_frame_def run_event_threads run_event_router)
qed

lemma crew_event_inv: "crew_inv cr \<Longrightarrow> pred_option crew_inv (crew_event io pf finish_cgi tick call e cr)"
proof (cases e)
  case ProgramStep
  assume "crew_inv cr"
  with ProgramStep show ?thesis by (simp add: crew_event_def program_step_inv)
next
  case TickerStep
  assume "crew_inv cr"
  with TickerStep show ?thesis by (simp add: crew_event_def ticker_step_inv)
next
  case (WorkerStarts j)
  assume "crew_inv cr"
  with WorkerStarts show ?thesis
    by (cases "worker_starts (io_log io) pf j cr")
      (auto simp: crew_event_def intro: same_frame_inv worker_frame)
next
  case (WorkerEvent j ev)
  assume "crew_inv cr"
  with WorkerEvent show ?thesis
    by (cases "worker_event io pf finish_cgi tick call j ev cr")
      (auto simp: crew_event_def intro: same_frame_inv worker_frame)
next
  case TryLockFails
  assume "crew_inv cr"
  with TryLockFails show ?thesis
    by (cases "cr_ticker cr"; cases "crew_threads cr") (auto simp: crew_event_def crew_inv_def lock_of_def)
qed (auto simp: crew_event_def crew_inv_def lock_of_def)

lemma crew_run_inv: "crew_inv cr \<Longrightarrow> crew_run io pf finish_cgi tick call es cr = Some cr' \<Longrightarrow> crew_inv cr'"
proof (induction es arbitrary: cr)
  case (Cons e es)
  then show ?case
    using crew_event_inv [OF Cons.prems(1), of io pf finish_cgi tick call e] by (auto split: option.splits)
qed simp

lemma crew_new_inv: "srv_threads srv = [] \<Longrightarrow> crew_inv (crew_new srv)"
  by (simp add: crew_inv_def crew_new_def lock_of_def)

section \<open>A kill that comes too early\<close>

text \<open>The program is in \<open>kill_threads\<close> and holds the lock the maintenance thread has not had yet,
  or a signal has ended the process.\<close>

definition too_early :: "('u, 'c, 'd, 'r) crew \<Rightarrow> bool" where
  "too_early cr \<longleftrightarrow> cr_program cr = Terminated \<or>
     (cr_ticker cr = Created \<or> cr_ticker cr = Locking) \<and>
     (case cr_program cr of Signalling k \<Rightarrow> True | Joining k \<Rightarrow> True | _ \<Rightarrow> False)"

lemma too_early_event:
  assumes "crew_inv cr" "too_early cr"
  shows "pred_option too_early (crew_event io pf finish_cgi tick call e cr)"
proof (cases e)
  case ProgramStep
  show ?thesis
  proof (cases "cr_program cr")
    case (Joining k)
    with assms have "k = 0" "crew_threads cr \<noteq> []" "crew_threads cr ! 0 = Ticker" "cr_ticker cr \<noteq> TickEnded"
      by (cases "crew_threads cr"; auto simp: crew_inv_def too_early_def)+
    with Joining ProgramStep show ?thesis
      by (simp add: crew_event_def program_step_def thread_stopped_def)
  next
    case (Signalling k)
    with assms ProgramStep show ?thesis
      by (cases "cr_actions cr SIGUSR1"; cases k)
        (simp_all add: crew_event_def program_step_def send_shutdown_def too_early_def)
  qed (use assms ProgramStep in \<open>simp_all add: crew_event_def too_early_def\<close>)
next
  case TickerStep
  with assms show ?thesis
    by (cases "cr_program cr"; cases "cr_ticker cr")
      (simp_all add: crew_event_def ticker_step_def too_early_def crew_inv_def lock_of_def)
next
  case (WorkerStarts j)
  with assms show ?thesis
    by (cases "worker_starts (io_log io) pf j cr")
      (auto simp: crew_event_def too_early_def same_frame_def dest!: worker_frame)
next
  case (WorkerEvent j ev)
  with assms show ?thesis
    by (cases "worker_event io pf finish_cgi tick call j ev cr")
      (auto simp: crew_event_def too_early_def same_frame_def dest!: worker_frame)
qed (use assms in \<open>auto simp: crew_event_def too_early_def\<close>)

lemma too_early_run:
  "crew_inv cr \<Longrightarrow> too_early cr \<Longrightarrow> crew_run io pf finish_cgi tick call es cr = Some cr' \<Longrightarrow> too_early cr'"
proof (induction es arbitrary: cr)
  case (Cons e es)
  then show ?case
    using crew_event_inv [OF Cons.prems(1), of io pf finish_cgi tick call e] too_early_event [OF Cons.prems(1,2), of io pf finish_cgi tick call e]
    by (auto split: option.splits)
qed simp

section \<open>Ticks\<close>

lemma tick_not_ticker:
  assumes "crew_list ths" "fst (tick_threads ths i) = Some th"
  shows "th \<noteq> Ticker"
proof -
  let ?i = "tick_index (word_of_nat (length ths)) i"
  have "?i \<noteq> 0"
    by (simp add: tick_index_def Let_def)
  then have "0 < unat ?i"
    by (simp add: unat_gt_0)
  moreover have "unat ?i < length ths" "th = ths ! unat ?i"
    using assms(2) by (auto simp: tick_threads_def Let_def split: if_splits)
  ultimately have "unat ?i - 1 < length (tl ths)" "th = tl ths ! (unat ?i - 1)"
    by (simp_all add: nth_tl)
  then have "th \<in> set (tl ths)"
    by simp
  with assms(1) show ?thesis
    by (cases ths) auto
qed

lemma signal_ticked:
  "cr_ticked (send_shutdown k cr) = cr_ticked cr" "cr_ticked (send_tick k cr) = cr_ticked cr"
  by (simp_all add: send_shutdown_def send_tick_def split: signal_action.split nat.split)

lemma event_ticked:
  assumes "crew_inv cr" "Ticker \<notin> set (cr_ticked cr)"
  shows "pred_option (\<lambda>cr'. Ticker \<notin> set (cr_ticked cr')) (crew_event io pf finish_cgi tick call e cr)"
proof (cases e)
  case TickerStep
  have "crew_list (crew_threads cr)" using assms(1) by (simp add: crew_inv_def)
  then have "Ticker \<notin> set (case fst (tick_threads (crew_threads cr) (cr_trigger_index cr)) of None \<Rightarrow> [] | Some th \<Rightarrow> [th])"
    using tick_not_ticker by (cases "fst (tick_threads (crew_threads cr) (cr_trigger_index cr))") force+
  with TickerStep assms(2) show ?thesis
    by (cases "cr_ticker cr") (simp_all add: crew_event_def ticker_step_def signal_ticked split_beta Let_def)
next
  case ProgramStep
  with assms(2) show ?thesis
    by (cases "cr_program cr") (simp_all add: crew_event_def program_step_def start_ticker_def signal_ticked)
next
  case (WorkerStarts j)
  with assms(2) show ?thesis
    by (cases "worker_starts (io_log io) pf j cr") (auto simp: crew_event_def same_frame_def dest!: worker_frame)
next
  case (WorkerEvent j ev)
  with assms(2) show ?thesis
    by (cases "worker_event io pf finish_cgi tick call j ev cr")
      (auto simp: crew_event_def same_frame_def dest!: worker_frame)
qed (use assms(2) in \<open>simp_all add: crew_event_def\<close>)

lemma run_ticked:
  "crew_inv cr \<Longrightarrow> Ticker \<notin> set (cr_ticked cr) \<Longrightarrow> crew_run io pf finish_cgi tick call es cr = Some cr' \<Longrightarrow> Ticker \<notin> set (cr_ticked cr')"
proof (induction es arbitrary: cr)
  case (Cons e es)
  then show ?case
    using crew_event_inv [OF Cons.prems(1), of io pf finish_cgi tick call e] event_ticked [OF Cons.prems(1,2), of io pf finish_cgi tick call e]
    by (auto split: option.splits)
qed simp

section \<open>A sample\<close>

definition quiet_server :: "(mock_logger, unit, unit) server" where
  "quiet_server = server_new boot_table \<lparr>log_debug = [], log_info = [], log_error = []\<rparr>"

lemma quiet_server_simps [simp]:
  "srv_threads quiet_server = []" "srv_last_thread_id quiet_server = 0" "srv_router quiet_server = None"
  by (simp_all add: quiet_server_def server_new_def)

lemma one_worker:
  assumes "srv_threads srv = []" "srv_last_thread_id srv = 0"
  shows "srv_threads (snd (add_threads lm 1 srv)) = [Ticker, Worker 1]"
  using assms by (simp add: add_threads_def Let_def)

abbreviation quiet_run ::
  "mock_cgi crew_event list \<Rightarrow> (unit, mock_logger, mock_cgi, unit) crew \<Rightarrow>
   (unit, mock_logger, mock_cgi, unit) crew option"
where
  "quiet_run \<equiv> crew_run sample_io sample_platform id id (\<lambda>r cx. (Inr Handled, cx))"

lemmas crew_defs = worker_start_def sample_platform_def server_log_line_def crew_event_def program_step_def ticker_step_def start_ticker_def send_shutdown_def
  thread_stopped_def install_thread_signal_handlers_def kill_threads_def crew_new_def one_worker
  worker_starts_def run_thread_function_def worker_event_def thread_can_def thread_started_def
  thread_signal_def thread_step_def thread_ends_def

section \<open>Properties\<close>

text \<open>C21: Whatever the program and the maintenance thread do and in whichever order: only one of them
  has the list of threads at a time, and when the maintenance thread has it, the list is not
  empty, so its remainder is defined, and the thread itself is at index 0 and nowhere else; it
  never sends the tick to itself.\<close>

theorem threads_lock_respected:
  assumes "crew_run io pf finish_cgi tick call es (crew_new srv) = Some cr" "srv_threads srv = []"
  shows "\<not> (holds_lock (cr_program cr) \<and> ticker_holds (cr_ticker cr)) \<and>
    (cr_ticker cr \<noteq> TickEnded \<longrightarrow> (\<exists>ths. crew_threads cr = Ticker # ths \<and> Ticker \<notin> set ths)) \<and>
    Ticker \<notin> set (cr_ticked cr)"
proof -
  note inv = crew_run_inv [OF crew_new_inv [OF assms(2)] assms(1)]
  moreover have "Ticker \<notin> set (cr_ticked cr)"
    using run_ticked [OF crew_new_inv [OF assms(2)] _ assms(1)] by (simp add: crew_new_def)
  ultimately show ?thesis
    by (cases "crew_threads cr") (auto simp: crew_inv_def)
qed

theorem threads_lock_respected_witness:
  "\<exists>cr. quiet_run
      [CallAdd 1, ProgramStep, ProgramStep, TickerStep, TickerStep, TickerStep, TickerStep, TickerStep, TickerStep,
       CallKill] (crew_new quiet_server) = Some cr \<and>
    cr_ticker cr = Ticking \<and> (\<exists>ths. crew_threads cr = Ticker # ths \<and> Ticker \<notin> set ths)"
proof -
  obtain cr where "quiet_run
      [CallAdd 1, ProgramStep, ProgramStep, TickerStep, TickerStep, TickerStep, TickerStep, TickerStep, TickerStep,
       CallKill] (crew_new quiet_server) = Some cr" "cr_ticker cr = Ticking"
    by (simp add: crew_defs)
  with threads_lock_respected [OF this(1)] show ?thesis
    by auto
qed

text \<open>C25: A program that kills its threads before the maintenance thread has had its first lock does
  not come back: the two wait for each other for ever, or the signal arrives before any thread
  has installed its handlers and ends the process.\<close>

theorem early_kill_never_returns:
  assumes "crew_run io pf finish_cgi tick call es (crew_new srv) = Some cr" "srv_threads srv = []"
    and "cr_program cr = Signalling 0" "cr_ticker cr = Created \<or> cr_ticker cr = Locking"
    and "crew_run io pf finish_cgi tick call es' cr = Some cr'"
  shows "cr_program cr' = Terminated \<or>
    (\<exists>k. cr_program cr' = Signalling k) \<or> cr_program cr' = Joining 0 \<and> program_step (io_log io) cr' = None"
proof -
  have inv: "crew_inv cr"
    by (rule crew_run_inv [OF crew_new_inv [OF assms(2)] assms(1)])
  have "too_early cr"
    using assms(3,4) by (auto simp: too_early_def)
  note early = too_early_run [OF inv this assms(5)]
  note inv' = crew_run_inv [OF inv assms(5)]
  have "k = 0 \<and> program_step (io_log io) cr' = None" if "cr_program cr' = Joining k" for k
    using early inv' that
    by (cases "crew_threads cr'") (auto simp: too_early_def crew_inv_def program_step_def thread_stopped_def)
  with early show ?thesis
    by (cases "cr_program cr'") (auto simp: too_early_def)
qed

theorem early_kill_never_returns_witness:
  "\<exists>cr cr'. quiet_run
      [CallAdd 1, ProgramStep, ProgramStep, WorkerStarts 0, TickerStep, CallKill, ProgramStep] (crew_new quiet_server) =
      Some cr \<and>
    quiet_run [ProgramStep, ProgramStep, WorkerEvent 0 Step, ProgramStep] cr = Some cr' \<and>
    program_step (io_log sample_io) cr' = None"
proof -
  let ?es = "[ProgramStep, ProgramStep, WorkerEvent 0 Step, ProgramStep]"
  obtain cr where cr: "quiet_run
      [CallAdd 1, ProgramStep, ProgramStep, WorkerStarts 0, TickerStep, CallKill, ProgramStep] (crew_new quiet_server) =
      Some cr" "cr_program cr = Signalling 0" "cr_ticker cr = Created \<or> cr_ticker cr = Locking"
      "\<exists>cr'. quiet_run ?es cr = Some cr' \<and> cr_program cr' = Joining 0"
    by (simp add: crew_defs)
  then obtain cr' where "quiet_run ?es cr = Some cr'" "cr_program cr' = Joining 0"
    by blast
  with cr early_kill_never_returns [OF cr(1) _ cr(2,3), of ?es cr'] show ?thesis
    by auto
qed

end
