(* ===== verification/Shutdown.thy ===== *)
theory Shutdown
  imports Maintenance
begin

text \<open>
  The end of \<open>kill_threads\<close>: every thread of the list has got its signal before the first is joined,
  and each then comes to its end in a few steps of its own, except a worker whose signal came
  between its test and the accepting call; that one is waited for until a request arrives.
\<close>

section \<open>The workers' invariant\<close>

fun signalled :: "program_pc \<Rightarrow> nat \<Rightarrow> bool" where
  "signalled (Signalling k) j \<longleftrightarrow> Suc j < k"
| "signalled (Joining k) j = True"
| "signalled _ j = False"

fun told :: "('u, 'c, 'd, 'r) member \<Rightarrow> bool" where
  "told (Unstarted usr1 usr2) = usr1"
| "told (InLoop th) \<longleftrightarrow> wk_shutdown (th_worker th) \<or> th_phase th = Ended"
| "told NotInit = True"

fun member_ok :: "(signal \<Rightarrow> signal_action) \<Rightarrow> ('u, 'c, 'd, 'r) member \<Rightarrow> bool" where
  "member_ok actions (Unstarted usr1 usr2) = True"
| "member_ok actions (InLoop th) \<longleftrightarrow> actions SIGUSR1 = SetShutdown \<and> th_phase th \<noteq> NoRouter"
| "member_ok actions NotInit \<longleftrightarrow> actions SIGUSR1 = SetShutdown"

definition workers_inv :: "('u, 'c, 'd, 'r) crew \<Rightarrow> bool" where
  "workers_inv cr \<longleftrightarrow>
    length (cr_workers cr) = length (crew_threads cr) - 1 \<and>
    (crew_threads cr = [] \<or> srv_router (cr_server cr) \<noteq> None) \<and>
    (\<forall>j < length (cr_workers cr). member_ok (cr_actions cr) (cr_workers cr ! j) \<and>
      (signalled (cr_program cr) j \<longrightarrow> told (cr_workers cr ! j)))"

lemma member_signal [simp]:
  "member_ok actions m \<Longrightarrow> told (member_usr1 m)"
  "member_ok actions (member_usr1 m) = member_ok actions m"
  "told (member_usr2 m) = told m" "member_ok actions (member_usr2 m) = member_ok actions m"
  by (cases m; auto simp: thread_signal_def split: if_splits)+

fun thread_rank :: "('c, 'd, 'r) phase \<Rightarrow> nat" where
  "thread_rank Entering = 6"
| "thread_rank Accepting = 5"
| "thread_rank (Accepted d) = 4"
| "thread_rank (Handling r d) = 3"
| "thread_rank (Closing rq) = 2"
| "thread_rank Testing = 1"
| "thread_rank _ = 0"

text \<open>What an event of a worker does to its thread, told or not.\<close>

lemma handle_accepted_shutdown:
  "wk_shutdown (th_worker (fst (handle_accepted io call r d th srv))) = wk_shutdown (th_worker th)"
  by (simp add: handle_accepted_def Let_def split_beta)

lemma close_request_thread:
  "th_phase (fst (close_request io finish_cgi rq th srv)) = Testing"
  "wk_shutdown (th_worker (fst (close_request io finish_cgi rq th srv))) = wk_shutdown (th_worker th)"
  by (simp_all add: close_request_def Let_def split_beta)

lemma run_event_member:
  fixes io and pf and finish_cgi and tick and call
  assumes "thread_can th e" "srv_router srv \<noteq> None" "th_phase th \<noteq> NoRouter"
  defines "th' \<equiv> fst (run_event io pf finish_cgi tick call e (th, srv))"
  shows "th_phase th' \<noteq> NoRouter \<and> (wk_shutdown (th_worker th) \<longrightarrow>
    wk_shutdown (th_worker th') \<and> thread_rank (th_phase th') < thread_rank (th_phase th))"
proof (cases e)
  case Step
  show ?thesis
  proof (cases "th_phase th")
    case (Handling r d)
    with Step show ?thesis
      by (simp add: th'_def thread_step_def handle_accepted_handled handle_accepted_shutdown)
  next
    case (Closing rq)
    with Step show ?thesis
      by (simp add: th'_def thread_step_def close_request_thread)
  next
    case (Accepted d)
    with Step assms(2) show ?thesis
      by (auto simp: th'_def thread_step_def copy_shared_def)
  next
    case Testing
    with Step show ?thesis
      by (simp add: th'_def thread_step_def thread_ends_def)
  qed (use Step assms(1,3) in \<open>simp_all add: th'_def thread_can_def thread_step_def\<close>)
next
  case (AcceptReturns result d)
  with assms(1) have "th_phase th = Accepting"
    by (cases "th_phase th") (simp_all add: thread_can_def)
  with AcceptReturns show ?thesis
    by (simp add: th'_def accept_returns_def thread_ends_def)
qed (use assms(1) in \<open>simp_all add: thread_can_def\<close>)

lemma worker_inv:
  assumes "workers_inv cr" "same_frame cr cr'" "j < length (cr_workers cr)"
    and "cr_workers cr' = (cr_workers cr)[j := m]" "member_ok (cr_actions cr') m" "told (cr_workers cr ! j) \<longrightarrow> told m"
  shows "workers_inv cr'"
proof -
  have "member_ok (cr_actions cr) n \<Longrightarrow> member_ok (cr_actions cr') n" for n :: "('a, 'b, 'c, 'd) member"
    using assms(2) by (cases n) (auto simp: same_frame_def)
  then show ?thesis
    using assms by (auto simp: workers_inv_def same_frame_def nth_list_update)
qed

section \<open>The invariant holds\<close>

lemma workers_starts_inv:
  assumes "workers_inv cr" "worker_starts lm pf j cr = Some cr'"
  shows "workers_inv cr'"
proof -
  note frame = worker_frame(1) [OF assms(2)]
  from assms(2) show ?thesis
  proof (cases rule: worker_starts_cases)
    case (1 usr1 usr2 tid m)
    then show ?thesis
      by (intro worker_inv [OF assms(1) frame 1(1)])
        (auto simp: install_thread_signal_handlers_def thread_started_def)
  qed
qed

lemma has_router: "workers_inv cr \<Longrightarrow> j < length (cr_workers cr) \<Longrightarrow> srv_router (cr_server cr) \<noteq> None"
  by (auto simp: workers_inv_def)

lemma worker_event_inv:
  assumes "workers_inv cr" "worker_event io pf finish_cgi tick call j ev cr = Some cr'"
  shows "workers_inv cr'"
proof -
  note frame = worker_frame(2) [OF assms(2)]
  from assms(2) show ?thesis
  proof (cases rule: worker_event_cases)
    case (1 th)
    then have ok: "cr_actions cr SIGUSR1 = SetShutdown" "th_phase th \<noteq> NoRouter"
      using assms(1) by (force simp: workers_inv_def)+
    have "th_phase th \<noteq> Ended"
      using 1(3) by (cases ev) (auto simp: thread_can_def)
    with 1 ok run_event_member [OF 1(3) has_router [OF assms(1) 1(1)] ok(2), of io pf finish_cgi tick call]
    show ?thesis
      by (intro worker_inv [OF assms(1) frame 1(1)]) auto
  qed
qed

lemma emplace_workers_length:
  "length (srv_threads (emplace_workers n srv)) = length (srv_threads srv) + n"
  "srv_router (emplace_workers n srv) = srv_router srv"
  by (induction n arbitrary: srv) simp_all

lemma add_threads_length:
  "length (srv_threads (snd (add_threads lm n srv))) =
    (if srv_threads srv = [] then 1 else length (srv_threads srv)) + unat n"
  "srv_router (snd (add_threads lm n srv)) \<noteq> None"
  by (simp_all add: add_threads_def emplace_workers_length Let_def)

lemma nth_update: "j < length xs \<Longrightarrow> xs[i := x] ! j = (if i = j then x else xs ! j)"
  by (cases "i = j") simp_all

lemma member_ok_install: "member_ok actions m \<Longrightarrow> member_ok (snd (install_thread_signal_handlers actions)) m"
  by (cases m) (simp_all add: install_thread_signal_handlers_def)

text \<open>The signals of the program and of the maintenance thread.\<close>

lemma send_shutdown_inv:
  assumes "workers_inv cr" "cr_program cr = Signalling k"
  shows "workers_inv (send_shutdown k (cr\<lparr>cr_program := Signalling (Suc k)\<rparr>))"
proof (cases "cr_actions cr SIGUSR1 = SetShutdown")
  case True
  have "told (member_usr1 (cr_workers cr ! j))" if "j < length (cr_workers cr)" for j
    using assms(1) that by (intro member_signal(1)) (auto simp: workers_inv_def)
  with True assms show ?thesis
    by (cases k) (auto simp: send_shutdown_def workers_inv_def nth_update less_Suc_eq)
next
  case False
  with assms show ?thesis
    by (cases "cr_actions cr SIGUSR1") (simp_all add: send_shutdown_def workers_inv_def)
qed

lemma send_tick_inv: "workers_inv cr \<Longrightarrow> workers_inv (send_tick k cr)"
  by (cases "cr_actions cr SIGUSR2"; cases k) (auto simp: send_tick_def workers_inv_def nth_update)

lemma program_workers:
  assumes "workers_inv cr" "program_step lm cr = Some cr'"
  shows "workers_inv cr'"
proof (cases "cr_program cr")
  case (WantsAdd n)
  with assms have cr': "cr' = (start_ticker cr)\<lparr>cr_lock := Some ByProgram, cr_program := Adding,
      cr_workers := cr_workers cr @ replicate (unat n) (Unstarted False False),
      cr_server := snd (add_threads lm n (cr_server cr))\<rparr>"
    by (auto simp: program_step_def split: if_splits)
  have "cr_actions (start_ticker cr) = cr_actions cr"
    by (simp add: start_ticker_def)
  then show ?thesis
    using assms(1) by (cases "crew_threads cr") (auto simp: cr' workers_inv_def add_threads_length nth_append)
next
  case (Signalling k)
  with assms show ?thesis
    using send_shutdown_inv [OF assms(1) Signalling]
    by (auto simp: program_step_def workers_inv_def split: if_splits)
next
  case (Joining k)
  with assms show ?thesis
    by (auto simp: program_step_def workers_inv_def kill_threads_def split: if_splits)
qed (use assms in \<open>auto simp: program_step_def workers_inv_def split: if_splits\<close>)

lemma ticker_workers:
  assumes "workers_inv cr" "ticker_step lm cr = Some cr'"
  shows "workers_inv cr'"
proof (cases "cr_ticker cr")
  case Ticking
  define cr1 where "cr1 = cr\<lparr>cr_num_threads := num_threads cr,
      cr_trigger_index := snd (tick_threads (crew_threads cr) (cr_trigger_index cr)),
      cr_ticked := cr_ticked cr @ (case fst (tick_threads (crew_threads cr) (cr_trigger_index cr)) of
        None \<Rightarrow> [] | Some th \<Rightarrow> [th]), cr_lock := None, cr_ticker := TickTesting\<rparr>"
  have "workers_inv cr1"
    using assms(1) by (simp add: workers_inv_def cr1_def)
  moreover have "cr' = cr1 \<or> (\<exists>k. cr' = send_tick k cr1)"
    using assms(2) Ticking by (auto simp: ticker_step_def cr1_def split_beta Let_def split: if_splits)
  ultimately show ?thesis
    using send_tick_inv by auto
next
  case Created
  with assms show ?thesis
    by (auto simp: ticker_step_def workers_inv_def tick_message_def member_ok_install)
qed (use assms in \<open>auto simp: ticker_step_def workers_inv_def tick_message_def split: if_splits\<close>)

lemma workers_inv_event:
  assumes "workers_inv cr" "crew_event io pf finish_cgi tick call e cr = Some cr'"
  shows "workers_inv cr'"
proof (cases e)
  case ProgramStep
  with assms show ?thesis by (auto simp: crew_event_def intro: program_workers split: if_splits)
next
  case TickerStep
  with assms show ?thesis by (auto simp: crew_event_def intro: ticker_workers split: if_splits)
next
  case (WorkerStarts j)
  with assms show ?thesis by (auto simp: crew_event_def intro: workers_starts_inv split: if_splits)
next
  case (WorkerEvent j ev)
  with assms show ?thesis by (auto simp: crew_event_def intro: worker_event_inv split: if_splits)
qed (use assms in \<open>auto simp: crew_event_def workers_inv_def split: if_splits\<close>)

lemma crew_invs_run:
  "crew_inv cr \<Longrightarrow> workers_inv cr \<Longrightarrow> crew_run io pf finish_cgi tick call es cr = Some cr' \<Longrightarrow>
   crew_inv cr' \<and> workers_inv cr'"
proof (induction es arbitrary: cr)
  case (Cons e es)
  then obtain cr1 where "crew_event io pf finish_cgi tick call e cr = Some cr1"
    "crew_run io pf finish_cgi tick call es cr1 = Some cr'"
    by (auto split: option.splits)
  moreover from this have "crew_inv cr1" "workers_inv cr1"
    using crew_event_inv [OF Cons.prems(1), of io pf finish_cgi tick call e] workers_inv_event [OF Cons.prems(2)]
    by auto
  ultimately show ?case
    using Cons.IH by blast
qed simp

lemma crew_invs_new:
  "srv_threads srv = [] \<Longrightarrow> crew_run io pf finish_cgi tick call es (crew_new srv) = Some cr \<Longrightarrow>
   crew_inv cr \<and> workers_inv cr"
  by (rule crew_invs_run [OF crew_new_inv]) (simp_all add: workers_inv_def crew_new_def)

section \<open>How much is left to do\<close>

fun is_call :: "'d crew_event \<Rightarrow> bool" where
  "is_call (CallAdd n) = True"
| "is_call CallKill = True"
| "is_call _ = False"

text \<open>The events that \<open>kill_threads\<close> waits for: its own steps, those of the maintenance thread, and what
  happens to the workers it has already signalled.\<close>

definition stopping_event :: "'d crew_event \<Rightarrow> ('u, 'c, 'd, 'r) crew \<Rightarrow> bool" where
  "stopping_event e cr \<longleftrightarrow>
    (case e of
       WorkerStarts j \<Rightarrow> signalled (cr_program cr) j
     | WorkerEvent j ev \<Rightarrow> signalled (cr_program cr) j
     | _ \<Rightarrow> \<not> is_call e)"

fun stopping_events ::
  "('c, 'd) request_io \<Rightarrow> platform \<Rightarrow> ('d \<Rightarrow> 'd) \<Rightarrow> ('u \<Rightarrow> 'u) \<Rightarrow>
   ('r \<Rightarrow> ('u, 'c, 'd) request_context \<Rightarrow> (RouteResult, ('u, 'c, 'd) request_context) outcome) \<Rightarrow>
   'd crew_event list \<Rightarrow> ('u, 'c, 'd, 'r) crew \<Rightarrow> nat"
where
  "stopping_events io pf finish_cgi tick call [] cr = 0"
| "stopping_events io pf finish_cgi tick call (e # es) cr =
     (case crew_event io pf finish_cgi tick call e cr of
        None \<Rightarrow> 0
      | Some cr' \<Rightarrow>
          (if stopping_event e cr then 1 else 0) + stopping_events io pf finish_cgi tick call es cr')"

text \<open>Steps left to the program, to the maintenance thread and to each worker; a worker that is not
  signalled yet counts as one that has all its steps to make.\<close>

fun program_rank :: "nat \<Rightarrow> program_pc \<Rightarrow> nat" where
  "program_rank n (Signalling k) = 2 * n + 2 - k"
| "program_rank n (Joining k) = n + 1 - k"
| "program_rank n _ = 0"

fun ticker_rank :: "ticker_pc \<Rightarrow> nat" where
  "ticker_rank (Pausing p) = 3"
| "ticker_rank Trying = 2"
| "ticker_rank TickTesting = 1"
| "ticker_rank _ = 0"

fun member_rank :: "('u, 'c, 'd, 'r) member \<Rightarrow> nat" where
  "member_rank (Unstarted usr1 usr2) = 2"
| "member_rank (InLoop th) = thread_rank (th_phase th)"
| "member_rank NotInit = 0"

definition worker_rank :: "('u, 'c, 'd, 'r) crew \<Rightarrow> nat \<Rightarrow> nat" where
  "worker_rank cr j = (if signalled (cr_program cr) j then member_rank (cr_workers cr ! j) else 6)"

definition crew_rank :: "('u, 'c, 'd, 'r) crew \<Rightarrow> nat" where
  "crew_rank cr = program_rank (length (crew_threads cr)) (cr_program cr) + ticker_rank (cr_ticker cr) +
     (\<Sum>j<length (cr_workers cr). worker_rank cr j)"

lemma member_rank_le: "member_rank m \<le> 6"
proof (cases m)
  case (InLoop th)
  then show ?thesis by (cases "th_phase th") simp_all
qed simp_all

lemma worker_rank_le: "worker_rank cr j \<le> 6"
  by (simp add: worker_rank_def member_rank_le)

text \<open>The maintenance thread has been told, and is past its first lock.\<close>

definition finishing :: "('u, 'c, 'd, 'r) crew \<Rightarrow> bool" where
  "finishing cr \<longleftrightarrow> crew_inv cr \<and> workers_inv cr \<and>
     (case cr_program cr of
        Signalling k \<Rightarrow> 0 < k \<and> k \<le> length (crew_threads cr) \<and> cr_ticker cr \<noteq> Created \<and> cr_ticker cr \<noteq> Locking
      | Joining k \<Rightarrow> k \<le> length (crew_threads cr) \<and> cr_ticker cr \<noteq> Created \<and> cr_ticker cr \<noteq> Locking
      | Idle \<Rightarrow> crew_threads cr = []
      | _ \<Rightarrow> False)"

lemma worker_sum_less:
  assumes "j < n" "g j < f j" "\<And>i. i \<noteq> j \<Longrightarrow> g i \<le> f i"
  shows "(\<Sum>i<n :: nat. g i) < (\<Sum>i<n. f i :: nat)"
proof (rule sum_strict_mono_ex1)
  show "\<forall>i\<in>{..<n}. g i \<le> f i"
    using assms(2,3) le_eq_less_or_eq by metis
qed (use assms(1,2) in auto)

lemma worker_sum_step:
  assumes "j < n" "p \<Longrightarrow> g j < f j" "\<not> p \<Longrightarrow> g j \<le> f j" "\<And>i. i \<noteq> j \<Longrightarrow> g i \<le> f i"
  shows "(\<Sum>i<n :: nat. g i) + (if p then 1 else 0) \<le> (\<Sum>i<n. f i :: nat)"
proof (cases p)
  case True
  then show ?thesis using worker_sum_less [of j n g f] assms by simp
next
  case False
  have "g i \<le> f i" for i
    using assms(3,4) False by (cases "i = j") auto
  with False show ?thesis by (simp add: sum_mono)
qed

text \<open>A worker's own events.\<close>

lemma signalled_told:
  "workers_inv cr \<Longrightarrow> j < length (cr_workers cr) \<Longrightarrow> signalled (cr_program cr) j \<Longrightarrow> told (cr_workers cr ! j)"
  by (auto simp: workers_inv_def)

lemma frame_rank:
  assumes "same_frame cr cr'" "j < length (cr_workers cr)" "cr_workers cr' = (cr_workers cr)[j := m]"
    and "signalled (cr_program cr) j \<Longrightarrow> member_rank m < member_rank (cr_workers cr ! j)"
  shows "crew_rank cr' + (if signalled (cr_program cr) j then 1 else 0) \<le> crew_rank cr"
proof -
  have "(\<Sum>i<length (cr_workers cr). worker_rank cr' i) + (if signalled (cr_program cr) j then 1 else 0) \<le>
      (\<Sum>i<length (cr_workers cr). worker_rank cr i)"
    using assms by (intro worker_sum_step [where j = j]) (auto simp: worker_rank_def same_frame_def)
  with assms(1,3) show ?thesis
    by (simp add: crew_rank_def same_frame_def)
qed

lemma worker_starts_rank:
  assumes "workers_inv cr" "worker_starts lm pf j cr = Some cr'"
  shows "crew_rank cr' + (if signalled (cr_program cr) j then 1 else 0) \<le> crew_rank cr"
proof -
  note frame = worker_frame(1) [OF assms(2)]
  from assms(2) show ?thesis
  proof (cases rule: worker_starts_cases)
    case (1 usr1 usr2 tid m)
    then show ?thesis
      by (intro frame_rank [OF frame 1(1)]) (auto simp: thread_started_def)
  qed
qed

lemma worker_event_rank:
  assumes "workers_inv cr" "worker_event io pf finish_cgi tick call j ev cr = Some cr'"
  shows "crew_rank cr' + (if signalled (cr_program cr) j then 1 else 0) \<le> crew_rank cr"
proof -
  note frame = worker_frame(2) [OF assms(2)]
  from assms(2) show ?thesis
  proof (cases rule: worker_event_cases)
    case (1 th)
    have ok: "th_phase th \<noteq> NoRouter" "th_phase th \<noteq> Ended"
      using assms(1) 1 by (force simp: workers_inv_def, cases ev, auto simp: thread_can_def)
    show ?thesis
    proof (rule frame_rank [OF frame 1(1)])
      show "cr_workers cr' = (cr_workers cr)
          [j := InLoop (fst (run_event io pf finish_cgi tick call ev (th, cr_server cr)))]"
        by (simp add: 1(4))
      assume "signalled (cr_program cr) j"
      with 1 ok signalled_told [OF assms(1) 1(1)] have "wk_shutdown (th_worker th)"
        by simp
      with run_event_member [OF 1(3) has_router [OF assms(1) 1(1)] ok(1), of io pf finish_cgi tick call]
      show "member_rank (InLoop (fst (run_event io pf finish_cgi tick call ev (th, cr_server cr)))) <
          member_rank (cr_workers cr ! j)"
        by (simp add: 1(2))
    qed
  qed
qed

text \<open>The program's own steps.\<close>

lemma program_rank_step:
  assumes "finishing cr" "program_step lm cr = Some cr'"
  shows "finishing cr' \<and> crew_rank cr' + 1 \<le> crew_rank cr"
proof -
  have inv: "crew_inv cr" "workers_inv cr"
    using assms(1) by (simp_all add: finishing_def)
  have inv': "crew_inv cr'" "workers_inv cr'"
    using program_step_inv [OF inv(1), of lm] program_workers [OF inv(2) assms(2)] assms(2) by simp_all
  show ?thesis
  proof (cases "cr_program cr")
    case (Signalling k)
    with assms(1) have k: "0 < k" "k \<le> length (crew_threads cr)" "cr_actions cr SIGUSR1 = SetShutdown"
        "cr_ticker cr \<noteq> Created" "cr_ticker cr \<noteq> Locking"
      by (auto simp: finishing_def crew_inv_def)
    show ?thesis
    proof (cases "k < length (crew_threads cr)")
      case True
      with k Signalling assms(2) obtain j where j: "k = Suc j" and
        cr': "cr' = cr\<lparr>cr_program := Signalling (Suc k), cr_workers := (cr_workers cr)[j := member_usr1 (cr_workers cr ! j)]\<rparr>"
        by (cases k) (auto simp: program_step_def send_shutdown_def)
      have "worker_rank cr' i \<le> worker_rank cr i" for i
        using member_rank_le Signalling by (auto simp: worker_rank_def cr' j less_Suc_eq)
      then have "(\<Sum>i<length (cr_workers cr). worker_rank cr' i) \<le> (\<Sum>i<length (cr_workers cr). worker_rank cr i)"
        by (simp add: sum_mono)
      with k True Signalling inv' show ?thesis
        by (simp add: finishing_def crew_rank_def cr')
    next
      case False
      with Signalling assms(2) have cr': "cr' = cr\<lparr>cr_program := Joining 0\<rparr>"
        by (auto simp: program_step_def)
      have "worker_rank cr' i \<le> worker_rank cr i" for i
        using member_rank_le by (auto simp: worker_rank_def cr')
      then have "(\<Sum>i<length (cr_workers cr). worker_rank cr' i) \<le> (\<Sum>i<length (cr_workers cr). worker_rank cr i)"
        by (simp add: sum_mono)
      with k False Signalling inv' show ?thesis
        by (simp add: finishing_def crew_rank_def cr')
    qed
  next
    case (Joining k)
    have "worker_rank cr' = worker_rank cr" if "cr' = cr\<lparr>cr_program := Joining (Suc k)\<rparr>"
      using that Joining by (auto simp: worker_rank_def)
    with Joining assms inv' show ?thesis
      by (auto simp: program_step_def finishing_def crew_rank_def kill_threads_def split: if_splits)
  qed (use assms in \<open>auto simp: program_step_def finishing_def\<close>)
qed

lemma ticker_rank_step:
  assumes "finishing cr" "ticker_step lm cr = Some cr'"
  shows "finishing cr' \<and> crew_rank cr' + 1 \<le> crew_rank cr"
proof -
  have inv: "crew_inv cr" "workers_inv cr"
    using assms(1) by (simp_all add: finishing_def)
  have inv': "crew_inv cr'" "workers_inv cr'"
    using ticker_step_inv [OF inv(1), of lm] ticker_workers [OF inv(2) assms(2)] assms(2) by simp_all
  have told: "cr_shutdown cr" "\<not> ticker_holds (cr_ticker cr)" "cr_ticker cr \<noteq> Created" "cr_ticker cr \<noteq> Locking"
    if "cr_ticker cr \<noteq> TickEnded"
    using assms(1) that by (auto simp: finishing_def crew_inv_def split: program_pc.splits)
  consider "cr_ticker cr = TickTesting" | p where "cr_ticker cr = Pausing p" | "cr_ticker cr = Trying"
    using assms(2) told by (cases "cr_ticker cr") (auto simp: ticker_step_def)
  then have frame: "cr_program cr' = cr_program cr \<and> crew_threads cr' = crew_threads cr \<and>
      cr_workers cr' = cr_workers cr \<and> ticker_rank (cr_ticker cr') < ticker_rank (cr_ticker cr) \<and>
      cr_ticker cr' \<noteq> Created \<and> cr_ticker cr' \<noteq> Locking"
    using assms(2) told(1) by cases (auto simp: ticker_step_def)
  then have "worker_rank cr' = worker_rank cr"
    by (auto simp: worker_rank_def)
  with frame assms(1) inv' show ?thesis
    by (auto simp: finishing_def crew_rank_def split: program_pc.splits)
qed

lemma finishing_frame:
  assumes "finishing cr" "same_frame cr cr'" "workers_inv cr'"
  shows "finishing cr'"
proof -
  have "crew_inv cr'"
    using assms(1,2) same_frame_inv by (auto simp: finishing_def)
  with assms show ?thesis
    by (cases "cr_program cr") (simp_all add: finishing_def same_frame_def)
qed

lemma finishing_event:
  assumes "finishing cr" "\<not> is_call e" "crew_event io pf finish_cgi tick call e cr = Some cr'"
  shows "finishing cr' \<and> crew_rank cr' + (if stopping_event e cr then 1 else 0) \<le> crew_rank cr"
proof -
  have inv: "workers_inv cr" using assms(1) by (simp add: finishing_def)
  show ?thesis
  proof (cases e)
    case ProgramStep
    with assms program_rank_step [OF assms(1)] show ?thesis
      by (simp add: crew_event_def stopping_event_def split: if_splits)
  next
    case TickerStep
    with assms ticker_rank_step [OF assms(1)] show ?thesis
      by (simp add: crew_event_def stopping_event_def split: if_splits)
  next
    case TryLockFails
    then have cr': "cr_ticker cr = Trying" "cr' = cr\<lparr>cr_ticker := TickTesting\<rparr>"
      using assms(3) by (auto simp: crew_event_def split: if_splits)
    have "crew_inv cr'" "workers_inv cr'"
      using crew_event_inv [of cr io pf finish_cgi tick call e] workers_inv_event [OF inv assms(3)] assms(1,3)
      by (simp_all add: finishing_def)
    moreover have "worker_rank cr' = worker_rank cr"
      by (auto simp: worker_rank_def cr')
    ultimately show ?thesis
      using assms(1) TryLockFails cr'
      by (auto simp: finishing_def crew_rank_def stopping_event_def split: program_pc.splits)
  next
    case (WorkerStarts j)
    then have starts: "worker_starts (io_log io) pf j cr = Some cr'"
      using assms(3) by (simp add: crew_event_def split: if_splits)
    with worker_starts_rank [OF inv starts] workers_starts_inv [OF inv starts]
      finishing_frame [OF assms(1) worker_frame(1) [OF starts]] WorkerStarts
    show ?thesis
      by (simp add: stopping_event_def)
  next
    case (WorkerEvent j ev)
    then have ev: "worker_event io pf finish_cgi tick call j ev cr = Some cr'"
      using assms(3) by (simp add: crew_event_def split: if_splits)
    with worker_event_rank [OF inv ev] worker_event_inv [OF inv ev]
      finishing_frame [OF assms(1) worker_frame(2) [OF ev]] WorkerEvent
    show ?thesis
      by (simp add: stopping_event_def)
  qed (use assms(2) in simp_all)
qed

lemma finishing_run:
  "finishing cr \<Longrightarrow> \<not> list_ex is_call es \<Longrightarrow> crew_run io pf finish_cgi tick call es cr = Some cr' \<Longrightarrow>
   finishing cr' \<and> stopping_events io pf finish_cgi tick call es cr + crew_rank cr' \<le> crew_rank cr"
proof (induction es arbitrary: cr)
  case (Cons e es)
  then obtain cr1 where step: "crew_event io pf finish_cgi tick call e cr = Some cr1"
    "crew_run io pf finish_cgi tick call es cr1 = Some cr'"
    by (auto split: option.splits)
  have "\<not> is_call e" "\<not> list_ex is_call es"
    using Cons.prems(2) by simp_all
  with finishing_event [OF Cons.prems(1) _ step(1)] Cons.IH [OF _ _ step(2)] step(1) show ?case
    by auto
qed simp

section \<open>What can go on\<close>

text \<open>A worker whose signal came between its test and the accepting call.\<close>

fun missed_signal :: "('u, 'c, 'd, 'r) member \<Rightarrow> bool" where
  "missed_signal (InLoop th) \<longleftrightarrow>
     wk_shutdown (th_worker th) \<and> (case th_phase th of Entering \<Rightarrow> True | Accepting \<Rightarrow> True | _ \<Rightarrow> False)"
| "missed_signal _ = False"

text \<open>The steps a thread makes by itself.\<close>

fun own_step :: "'d crew_event \<Rightarrow> bool" where
  "own_step (WorkerEvent j (AcceptReturns result d)) = False"
| "own_step _ = True"

lemma worker_id: "crew_list ths \<Longrightarrow> Suc j < length ths \<Longrightarrow> \<exists>tid. ths ! Suc j = Worker tid"
proof (cases ths)
  case (Cons th rest)
  assume "crew_list ths" "Suc j < length ths"
  with Cons have "rest ! j \<in> set rest" "Ticker \<notin> set rest"
    by auto
  with Cons show ?thesis
    by (cases "rest ! j") auto
qed simp

lemma member_progress:
  assumes "crew_inv cr" "workers_inv cr" "cr_program cr = Joining (Suc j)" "Suc j < length (crew_threads cr)"
    and "\<not> member_ended (cr_workers cr ! j)" "\<not> missed_signal (cr_workers cr ! j)"
  shows "\<exists>e cr'. stopping_event e cr \<and> own_step e \<and> crew_event io pf finish_cgi tick call e cr = Some cr'"
proof -
  have j: "j < length (cr_workers cr)"
    using assms(2,4) by (auto simp: workers_inv_def)
  show ?thesis
  proof (cases "cr_workers cr ! j")
    case (Unstarted usr1 usr2)
    obtain tid where "crew_threads cr ! Suc j = Worker tid"
      using worker_id [OF _ assms(4)] assms(1) by (auto simp: crew_inv_def)
    with Unstarted j assms(3) show ?thesis
      by (intro exI [of _ "WorkerStarts j"])
        (simp add: stopping_event_def crew_event_def worker_starts_def run_thread_function_def split_beta)
  next
    case (InLoop th)
    have "thread_can th Step"
      using assms(2,5,6) InLoop j signalled_told [OF assms(2) j] assms(3)
      by (cases "th_phase th") (auto simp: thread_can_def workers_inv_def)
    with InLoop j assms(3) show ?thesis
      by (intro exI [of _ "WorkerEvent j Step"])
        (simp add: stopping_event_def crew_event_def worker_event_def split_beta)
  qed (use assms(5) in simp)
qed

lemma finishing_progress:
  assumes "finishing cr" "cr_program cr \<noteq> Idle"
  shows "(\<exists>e cr'. stopping_event e cr \<and> own_step e \<and> crew_event io pf finish_cgi tick call e cr = Some cr') \<or>
    (\<exists>j. cr_program cr = Joining (Suc j) \<and> missed_signal (cr_workers cr ! j))"
proof -
  have program: ?thesis if "program_step (io_log io) cr \<noteq> None" "cr_program cr \<noteq> Terminated"
    using that by (intro disjI1 exI [of _ ProgramStep]) (auto simp: crew_event_def stopping_event_def)
  show ?thesis
  proof (cases "cr_program cr")
    case (Signalling k)
    then show ?thesis by (intro program) (simp_all add: program_step_def)
  next
    case (Joining k)
    show ?thesis
    proof (cases "k < length (crew_threads cr) \<longrightarrow> thread_stopped cr k")
      case True
      with Joining show ?thesis by (intro program) (auto simp: program_step_def)
    next
      case running: False
      show ?thesis
      proof (cases k)
        case 0
        with running Joining assms(1) have "cr_ticker cr \<noteq> TickEnded" "cr_ticker cr \<noteq> Locking"
          by (auto simp: thread_stopped_def finishing_def)
        then have "ticker_step (io_log io) cr \<noteq> None"
          by (cases "cr_ticker cr") (simp_all add: ticker_step_def split_beta Let_def)
        with Joining show ?thesis
          by (intro disjI1 exI [of _ TickerStep]) (auto simp: crew_event_def stopping_event_def)
      next
        case (Suc j)
        with running Joining assms(1) member_progress [of cr j io pf finish_cgi tick call] show ?thesis
          by (auto simp: thread_stopped_def finishing_def)
      qed
    qed
  qed (use assms in \<open>auto simp: finishing_def\<close>)
qed

section \<open>A worker that missed its signal\<close>

definition waits_for :: "nat \<Rightarrow> ('u, 'c, 'd, 'r) crew \<Rightarrow> bool" where
  "waits_for j cr \<longleftrightarrow> crew_inv cr \<and> cr_actions cr SIGUSR1 = SetShutdown \<and> j < length (cr_workers cr) \<and>
    Suc j < length (crew_threads cr) \<and> missed_signal (cr_workers cr ! j) \<and>
    (case cr_program cr of Signalling k \<Rightarrow> Suc j < k | Joining k \<Rightarrow> k \<le> Suc j | _ \<Rightarrow> False)"

lemma missed_not_ended: "missed_signal m \<Longrightarrow> \<not> member_ended m"
  by (cases m) (auto split: phase.splits)

lemma waits_for_program:
  assumes "waits_for j cr" "program_step lm cr = Some cr'"
  shows "waits_for j cr'"
proof -
  have inv: "crew_inv cr'"
    using program_step_inv [of cr lm] assms by (simp add: waits_for_def)
  show ?thesis
  proof (cases "cr_program cr")
    case (Signalling k)
    with assms inv show ?thesis
      by (cases k) (auto simp: waits_for_def program_step_def send_shutdown_def)
  next
    case (Joining k)
    with assms inv show ?thesis
      by (auto simp: waits_for_def program_step_def thread_stopped_def missed_not_ended le_Suc_eq split: if_splits)
  qed (use assms in \<open>auto simp: waits_for_def\<close>)
qed

lemma waits_for_ticker:
  assumes "waits_for j cr" "ticker_step lm cr = Some cr'"
  shows "waits_for j cr'"
proof -
  have inv: "crew_inv cr'"
    using ticker_step_inv [of cr lm] assms by (simp add: waits_for_def)
  have "\<not> ticker_holds (cr_ticker cr)" "cr_lock cr \<noteq> None"
    using assms(1) by (auto simp: waits_for_def crew_inv_def lock_of_def split: program_pc.splits)
  then have "cr_program cr' = cr_program cr" "cr_workers cr' = cr_workers cr" "crew_threads cr' = crew_threads cr"
      "cr_actions cr SIGUSR1 = SetShutdown \<longrightarrow> cr_actions cr' SIGUSR1 = SetShutdown"
    using assms(2)
    by (cases "cr_ticker cr"; auto simp: ticker_step_def install_thread_signal_handlers_def split: if_splits)+
  with assms(1) inv show ?thesis
    by (simp add: waits_for_def)
qed

lemma waits_for_worker:
  assumes "waits_for j cr" "same_frame cr cr'" "cr_workers cr' = (cr_workers cr)[i := m]"
    and "i = j \<Longrightarrow> missed_signal m"
  shows "waits_for j cr'"
proof -
  have "crew_inv cr'"
    using same_frame_inv assms(1,2) by (auto simp: waits_for_def)
  with assms show ?thesis
    by (auto simp: waits_for_def same_frame_def nth_update)
qed

lemma waits_for_event:
  assumes "waits_for j cr" "crew_event io pf finish_cgi tick call e cr = Some cr'"
    and "\<And>result d. e \<noteq> WorkerEvent j (AcceptReturns result d)"
  shows "waits_for j cr'"
proof (cases e)
  case (WorkerStarts i)
  then have starts: "worker_starts (io_log io) pf i cr = Some cr'"
    using assms(2) by (simp add: crew_event_def split: if_splits)
  note frame = worker_frame(1) [OF starts]
  from starts show ?thesis
  proof (cases rule: worker_starts_cases)
    case (1 usr1 usr2 tid m)
    with assms(1) show ?thesis
      by (intro waits_for_worker [OF assms(1) frame]) (auto simp: waits_for_def)
  qed
next
  case (WorkerEvent i ev)
  then have event: "worker_event io pf finish_cgi tick call i ev cr = Some cr'"
    using assms(2) by (simp add: crew_event_def split: if_splits)
  note frame = worker_frame(2) [OF event]
  from event show ?thesis
  proof (cases rule: worker_event_cases)
    case (1 th)
    have "missed_signal (InLoop (fst (run_event io pf finish_cgi tick call ev (th, cr_server cr))))" if "i = j"
    proof -
      have "missed_signal (InLoop th)" "thread_can th ev" "\<And>result d. ev \<noteq> AcceptReturns result d"
        using assms(1,3) 1 that WorkerEvent by (auto simp: waits_for_def)
      then show ?thesis
        by (cases ev; cases "th_phase th") (auto simp: thread_can_def thread_step_def)
    qed
    with 1 show ?thesis
      by (intro waits_for_worker [OF assms(1) frame]) auto
  qed
next
  case TryLockFails
  with assms(2) have "cr_ticker cr = Trying" "cr' = cr\<lparr>cr_ticker := TickTesting\<rparr>"
    by (auto simp: crew_event_def split: if_splits)
  moreover have "crew_inv cr'"
    using crew_event_inv [of cr io pf finish_cgi tick call e] assms(1,2) by (simp add: waits_for_def)
  ultimately show ?thesis
    using assms(1) by (simp add: waits_for_def)
next
  case ProgramStep
  with assms(2) waits_for_program [OF assms(1)] show ?thesis
    by (auto simp: crew_event_def split: if_splits)
next
  case TickerStep
  with assms(2) waits_for_ticker [OF assms(1)] show ?thesis
    by (auto simp: crew_event_def split: if_splits)
qed (use assms in \<open>auto simp: crew_event_def waits_for_def split: if_splits\<close>)

lemma waits_for_run:
  "waits_for j cr \<Longrightarrow> crew_run io pf finish_cgi tick call es cr = Some cr' \<Longrightarrow>
   \<forall>result d. WorkerEvent j (AcceptReturns result d) \<notin> set es \<Longrightarrow> waits_for j cr'"
proof (induction es arbitrary: cr)
  case (Cons e es)
  then obtain cr1 where step: "crew_event io pf finish_cgi tick call e cr = Some cr1"
    "crew_run io pf finish_cgi tick call es cr1 = Some cr'"
    by (auto split: option.splits)
  have "waits_for j cr1"
    using Cons.prems(3) by (intro waits_for_event [OF Cons.prems(1) step(1)]) auto
  with Cons.IH [OF _ step(2)] Cons.prems(3) show ?case
    by simp
qed simp

section \<open>Properties\<close>

text \<open>C15: \<open>kill_threads\<close> returns, unless a worker's signal came in the window before its accepting call:
  once it has signalled a maintenance thread that is past its first lock, at most eight steps
  for each thread of the list are left to the program, the maintenance thread and the workers it
  has signalled.  Whatever the order and whatever the other workers do meanwhile, until the list is empty
  and its lock free one of those steps can be made, by that thread alone, except when the program
  is joining a worker that was signalled and is in its accepting call all the same.\<close>

theorem kill_threads_returns:
  assumes "crew_run io pf finish_cgi tick call es (crew_new srv) = Some cr" "srv_threads srv = []"
    and "cr_program cr = Signalling 1" "cr_ticker cr \<noteq> Created" "cr_ticker cr \<noteq> Locking" "crew_threads cr \<noteq> []"
    and "crew_run io pf finish_cgi tick call es' cr = Some cr'" "\<not> list_ex is_call es'"
  shows "stopping_events io pf finish_cgi tick call es' cr \<le> 8 * length (crew_threads cr) \<and>
    (cr_program cr' = Idle \<and> crew_threads cr' = [] \<and> cr_lock cr' = None \<or>
     (\<exists>e cr''. stopping_event e cr' \<and> own_step e \<and> crew_event io pf finish_cgi tick call e cr' = Some cr'') \<or>
     (\<exists>j. cr_program cr' = Joining (Suc j) \<and> missed_signal (cr_workers cr' ! j)))"
proof -
  have inv: "crew_inv cr" "workers_inv cr"
    using crew_invs_new [OF assms(2,1)] by simp_all
  then have "finishing cr"
    using assms(3-6) by (cases "crew_threads cr") (simp_all add: finishing_def)
  note run = finishing_run [OF this assms(8,7)]
  have "ticker_rank (cr_ticker cr) \<le> 3"
    by (cases "cr_ticker cr") simp_all
  moreover have "(\<Sum>j<length (cr_workers cr). worker_rank cr j) \<le> 6 * (length (crew_threads cr) - 1)"
    using sum_bounded_above [of "{..<length (cr_workers cr)}" "worker_rank cr" 6, OF worker_rank_le] inv(2)
    by (simp add: workers_inv_def mult.commute)
  ultimately have "crew_rank cr \<le> 8 * length (crew_threads cr)"
    using assms(3,6) by (cases "crew_threads cr") (simp_all add: crew_rank_def)
  moreover have "cr_program cr' = Idle \<Longrightarrow> crew_threads cr' = [] \<and> cr_lock cr' = None"
    using run by (auto simp: finishing_def crew_inv_def lock_of_def)
  ultimately show ?thesis
    using run finishing_progress [of cr' io pf finish_cgi tick call] by auto
qed

text \<open>The worker is in its accepting call when its signal comes; the call returns and it ends.\<close>

theorem kill_threads_returns_witness:
  "\<exists>cr cr'. quiet_run
      [CallAdd 1, ProgramStep, ProgramStep, TickerStep, TickerStep, TickerStep, TickerStep, WorkerStarts 0,
       WorkerEvent 0 Step, WorkerEvent 0 Step, CallKill, ProgramStep, ProgramStep] (crew_new quiet_server) = Some cr \<and>
    quiet_run
      [ProgramStep, TickerStep, TickerStep, TickerStep, ProgramStep, WorkerEvent 0 Step, ProgramStep, ProgramStep,
       ProgramStep] cr = Some cr' \<and>
    crew_threads cr' = []"
proof -
  let ?es = "[ProgramStep, TickerStep, TickerStep, TickerStep, ProgramStep, WorkerEvent 0 Step, ProgramStep, ProgramStep,
       ProgramStep] :: mock_cgi crew_event list"
  obtain cr where cr: "quiet_run
      [CallAdd 1, ProgramStep, ProgramStep, TickerStep, TickerStep, TickerStep, TickerStep, WorkerStarts 0,
       WorkerEvent 0 Step, WorkerEvent 0 Step, CallKill, ProgramStep, ProgramStep] (crew_new quiet_server) = Some cr"
      "cr_program cr = Signalling 1" "cr_ticker cr \<noteq> Created" "cr_ticker cr \<noteq> Locking" "crew_threads cr \<noteq> []"
      "\<exists>cr'. quiet_run ?es cr = Some cr' \<and> cr_program cr' = Idle \<and> cr_ticker cr' = TickEnded \<and> cr_workers cr' = []"
    by (simp add: crew_defs worker_tick_def)
  then obtain cr' where cr': "quiet_run ?es cr = Some cr'" "cr_program cr' = Idle" "cr_ticker cr' = TickEnded"
      "cr_workers cr' = []"
    by blast
  have "\<not> own_step e" if "stopping_event e cr'" "crew_event io pf finish_cgi tick call e cr' = Some cr''"
    for e io pf finish_cgi tick call cr''
    using that cr' by (cases e)
      (auto simp: stopping_event_def crew_event_def program_step_def ticker_step_def)
  with cr cr' kill_threads_returns [OF cr(1) _ cr(2-5) cr'(1)] show ?thesis
    by auto
qed

text \<open>C30: A worker that is signalled by \<open>kill_threads\<close> between its test and its accepting call is waited
  for without end: whatever all threads do, \<open>kill_threads\<close> does not come past the end of that
  worker and keeps the lock of the list, as long as no request or error makes that worker's
  accepting call return; the maintenance thread's tick does not reach it any more.\<close>

theorem kill_waits_for_missed_signal:
  assumes "crew_run io pf finish_cgi tick call es (crew_new srv) = Some cr" "srv_threads srv = []"
    and "cr_program cr = Signalling (Suc j)" "Suc j < length (crew_threads cr)"
    and "cr_workers cr ! j = InLoop th" "th_phase th = Entering"
    and "crew_run io pf finish_cgi tick call (ProgramStep # es') cr = Some cr'"
    and "\<forall>result d. WorkerEvent j (AcceptReturns result d) \<notin> set es'"
  shows "cr_lock cr' = Some ByProgram \<and> missed_signal (cr_workers cr' ! j) \<and>
    ((\<exists>k. cr_program cr' = Signalling k) \<or> (\<exists>k \<le> Suc j. cr_program cr' = Joining k))"
proof -
  have inv: "crew_inv cr" "workers_inv cr"
    using crew_invs_new [OF assms(2,1)] by simp_all
  have j: "j < length (cr_workers cr)"
    using inv(2) assms(4) by (auto simp: workers_inv_def)
  then have actions: "cr_actions cr SIGUSR1 = SetShutdown"
    using inv(2) assms(5) by (auto simp: workers_inv_def)
  obtain cr1 where step: "program_step (io_log io) cr = Some cr1"
    and rest: "crew_run io pf finish_cgi tick call es' cr1 = Some cr'"
    using assms(3,7) by (auto simp: crew_event_def split: option.splits)
  have "crew_inv cr1"
    using program_step_inv [OF inv(1), of "io_log io"] step by simp
  then have "waits_for j cr1"
    using step assms(3-6) j actions
    by (auto simp: waits_for_def program_step_def send_shutdown_def thread_signal_def)
  note waits = waits_for_run [OF this rest assms(8)]
  then have "cr_lock cr' = Some ByProgram"
    by (auto simp: waits_for_def crew_inv_def lock_of_def split: program_pc.splits)
  with waits show ?thesis
    by (auto simp: waits_for_def split: program_pc.splits)
qed

theorem kill_waits_for_missed_signal_witness:
  "\<exists>cr cr'. quiet_run
      [CallAdd 1, ProgramStep, ProgramStep, TickerStep, TickerStep, TickerStep, WorkerStarts 0, WorkerEvent 0 Step,
       CallKill, ProgramStep, ProgramStep] (crew_new quiet_server) = Some cr \<and>
    quiet_run [ProgramStep, WorkerEvent 0 Step, ProgramStep, TickerStep, ProgramStep] cr = Some cr' \<and>
    cr_lock cr' = Some ByProgram"
proof -
  let ?es = "[WorkerEvent 0 Step, ProgramStep, TickerStep, ProgramStep] :: mock_cgi crew_event list"
  obtain cr th where cr: "quiet_run
      [CallAdd 1, ProgramStep, ProgramStep, TickerStep, TickerStep, TickerStep, WorkerStarts 0, WorkerEvent 0 Step,
       CallKill, ProgramStep, ProgramStep] (crew_new quiet_server) = Some cr"
      "cr_program cr = Signalling (Suc 0)" "Suc 0 < length (crew_threads cr)"
      "cr_workers cr ! 0 = InLoop th" "th_phase th = Entering" "\<exists>cr'. quiet_run (ProgramStep # ?es) cr = Some cr'"
    by (simp add: crew_defs worker_tick_def)
  then obtain cr' where run: "quiet_run (ProgramStep # ?es) cr = Some cr'"
    by blast
  have "cr_lock cr' = Some ByProgram"
    using kill_waits_for_missed_signal [OF cr(1) _ cr(2-5) run] by simp
  with cr(1) run show ?thesis
    by blast
qed

end
