(* ===== verification/App.thy ===== *)
theory App
  imports Serving Threads
begin

text \<open>
  \<open>main.cpp\<close>: the handler \<open>hello_world\<close>, which shows a request's query and environment as a
  page, and \<open>main\<close>, which starts the server, waits for a signal and shuts it down.
\<close>

section \<open>The page\<close>

definition nl :: string where
  "nl = [CHR 0x0A]"

definition page_head :: "stream_item list" where
  "page_head =
    [Arg (CString (''<!DOCTYPE html>'' @ nl)), Arg (CString (''<html><body>'' @ nl)),
     Arg (CString (''<h1>Hello world!</h1>'' @ nl))]"

definition table_head :: "string \<Rightarrow> stream_item list" where
  "table_head title =
    [Arg (CString title), Arg (CString (''<table>'' @ nl)),
     Arg (CString (''<thead><th>Key</th><th>Value</th></thead>'' @ nl)), Arg (CString (''<tbody>'' @ nl))]"

definition table_row :: "string \<times> string \<Rightarrow> stream_item list" where
  "table_row e =
    [Arg (CString ''<tr><td>''), Content (fst e), Arg (CString ''</td><td>''), Content (snd e),
     Arg (CString (''</td></tr>'' @ nl))]"

definition table_tail :: "stream_item list" where
  "table_tail = [Arg (CString (''</tbody>'' @ nl)), Arg (CString (''</table>'' @ nl))]"

definition query_table :: "query_params \<Rightarrow> stream_item list" where
  "query_table params =
    (if params = [] then []
     else table_head ''<h2>Query</h2>'' @
       concat (map (\<lambda>e. table_row (query_decode (fst e), query_decode (snd e))) params) @ table_tail)"

definition environment_rows :: "(string \<times> string) list \<Rightarrow> stream_item list" where
  "environment_rows env =
    concat (map table_row env) @ table_tail @ [Arg (CString (''</body></html>'' @ nl))]"

text \<open>The handler.  Its content type gives the body's stream the HTML format; on a request whose
  headers are sent already the stream could have no format, which the code does not check.\<close>

definition hello_world ::
  "('c, 'd) request_io \<Rightarrow> ('u, 'c, 'd) request_context \<Rightarrow> (unit, ('u, 'c, 'd) request_context) outcome"
where
  "hello_world io cx =
    (let rq = snd (set_content_type io ''text/html'' (cx_request cx))
     in case write_stream rq of
          None \<Rightarrow> (Inr (), cx\<lparr>cx_request := rq\<rparr>)
        | Some stream \<Rightarrow>
            (let rq = fold (rs_item io stream) page_head rq;
                 (params, rq) = request_query io rq;
                 rq = fold (rs_item io stream) (query_table params @ table_head ''<h2>Environment</h2>'') rq;
                 (env_map, rq) = request_env_map io rq;
                 rq = fold (rs_item io stream)
                   (environment_rows (map (\<lambda>e. (resolve (fst e) (rq_syms rq), snd e)) env_map)) rq
             in (Inr (), cx\<lparr>cx_request := rq\<rparr>)))"

section \<open>The program\<close>

text \<open>The program's router, and what it does until it ends: the exit code, what it told the system,
  and the server at the end.  \<open>wait_for_terminate_signal\<close> only waits; \<open>~Server\<close> finalizes
  once more.\<close>

definition app_routes :: "symtab \<Rightarrow> (unit, unit) sub_route \<times> symtab" where
  "app_routes tab = add_route_callback () ''/'' GET tab sub_route_new"

definition server_destroy :: "('c, 'r, 'u) server \<Rightarrow> server_event list" where
  "server_destroy srv = fst (finalize srv)"

definition main_program ::
  "'c log_message \<Rightarrow> platform \<Rightarrow> symtab \<Rightarrow> 'c \<Rightarrow> int \<times> server_event list \<times> ('c, unit, unit) server"
where
  "main_program lm pf tab console_callback =
    (let srv = set_router lm (Some ()) (server_new (snd (app_routes tab)) console_callback);
         (ok, srv) = server_initialize lm pf ''/tmp/fcgiserver.sock'' srv
     in if \<not> ok then (1, server_destroy srv, srv)
        else
          (let (ok, srv) = add_threads lm 4 srv
           in if \<not> ok then (1, server_destroy srv, srv)
              else
                (let srv = server_log lm Info ''Initiating shutdown...'' srv;
                     (events, srv) = finalize srv;
                     srv = server_log lm Info ''All done!'' srv
                 in (0, events @ server_destroy srv, srv))))"

section \<open>The page as text\<close>

definition escaped :: "string \<Rightarrow> string" where
  "escaped s = out_text (put_string_view GF_HTMLContent s)"

definition row_text :: "string \<times> string \<Rightarrow> string" where
  "row_text e = ''<tr><td>'' @ escaped (fst e) @ ''</td><td>'' @ escaped (snd e) @ ''</td></tr>'' @ nl"

definition table_text :: "string \<Rightarrow> (string \<times> string) list \<Rightarrow> string" where
  "table_text title rows =
    title @ ''<table>'' @ nl @ ''<thead><th>Key</th><th>Value</th></thead>'' @ nl @ ''<tbody>'' @ nl @
    concat (map row_text rows) @ ''</tbody>'' @ nl @ ''</table>'' @ nl"

definition page_text :: "query_params \<Rightarrow> (string \<times> string) list \<Rightarrow> string" where
  "page_text params env =
    ''<!DOCTYPE html>'' @ nl @ ''<html><body>'' @ nl @ ''<h1>Hello world!</h1>'' @ nl @
    (if params = [] then ''''
     else table_text ''<h2>Query</h2>'' (map (\<lambda>e. (query_decode (fst e), query_decode (snd e))) params)) @
    table_text ''<h2>Environment</h2>'' env @ ''</body></html>'' @ nl"

text \<open>ASCII text without ampersands is the same in the HTML format.\<close>

lemma put_html_plain:
  assumes "\<forall>c\<in>set s. char_byte c \<noteq> 0 \<and> char_byte c < 0x80 \<and> c \<noteq> CHR ''&''"
  shows "out_text (put_string_view GF_HTML s) = s"
proof -
  let ?g = "\<lambda>c. ucast (char_byte c) :: u32"
  have small: "\<forall>g\<in>set (map ?g s). 0 < g \<and> g < 0x110000"
    using assms plain_char by (auto simp: word_gt_0)
  have bytes: "\<forall>c\<in>set s. utf32_to_8 (?g c) = [char_byte c]"
    using assms plain_char(1) by auto
  have "glyph32_text GF_HTML (?g c) = [c]" if "c \<in> set s" for c
  proof -
    have "c \<noteq> CHR ''&''" and g: "?g c < 0x80"
      using assms that plain_char(4) by auto
    moreover have "byte_char (ucast (?g c AND 0xff)) = c"
      using bytes that utf32_to_8_ascii [OF g] by (metis byte_char_char_byte list.inject)
    ultimately show ?thesis
      by (simp add: glyph32_text_def glyph_text_def)
  qed
  then have "concat (map (glyph32_text GF_HTML) (map ?g s)) = s"
    by (induction s) simp_all
  moreover have "utf8_encode (map ?g s) = s"
    using bytes by (induction s) simp_all
  ultimately show ?thesis
    using put_utf8_valid [OF small, of GF_HTML] by simp
qed

lemma template_text:
  assumes "\<forall>c\<in>set s. char_byte c \<noteq> 0 \<and> char_byte c < 0x80 \<and> c \<noteq> CHR ''&''"
  shows "item_text tab GF_HTML (Arg (CString s)) = s"
proof -
  have "c \<noteq> CHR 0x00" if "c \<in> set s" for c
  proof
    assume "c = CHR 0x00"
    then have "char_byte c = 0" by (simp add: char_byte_def)
    with assms that show False by blast
  qed
  then have "c_string s = s"
    unfolding c_string_def by (simp add: takeWhile_eq_all_conv)
  with put_html_plain [OF assms] show ?thesis
    by (simp add: put_c_string_def)
qed

lemma content_text: "item_text tab GF_HTML (Content s) = escaped s"
  by (simp add: escaped_def)

lemma row_items: "concat (map (item_text tab GF_HTML) (table_row e)) = row_text e"
  by (simp add: table_row_def row_text_def template_text content_text nl_def char_byte_def
      del: item_text.simps)

lemma rows_items:
  "concat (map (item_text tab GF_HTML) (concat (map table_row rows))) = concat (map row_text rows)"
  by (induction rows) (simp_all add: row_items del: item_text.simps)

lemma table_head_items:
  assumes "\<forall>c\<in>set title. char_byte c \<noteq> 0 \<and> char_byte c < 0x80 \<and> c \<noteq> CHR ''&''"
  shows "concat (map (item_text tab GF_HTML) (table_head title)) =
    title @ ''<table>'' @ nl @ ''<thead><th>Key</th><th>Value</th></thead>'' @ nl @ ''<tbody>'' @ nl"
  by (simp add: table_head_def template_text template_text [OF assms] nl_def char_byte_def
      del: item_text.simps)

lemma table_tail_items:
  "concat (map (item_text tab GF_HTML) table_tail) = ''</tbody>'' @ nl @ ''</table>'' @ nl"
  by (simp add: table_tail_def template_text nl_def char_byte_def del: item_text.simps)

section \<open>The handler's output\<close>

text \<open>The first thing inserted sends the headers.\<close>

lemma write_sends: "request_write io s rq = request_write io s (send_headers io rq)"
  by (simp add: request_write_def Let_def split_beta) (simp add: send_headers_def Let_def)

lemma first_item_sends:
  assumes "rs_channel rs = WriteChannel" "s \<noteq> ''''" "out_text (put_c_string (rs_format rs) s) = s"
  shows "rs_item io rs (Arg (CString s)) rq = rs_item io rs (Arg (CString s)) (send_headers io rq)"
proof -
  obtain t ts where "fst (put_c_string (rs_format rs) s) = t # ts"
    using assms(2,3) by (cases "fst (put_c_string (rs_format rs) s)") auto
  then show ?thesis
    using write_sends [of io t rq] by (simp add: rs_put_def assms(1) rs_real_append_def)
qed

lemma page_items:
  "concat (map (item_text tab GF_HTML) page_head) =
    ''<!DOCTYPE html>'' @ nl @ ''<html><body>'' @ nl @ ''<h1>Hello world!</h1>'' @ nl"
  "concat (map (item_text tab GF_HTML) (query_table params)) =
    (if params = [] then ''''
     else table_text ''<h2>Query</h2>'' (map (\<lambda>e. (query_decode (fst e), query_decode (snd e))) params))"
  "concat (map (item_text tab GF_HTML) (table_head ''<h2>Environment</h2>'')) =
    ''<h2>Environment</h2>'' @ ''<table>'' @ nl @ ''<thead><th>Key</th><th>Value</th></thead>'' @ nl @
    ''<tbody>'' @ nl"
  "concat (map (item_text tab GF_HTML) (environment_rows env)) =
    concat (map row_text env) @ ''</tbody>'' @ nl @ ''</table>'' @ nl @ ''</body></html>'' @ nl"
proof -
  show "concat (map (item_text tab GF_HTML) page_head) =
      ''<!DOCTYPE html>'' @ nl @ ''<html><body>'' @ nl @ ''<h1>Hello world!</h1>'' @ nl"
    by (simp add: page_head_def template_text nl_def char_byte_def del: item_text.simps)
  have rows: "concat (map (\<lambda>e. table_row (query_decode (fst e), query_decode (snd e))) params) =
      concat (map table_row (map (\<lambda>e. (query_decode (fst e), query_decode (snd e))) params))"
    by (simp add: o_def)
  have title: "\<forall>c\<in>set t. char_byte c \<noteq> 0 \<and> char_byte c < 0x80 \<and> c \<noteq> CHR ''&''"
    if "t = ''<h2>Query</h2>'' \<or> t = ''<h2>Environment</h2>''" for t
    using that by (elim disjE; hypsubst) (simp_all add: char_byte_def)
  show "concat (map (item_text tab GF_HTML) (query_table params)) =
    (if params = [] then ''''
     else table_text ''<h2>Query</h2>'' (map (\<lambda>e. (query_decode (fst e), query_decode (snd e))) params))"
    unfolding query_table_def rows
    by (cases "params = []")
      (simp_all only: map_append concat_append rows_items table_head_items [OF title] table_tail_items
        table_text_def append_assoc list.map concat.simps simp_thms if_True if_False)
  show "concat (map (item_text tab GF_HTML) (table_head ''<h2>Environment</h2>'')) =
    ''<h2>Environment</h2>'' @ ''<table>'' @ nl @ ''<thead><th>Key</th><th>Value</th></thead>'' @ nl @
    ''<tbody>'' @ nl"
    by (rule table_head_items [OF title]) simp
  have "item_text tab GF_HTML (Arg (CString (''</body></html>'' @ nl))) = ''</body></html>'' @ nl"
    by (rule template_text) (simp add: char_byte_def nl_def)
  then show "concat (map (item_text tab GF_HTML) (environment_rows env)) =
    concat (map row_text env) @ ''</tbody>'' @ nl @ ''</table>'' @ nl @ ''</body></html>'' @ nl"
    unfolding environment_rows_def
    by (simp only: map_append concat_append rows_items table_tail_items append_assoc list.map concat.simps
        append_Nil2)
qed

text \<open>Output leaves what has been read alone.\<close>

definition same_input :: "('c, mock_cgi) request \<Rightarrow> ('c, mock_cgi) request \<Rightarrow> bool" where
  "same_input rq rq' \<longleftrightarrow> rq_syms rq' = rq_syms rq \<and> rq_env_map rq' = rq_env_map rq \<and>
     rq_query_parsed rq' = rq_query_parsed rq \<and> rq_query rq' = rq_query rq \<and>
     m_envp (rq_cgi rq') = m_envp (rq_cgi rq)"

lemma same_input_refl [simp]: "same_input rq rq"
  by (simp add: same_input_def)

lemma same_input_trans: "same_input a b \<Longrightarrow> same_input b c \<Longrightarrow> same_input a c"
  by (simp add: same_input_def)

lemma same_input_fold: "(\<And>x rq. same_input rq (f x rq)) \<Longrightarrow> same_input rq (fold f xs rq)"
  by (induction xs arbitrary: rq) (auto intro: same_input_trans)

lemma write_same_input:
  "same_input rq (send_headers (mock_io lm order) rq)"
  "same_input rq (snd (request_write (mock_io lm order) s rq))"
proof -
  have one: "m_envp (snd (cgi_write mock_ops s d)) = m_envp d" for s d
    by (simp add: mock_ops_def mock_write_def)
  then have "m_envp (write_all mock_ops ss d) = m_envp d" for ss d
    by (induction ss arbitrary: d) (simp_all add: write_all_def)
  then have send: "same_input rq (send_headers (mock_io lm order) rq)" for rq
    by (simp add: same_input_def send_headers_def mock_io_def Let_def)
  with one send [of rq] show "same_input rq (snd (request_write (mock_io lm order) s rq))"
    by (simp add: request_write_def Let_def split_beta same_input_def) (simp add: mock_io_def)
  show "same_input rq (send_headers (mock_io lm order) rq)"
    by (rule send)
qed

lemma item_same_input:
  assumes "rs_channel rs = WriteChannel"
  shows "same_input rq (rs_item (mock_io lm order) rs i rq)"
proof -
  have "same_input rq (rs_real_append (mock_io lm order) WriteChannel s rq)" for s rq
    by (simp add: rs_real_append_def write_same_input)
  then have "same_input rq (fold (rs_real_append (mock_io lm order) WriteChannel) ts rq)" for ts rq
    by (rule same_input_fold)
  then show ?thesis
    using assms by (cases i) (simp_all add: rs_put_def rs_put_html_def)
qed

lemma items_same_input:
  "rs_channel rs = WriteChannel \<Longrightarrow> same_input rq (fold (rs_item (mock_io lm order) rs) is rq)"
  by (rule same_input_fold) (rule item_same_input)

lemma same_input_env:
  "same_input rq rq' \<Longrightarrow> env_inv (m_envp (rq_cgi rq')) rq' = env_inv (m_envp (rq_cgi rq)) rq"
  by (simp add: same_input_def env_inv_def)

text \<open>The query and the environment, read in between.\<close>

lemma mock_io_env: "cgi_env (io_cgi (mock_io lm order)) d = m_envp d"
  by (simp add: mock_io_def mock_ops_def)

lemma query_read:
  assumes "env_inv (m_envp (rq_cgi rq)) rq" "\<not> rq_query_parsed rq" "rq_query rq = []"
    and "request_query (mock_io lm order) rq = (params, rq')"
  shows "params = parse_query (env_value (m_envp (rq_cgi rq)) ''QUERY_STRING'')"
    and "env_inv (m_envp (rq_cgi rq')) rq'" "rq_cgi rq' = rq_cgi rq" "rq_headers_sent rq' = rq_headers_sent rq"
      "rq_headers rq' = rq_headers rq"
proof -
  have ok: "symtab_ok (rq_syms rq)"
    using assms(1) by (simp add: env_inv_def)
  obtain v rq1 where e: "request_env (mock_io lm order) sym_QUERY_STRING rq = (v, rq1)"
    by fastforce
  note spec = request_env_spec [of "mock_io lm order" rq, unfolded mock_io_env,
      OF assms(1) builtin_symbols(10) [OF ok] e]
  then have v: "v = env_value (m_envp (rq_cgi rq)) ''QUERY_STRING''" and rq1: "rq_query rq1 = []"
    "rq_cgi rq1 = rq_cgi rq" "rq_headers_sent rq1 = rq_headers_sent rq" "rq_headers rq1 = rq_headers rq"
    using assms(3) builtin_symbols [OF ok] by auto
  have rq': "rq' = rq1\<lparr>rq_query := params, rq_query_parsed := True\<rparr>"
    and params: "params = parse_query v"
    using assms(2,4) e rq1(1) by (auto simp: request_query_def query_string_def parse_query_def Let_def)
  show "params = parse_query (env_value (m_envp (rq_cgi rq)) ''QUERY_STRING'')"
    using params v by simp
  show "env_inv (m_envp (rq_cgi rq')) rq'" "rq_cgi rq' = rq_cgi rq" "rq_headers_sent rq' = rq_headers_sent rq"
    "rq_headers rq' = rq_headers rq"
    using spec rq1 by (simp_all add: rq' env_inv_def)
qed

lemma env_read:
  assumes "env_inv (m_envp (rq_cgi rq)) rq" "request_env_map (mock_io lm order) rq = (env, rq')"
  shows "map_of (env_names (rq_syms rq') env) = map_of (env_bindings (m_envp (rq_cgi rq)))"
    and "rq_cgi rq' = rq_cgi rq" "rq_headers_sent rq' = rq_headers_sent rq" "rq_headers rq' = rq_headers rq"
proof -
  note spec = request_env_map_spec [of "mock_io lm order" rq, unfolded mock_io_env, OF assms]
  then show "map_of (env_names (rq_syms rq') env) = map_of (env_bindings (m_envp (rq_cgi rq)))"
    by blast
  obtain tab where "rq' = rq\<lparr>rq_env_map := env, rq_syms := tab\<rparr>"
    using spec by blast
  then show "rq_cgi rq' = rq_cgi rq" "rq_headers_sent rq' = rq_headers_sent rq" "rq_headers rq' = rq_headers rq"
    by simp_all
qed

lemma items_sent:
  "rq_headers_sent rq \<Longrightarrow> rs_channel rs = WriteChannel \<Longrightarrow>
   rq_headers_sent (fold (rs_item (mock_io lm order) rs) is rq)"
  by (induction "is" arbitrary: rq) (simp_all add: stream_item(2))

lemma item_headers:
  fixes rq :: "('c, mock_cgi) request"
  assumes "rq_headers_sent rq" "rs_channel rs = WriteChannel"
  shows "rq_headers (rs_item (mock_io lm order) rs i rq) = rq_headers rq"
proof -
  have one: "rq_headers (rs_real_append (mock_io lm order) WriteChannel s rq) = rq_headers rq \<and>
      rq_headers_sent (rs_real_append (mock_io lm order) WriteChannel s rq)"
    if "rq_headers_sent rq" for s and rq :: "('c, mock_cgi) request"
    using that by (simp add: rs_real_append_def request_write_def send_headers_def Let_def split_beta)
  have "rq_headers (fold (rs_real_append (mock_io lm order) WriteChannel) ts rq) = rq_headers rq \<and>
      rq_headers_sent (fold (rs_real_append (mock_io lm order) WriteChannel) ts rq)"
    if "rq_headers_sent rq" for ts and rq :: "('c, mock_cgi) request"
    using that by (induction ts arbitrary: rq) (simp_all add: one)
  then show ?thesis
    using assms by (cases i) (simp_all add: rs_put_def rs_put_html_def)
qed

lemma items_headers:
  "rq_headers_sent rq \<Longrightarrow> rs_channel rs = WriteChannel \<Longrightarrow>
   rq_headers (fold (rs_item (mock_io lm order) rs) is rq) = rq_headers rq"
  by (induction "is" arbitrary: rq) (simp_all add: stream_item(2) item_headers)

lemma escaped_no_markup: "{CHR ''<'', CHR ''>''} \<inter> set (escaped s) = {}"
  using glyph_text_no_markup
  by (auto simp: escaped_def put_string_view_text simp del: glyph_text_def)

section \<open>The whole output\<close>

lemma hello_output:
  assumes "\<not> rq_headers_sent (cx_request cx)" "\<not> rq_query_parsed (cx_request cx)"
    and "rq_query (cx_request cx) = []"
    and "env_inv (m_envp (rq_cgi (cx_request cx))) (cx_request cx)"
  shows "\<exists>rq' env. hello_world (mock_io lm order) cx = (Inr (), cx\<lparr>cx_request := rq'\<rparr>) \<and>
    map_of env = map_of (env_bindings (m_envp (rq_cgi (cx_request cx)))) \<and>
    m_writebuf (rq_cgi rq') =
      m_writebuf (rq_cgi (send_headers (mock_io lm order)
        (snd (set_content_type (mock_io lm order) ''text/html'' (cx_request cx))))) @
      page_text (parse_query (env_value (m_envp (rq_cgi (cx_request cx))) ''QUERY_STRING'')) env \<and>
    rq_headers_sent rq' \<and>
    rq_headers rq' = rq_headers (send_headers (mock_io lm order)
      (snd (set_content_type (mock_io lm order) ''text/html'' (cx_request cx))))"
proof -
  let ?io = "mock_io lm order" and ?rq = "cx_request cx"
  let ?typed = "snd (set_content_type ?io ''text/html'' ?rq)"
  let ?rs = "\<lparr>rs_format = GF_HTML, rs_channel = WriteChannel\<rparr>"
  let ?h = "send_headers ?io ?typed"
  let ?rq1 = "fold (rs_item ?io ?rs) page_head ?h"
  obtain params rq2 where query: "request_query ?io ?rq1 = (params, rq2)" by fastforce
  let ?rq3 = "fold (rs_item ?io ?rs) (query_table params @ table_head ''<h2>Environment</h2>'') rq2"
  obtain env rq4 where env: "request_env_map ?io ?rq3 = (env, rq4)" by fastforce
  let ?rows = "map (\<lambda>e. (resolve (fst e) (rq_syms rq4), snd e)) env"
  let ?rq5 = "fold (rs_item ?io ?rs) (environment_rows ?rows) rq4"
  have stream: "write_stream ?typed = Some ?rs"
    using assms(1) by (simp add: set_content_type_def set_content_type_encoding_def set_header_def
        detect_encoding_def write_stream_def)
  have "fold (rs_item ?io ?rs) page_head ?typed = ?rq1"
  proof -
    have "item_text tab GF_HTML (Arg (CString (''<!DOCTYPE html>'' @ nl))) = ''<!DOCTYPE html>'' @ nl" for tab
      by (rule template_text) (simp add: char_byte_def nl_def)
    then have "rs_item ?io ?rs (Arg (CString (''<!DOCTYPE html>'' @ nl))) ?typed =
        rs_item ?io ?rs (Arg (CString (''<!DOCTYPE html>'' @ nl))) ?h"
      by (intro first_item_sends) simp_all
    then show ?thesis
      by (simp add: page_head_def)
  qed
  then have run: "hello_world ?io cx = (Inr (), cx\<lparr>cx_request := ?rq5\<rparr>)"
    by (simp add: hello_world_def Let_def stream query env del: fold_append)
  have "same_input ?rq ?typed"
    using assms(1) by (simp add: set_content_type_def set_content_type_encoding_def set_header_def
        same_input_def)
  then have same1: "same_input ?rq ?rq1"
    by (meson same_input_trans write_same_input(1) items_same_input request_stream.select_convs(2))
  have inv1: "env_inv (m_envp (rq_cgi ?rq1)) ?rq1"
    unfolding same_input_env [OF same1] by (rule assms(4))
  have inv1': "\<not> rq_query_parsed ?rq1" "rq_query ?rq1 = []" "m_envp (rq_cgi ?rq1) = m_envp (rq_cgi ?rq)"
    using same1 assms(2,3) unfolding same_input_def by metis+
  note envp1 = inv1'(3)
  note q = query_read [OF inv1 inv1'(1,2) query]
  have in3: "same_input rq2 ?rq3"
    by (rule items_same_input) simp
  have inv3: "env_inv (m_envp (rq_cgi ?rq3)) ?rq3"
    unfolding same_input_env [OF in3] by (rule q(2))
  note e = env_read [OF inv3 env]
  have sent: "rq_headers_sent ?h" "rq_headers_sent ?rq1"
    by (simp_all add: send_flags items_sent)
  then have sent2: "rq_headers_sent rq2" "rq_headers_sent ?rq3" "rq_headers_sent rq4"
    using q(4) e(3) by (simp_all add: items_sent del: fold_append)
  have "m_writebuf (rq_cgi ?rq5) = m_writebuf (rq_cgi ?h) @ page_text params ?rows"
    using stream_items [OF sent(1), of ?rs lm order page_head]
      stream_items [OF sent2(1), of ?rs lm order "query_table params @ table_head ''<h2>Environment</h2>''"]
      stream_items [OF sent2(3), of ?rs lm order "environment_rows ?rows"] q(3) e(2)
    by (simp only: request_stream.select_convs simp_thms map_append concat_append page_items
        page_text_def table_text_def append_assoc)
  moreover have "map_of ?rows = map_of (env_bindings (m_envp (rq_cgi ?rq)))"
    using e(1) in3 q(3) envp1 by (simp add: env_names_def same_input_def)
  moreover have "rq_headers_sent ?rq5 \<and> rq_headers ?rq5 = rq_headers ?h"
    using sent sent2 q(5) e(4) by (simp add: items_sent items_headers del: fold_append)
  ultimately show ?thesis
    using run q(1) envp1 by auto
qed

section \<open>The run of the program\<close>

definition main_ready :: "platform \<Rightarrow> bool" where
  "main_ready pf \<longleftrightarrow> FCGX_Init pf = 0 \<and>
     (if FCGX_IsCGI pf then FCGX_OpenSocket pf ''/tmp/fcgiserver.sock'' \<noteq> -1 else True)"

fun is_kill :: "server_event \<Rightarrow> bool" where
  "is_kill (Kill t) = True"
| "is_kill _ = False"

fun is_join :: "server_event \<Rightarrow> bool" where
  "is_join (Join t) = True"
| "is_join _ = False"

section \<open>Properties\<close>

text \<open>The page of \<open>hello_world\<close> behind the header block: its fixed tags, the decoded query
  parameters in their order, and the environment as the first lines of each name give it; what
  comes from the client is escaped, so that no parameter or header can add a tag.\<close>

theorem hello_page:
  assumes "\<not> rq_headers_sent (cx_request cx)" "\<not> rq_query_parsed (cx_request cx)"
    and "rq_query (cx_request cx) = []"
    and "env_inv (m_envp (rq_cgi (cx_request cx))) (cx_request cx)"
  shows "\<exists>cx' env. hello_world (mock_io lm order) cx = (Inr (), cx') \<and>
    map_of env = map_of (env_bindings (m_envp (rq_cgi (cx_request cx)))) \<and>
    m_writebuf (rq_cgi (cx_request cx')) =
      m_writebuf (rq_cgi (send_headers (mock_io lm order)
        (snd (set_content_type (mock_io lm order) ''text/html'' (cx_request cx))))) @
      page_text (parse_query (env_value (m_envp (rq_cgi (cx_request cx))) ''QUERY_STRING'')) env \<and>
    (\<forall>s. {CHR ''<'', CHR ''>''} \<inter> set (escaped s) = {})"
  using hello_output [OF assms, of lm order] escaped_no_markup by (elim exE) (auto intro!: exI)

theorem hello_page_witness:
  "\<exists>cx' env. hello_world (mock_io mock_log_message rev)
      (context_of_request (sample_request [''QUERY_STRING=a=%3Cb%3E'']) ::
        (unit, mock_logger, mock_cgi) request_context) = (Inr (), cx') \<and>
    map_of env ''QUERY_STRING'' = Some ''a=%3Cb%3E''"
proof -
  let ?envp = "[''QUERY_STRING=a=%3Cb%3E'']"
  let ?cx = "context_of_request (sample_request ?envp) :: (unit, mock_logger, mock_cgi) request_context"
  have rq: "cx_request ?cx = sample_request ?envp"
    by (simp add: context_of_request_def set_request_def request_context.defs context_new_def
        context_base.defs)
  have envp: "m_envp (rq_cgi (sample_request ?envp)) = ?envp"
    by (simp add: sample_request_def request_new_def mock_cgi_new_def)
  have "env_inv ?envp (sample_request ?envp)"
    using sample_env_inv [of ?envp] unfolding sample_env by simp
  moreover have "\<not> rq_headers_sent (sample_request ?envp)" "\<not> rq_query_parsed (sample_request ?envp)"
    "rq_query (sample_request ?envp) = []"
    by (simp_all add: sample_request_def request_new_def)
  moreover have "map_of (env_bindings ?envp) ''QUERY_STRING'' = Some ''a=%3Cb%3E''"
    by (simp add: env_bindings_def before_split_takeWhile after_split_dropWhile)
  ultimately show ?thesis
    using hello_page [of ?cx mock_log_message rev] unfolding rq envp by metis
qed

text \<open>C32: The program fails exactly when the server cannot be initialized.  Either way every thread it
  started has been told to stop and has been waited for, the four workers and the maintenance
  thread, and the socket it opened is closed and removed once although the server is finalized
  twice.\<close>

theorem main_program_ends:
  "case main_program lm pf tab cb of (code, events, srv) \<Rightarrow>
     code = (if main_ready pf then 0 else 1) \<and> srv_threads srv = [] \<and>
     filter is_kill events = map Kill (if main_ready pf then Ticker # map Worker [1, 2, 3, 4] else []) \<and>
     filter is_join events = map Join (if main_ready pf then Ticker # map Worker [1, 2, 3, 4] else []) \<and>
     filter is_socket_event events =
       (if main_ready pf \<and> FCGX_IsCGI pf \<and> FCGX_OpenSocket pf ''/tmp/fcgiserver.sock'' \<noteq> 0
        then [CloseSocket (FCGX_OpenSocket pf ''/tmp/fcgiserver.sock''), Unlink ''/tmp/fcgiserver.sock'']
        else [])"
proof -
  have four: "srv_last_thread_id s = 0 \<Longrightarrow> emplace_workers 4 s = s\<lparr>srv_last_thread_id := 4,
      srv_threads := srv_threads s @ map Worker [1, 2, 3, 4]\<rparr>" for s :: "('a, unit, unit) server"
    by (simp add: numeral_eq_Suc)
  show ?thesis
    by (cases "FCGX_Init pf = 0"; cases "FCGX_IsCGI pf"; cases "FCGX_OpenSocket pf ''/tmp/fcgiserver.sock'' = -1")
      (simp_all add: main_program_def main_ready_def Let_def server_initialize_def set_router_def
        server_new_def add_threads_def four finalize_def kill_threads_def server_destroy_def
        server_log_def server_log_line_def)
qed

end
