(* ===== verification/Example.thy ===== *)
theory Example
  imports App
begin

text \<open>
  The example program from the accepted request to the response: a worker of \<open>Server\<close> asks the
  program's router, \<open>Routing\<close>, for the handler of \<open>App\<close>, and finishes what the router left open.
\<close>

section \<open>The program's router\<close>

lemma app_routes_tree: "app_routes tab = (SubRoute [] None [(GET, ())], tab)"
  by (simp add: app_routes_def add_route_callback_def sub_route_new_def find_route_start_dropWhile
      route_update.simps)

definition app_call ::
  "('c, 'd) request_io \<Rightarrow> unit \<Rightarrow> ('u, 'c, 'd) request_context \<Rightarrow>
   (RouteResult, ('u, 'c, 'd) request_context) outcome" where
  "app_call io =
    call_irouter io (\<lambda>f. hello_world io) (\<lambda>r. RouterObject (fst (app_routes boot_table))) 1"

lemma app_call_cases:
  assumes "on_request (relative_route io) cx = (route, cx1)" "on_request (request_method io) cx1 = (m, cx2)"
  shows "app_call io () cx =
    (if route \<noteq> [] then (Inr NotFound, cx1)
     else if m = GET then call_endpoint (\<lambda>f. hello_world io) () cx2 else (Inr InvalidMethod, cx2))"
proof -
  let ?root = "SubRoute [] None [(GET, ())] :: (unit, unit) sub_route"
  have "find_endpoint k ?root = (if k = GET then Some () else None)" for k
    by (simp add: find_endpoint_def meth.find_Cons meth.find_Nil)
  moreover have "next_subroute tab c ?root = None" for tab c
    by (simp add: next_subroute_def maybe_get_component_def maybe_get_subroute_def split: option.split)
  ultimately show ?thesis
    using assms
    by (cases route)
      (simp_all add: app_call_def app_routes_tree handle_request_def visit_router_def route_walk.simps
        has_catch_all_recursive_def select_endpoint_def fall_back_def)
qed

section \<open>What the router reads\<close>

lemma set_request_get: "cx_request (set_request rq base) = rq"
  by (simp add: set_request_def context_base.defs)

lemma route_read:
  assumes "env_inv (m_envp (rq_cgi rq)) rq" "\<not> rq_route_parsed rq" "rq_route rq = []"
    and "relative_route (mock_io lm order) rq = (route, rq')"
  shows "route = parse_route (env_value (m_envp (rq_cgi rq)) ''DOCUMENT_URI'')"
    and "env_inv (m_envp (rq_cgi rq)) rq'" "only_env rq rq'"
    and "rq_query_parsed rq' = rq_query_parsed rq" "rq_query rq' = rq_query rq"
proof -
  have ok: "symtab_ok (rq_syms rq)"
    using assms(1) by (simp add: env_inv_def)
  obtain v rq1 where e: "request_env (mock_io lm order) sym_DOCUMENT_URI rq = (v, rq1)"
    by fastforce
  note spec = request_env_spec [of "mock_io lm order" rq, unfolded mock_io_env,
      OF assms(1) builtin_symbols(12) [OF ok] e]
  then obtain env tab where rq1: "rq1 = rq\<lparr>rq_env_map := env, rq_syms := tab\<rparr>"
    by blast
  have rq': "rq' = rq1\<lparr>rq_route := route, rq_route_parsed := True, rq_relative_route := route\<rparr>"
    and route: "route = route_loop v []"
    using assms(2-4) e by (auto simp: relative_route_def full_route_def document_uri_def Let_def rq1)
  show "route = parse_route (env_value (m_envp (rq_cgi rq)) ''DOCUMENT_URI'')"
    using spec route builtin_symbols [OF ok] by (simp add: parse_route_def)
  show "env_inv (m_envp (rq_cgi rq)) rq'" "only_env rq rq'"
    "rq_query_parsed rq' = rq_query_parsed rq" "rq_query rq' = rq_query rq"
    using conjunct1 [OF conjunct2 [OF spec]] conjunct1 [OF conjunct2 [OF conjunct2 [OF spec]]]
    by (auto simp: rq' rq1 env_inv_def only_env_def split: if_splits)
qed

lemma method_read:
  assumes "env_inv (m_envp (rq_cgi rq)) rq" "request_method (mock_io lm order) rq = (m, rq')"
  shows "m = method_of (env_value (m_envp (rq_cgi rq)) ''REQUEST_METHOD'')"
    and "env_inv (m_envp (rq_cgi rq)) rq'" "only_env rq rq'"
    and "rq_query_parsed rq' = rq_query_parsed rq" "rq_query rq' = rq_query rq"
proof -
  have ok: "symtab_ok (rq_syms rq)"
    using assms(1) by (simp add: env_inv_def)
  show "m = method_of (env_value (m_envp (rq_cgi rq)) ''REQUEST_METHOD'')"
    using request_method_value [of "mock_io lm order" rq, unfolded mock_io_env, OF assms(1)] assms(2) by simp
  obtain v rq1 where e: "request_env (mock_io lm order) sym_REQUEST_METHOD rq = (v, rq1)"
    by fastforce
  note spec = request_env_spec [of "mock_io lm order" rq, unfolded mock_io_env,
      OF assms(1) builtin_symbols(8) [OF ok] e]
  have "rq' = rq1"
    using assms(2) e by (auto simp: request_method_def request_method_string_def)
  with spec show "env_inv (m_envp (rq_cgi rq)) rq'" "only_env rq rq'"
    "rq_query_parsed rq' = rq_query_parsed rq" "rq_query rq' = rq_query rq"
    by (auto simp: only_env_def)
qed

text \<open>The router's answer to a request that has just been accepted.\<close>

lemma app_call_fresh:
  fixes envp :: "string list"
  defines "path \<equiv> parse_route (env_value envp ''DOCUMENT_URI'')"
  assumes "symtab_ok tab" "length (env_bindings envp) \<le> st_room tab"
  shows "\<exists>rq. only_env (request_new tab (mock_cgi_new input envp) lg) rq \<and> env_inv envp rq \<and>
    \<not> rq_query_parsed rq \<and> rq_query rq = [] \<and>
    app_call (mock_io lm order) () (set_request (request_new tab (mock_cgi_new input envp) lg) base) =
      (if path \<noteq> [] then (Inr NotFound, set_request rq base)
       else if method_of (env_value envp ''REQUEST_METHOD'') = GET
       then call_endpoint (\<lambda>f. hello_world (mock_io lm order)) () (set_request rq base)
       else (Inr InvalidMethod, set_request rq base))"
proof -
  let ?io = "mock_io lm order" and ?rq = "request_new tab (mock_cgi_new input envp) lg"
  have new: "m_envp (rq_cgi ?rq) = envp" "\<not> rq_route_parsed ?rq" "rq_route ?rq = []"
      "\<not> rq_query_parsed ?rq" "rq_query ?rq = []"
    by (simp_all add: request_new_def mock_cgi_new_def)
  have inv: "env_inv (m_envp (rq_cgi ?rq)) ?rq"
    using assms by (simp add: env_inv_def new) (simp add: request_new_def)
  obtain route rq1 where r: "relative_route ?io ?rq = (route, rq1)" by fastforce
  note route = route_read [OF inv new(2,3) r]
  then have envp1: "m_envp (rq_cgi rq1) = envp" and inv1: "env_inv (m_envp (rq_cgi rq1)) rq1"
    using new(1) by (simp_all add: only_env_def)
  obtain m rq2 where mr: "request_method ?io rq1 = (m, rq2)" by fastforce
  note meth = method_read [OF inv1 mr]
  have "on_request (relative_route ?io) (set_request ?rq base) = (route, set_request rq1 base)"
    "on_request (request_method ?io) (set_request rq1 base) = (m, set_request rq2 base)"
    using r mr by (simp_all add: on_request_def set_request_def context_base.defs)
  note call = app_call_cases [OF this]
  show ?thesis
  proof (cases "path = []")
    case True
    then show ?thesis
      using route meth call new envp1 only_env_trans [OF route(3) meth(3)]
      by (intro exI [of _ rq2]) (simp add: path_def)
  next
    case False
    then show ?thesis
      using route call new envp1 by (intro exI [of _ rq1]) (simp add: path_def)
  qed
qed

section \<open>What the server adds\<close>

lemma status_of_answer:
  "served_body res [] = to_chars (uint (result_status res))"
  "served_defaults res [] =
    [(sym_Status, to_chars (uint (result_status res))), (sym_ContentType, ''text/plain'')]"
  by (simp_all add: served_body_def served_defaults_def served_status_def early_headers_def)

lemma unhandled_answer:
  fixes d :: mock_cgi
  assumes "\<And>hs. mset (order hs) = mset hs" "symtab_ok tab" "m_writebuf d = ''''"
    and "call_server_router (mock_io lm order) call r (set_request (request_new tab d lg) base) = (Inr res, cx)"
    and "only_env (request_new tab d lg) (cx_request cx)"
  shows "rq_headers_sent (handled_request (mock_io lm order) call r tid (set_request (request_new tab d lg) base)) \<and>
    (\<exists>hs. m_writebuf (rq_cgi (handled_request (mock_io lm order) call r tid
        (set_request (request_new tab d lg) base))) =
      concat (map (header_text tab) hs) @ crlf @ to_chars (uint (result_status res)) \<and>
    distinct (map fst hs) \<and>
    map_of hs = [sym_Status \<mapsto> to_chars (uint (result_status res)), sym_ContentType \<mapsto> ''text/plain''])"
proof -
  let ?io = "mock_io lm order"
  have io: "io_cgi ?io = mock_ops" "mset (io_order ?io hs) = mset hs" for hs
    using assms(1) by (simp_all add: mock_io_def)
  have usable: "headers_usable []" "early_headers [] = []"
    by (simp_all add: headers_usable_def early_headers_def)
  have "refines m_writebuf ?io tab (m_writebuf d) lg (cx_request cx) (fold re_step [] re_init)"
    using refines_only_env [OF assms(5) refines_new] by simp
  note handled = handled_request_written [OF io(1) mset_eq_setD [OF io(2)] assms(2) usable(1) assms(4) this, of tid]
  then obtain lg' rq where "rq_cgi (handled_request ?io call r tid (set_request (request_new tab d lg) base)) = rq_cgi rq"
    "refines m_writebuf ?io tab (m_writebuf d) lg' rq (fold re_step ([] @ added_calls res []) re_init)"
    by (auto simp: route_answer_def)
  with served_text [OF io(2) usable(1) assms(3) this(2)] handled show ?thesis
    by (auto simp: status_of_answer usable(2) fun_upd_twist sym_values)
qed

lemma unhandled_served:
  fixes srv :: "('c, 'r, 'u) server" and base :: "'u context_base"
  defines "base' \<equiv> base\<lparr>cx_global_context := srv_global_context srv\<rparr>"
  assumes "\<And>hs. mset (order hs) = mset hs" "symtab_ok (srv_syms srv)"
    and "call_server_router (mock_io lm order) call r
      (set_request (request_new (srv_syms srv) (mock_cgi_new input envp) (srv_logger srv)) base') = (Inr res, cx)"
    and "only_env (request_new (srv_syms srv) (mock_cgi_new input envp) (srv_logger srv)) (cx_request cx)"
  shows "\<exists>d' hs. fst (serve_request (mock_io lm order) finish_cgi call r tid (mock_cgi_new input envp) base srv) =
      finish_cgi d' \<and>
    m_writebuf d' = concat (map (header_text (srv_syms srv)) hs) @ crlf @ to_chars (uint (result_status res)) \<and>
    distinct (map fst hs) \<and>
    map_of hs = [sym_Status \<mapsto> to_chars (uint (result_status res)), sym_ContentType \<mapsto> ''text/plain'']"
proof -
  let ?rq = "handled_request (mock_io lm order) call r tid
    (set_request (request_new (srv_syms srv) (mock_cgi_new input envp) (srv_logger srv)) base')"
  have "m_writebuf (mock_cgi_new input envp) = ''''"
    by (simp add: mock_cgi_new_def)
  note answer = unhandled_answer [OF assms(2,3) this assms(4,5), of tid]
  then have "fst (serve_request (mock_io lm order) finish_cgi call r tid (mock_cgi_new input envp) base srv) =
      finish_cgi (rq_cgi ?rq)"
    unfolding base'_def by (intro serve_request_handled) blast
  with answer show ?thesis
    by blast
qed

text \<open>The page is complete when the handler returns; the server adds nothing.\<close>

lemma finish_sent:
  assumes "rq_headers_sent rq" "http_status rq \<noteq> ''''"
  shows "finish_response io res rq = rq"
  using assms by (simp add: finish_response_def ensure_status_def ensure_headers_def)

lemma page_answer:
  fixes envp :: "string list"
  assumes "\<And>hs. mset (order hs) = mset hs" "symtab_ok tab"
    and "only_env (request_new tab (mock_cgi_new input envp) lg) rq" "env_inv envp rq"
    and "\<not> rq_query_parsed rq" "rq_query rq = []"
    and "call_server_router (mock_io lm order) call r cx =
      call_endpoint (\<lambda>f. hello_world (mock_io lm order)) () (set_request rq base)"
  shows "rq_headers_sent (handled_request (mock_io lm order) call r tid cx) \<and>
    (\<exists>hs env. m_writebuf (rq_cgi (handled_request (mock_io lm order) call r tid cx)) =
      concat (map (header_text tab) hs) @ crlf @
      page_text (parse_query (env_value envp ''QUERY_STRING'')) env \<and>
    distinct (map fst hs) \<and>
    map_of hs = [sym_Status \<mapsto> ''200'', sym_ContentType \<mapsto> ''text/html''] \<and>
    map_of env = map_of (env_bindings envp))"
proof -
  let ?io = "mock_io lm order"
  let ?hs = "[(sym_ContentType, ''text/html''), (sym_Status, ''200'')]"
  let ?h = "send_headers ?io (snd (set_content_type ?io ''text/html'' rq))"
  have rq: "m_envp (rq_cgi rq) = envp" "m_writebuf (rq_cgi rq) = ''''" "\<not> rq_headers_sent rq" "rq_headers rq = []"
      "symtab_extends tab (rq_syms rq)"
    using assms(3) by (simp_all add: only_env_def request_new_def mock_cgi_new_def)
  from hello_output [of "set_request rq base" lm order] obtain rq' env where
    out: "hello_world ?io (set_request rq base) = (Inr (), (set_request rq base)\<lparr>cx_request := rq'\<rparr>)"
      "map_of env = map_of (env_bindings envp)"
      "m_writebuf (rq_cgi rq') = m_writebuf (rq_cgi ?h) @
        page_text (parse_query (env_value envp ''QUERY_STRING'')) env"
      "rq_headers_sent rq'" "rq_headers rq' = rq_headers ?h"
    using rq assms(4-6) by (auto simp: set_request_get)
  have typed: "snd (set_content_type ?io ''text/html'' rq) =
      rq\<lparr>rq_headers := [(sym_ContentType, ''text/html'')], rq_encoding := Some CE_HTML\<rparr>"
    using rq by (simp add: set_content_type_def set_content_type_encoding_def set_header_def
        detect_encoding_def umap_emplace_def)
  have hs: "umap_emplace sym_Status ''200'' [(sym_ContentType, ''text/html'')] = ?hs"
    by (simp add: umap_emplace_def sym_values)
  have valid: "headers_valid tab (order ?hs)"
    using builtin_symbols [OF assms(2)] mset_eq_setD [OF assms(1) [of ?hs]]
    by (auto simp: headers_valid_def)
  have io: "io_cgi ?io = mock_ops" "io_order ?io = order"
    by (simp_all add: mock_io_def)
  have head: "m_writebuf (rq_cgi ?h) = concat (map (header_text tab) (order ?hs)) @ crlf" "rq_headers ?h = ?hs"
    using mock_streams.send_headers_written [of ?io "snd (set_content_type ?io ''text/html'' rq)"]
      header_text_extends [OF rq(5) valid] rq
    by (simp_all add: typed hs io)
  have "http_status rq' = ''200''"
    by (simp add: http_status_def request_header_def out(5) head(2) sym_values)
  then have "handled_request ?io call r tid cx = log_request ?io rq'"
    using out(1,4) assms(7)
    by (simp add: handled_request_def route_request_def call_endpoint_def finish_sent)
  moreover have "distinct (map fst (order ?hs)) \<and> map_of (order ?hs) = map_of ?hs"
    using map_of_permuted [OF assms(1), of ?hs] by (simp add: sym_values)
  ultimately show ?thesis
    using out head by (auto simp: log_request_keeps sym_values intro!: exI [of _ "order ?hs"] exI [of _ env])
qed

section \<open>Properties\<close>

text \<open>C7: The example program from an accepted request to its response: on \<open>/\<close>, however many
  slashes it is written with, \<open>GET\<close> gets the page of the request's own query and environment,
  any other method gets 405, and any other path 404, whatever the rest of the environment is.\<close>

theorem example_answers:
  fixes srv :: "('c, unit, 'u) server"
  assumes "\<And>hs. mset (order hs) = mset hs" "symtab_ok (srv_syms srv)"
    and "length (env_bindings envp) \<le> st_room (srv_syms srv)"
  shows "\<exists>d' hs env. fst (serve_request (mock_io lm order) finish_cgi (app_call (mock_io lm order)) (Registered ()) tid
      (mock_cgi_new input envp) base srv) = finish_cgi d' \<and>
    m_writebuf d' = concat (map (header_text (srv_syms srv)) hs) @ crlf @
      (if parse_route (env_value envp ''DOCUMENT_URI'') \<noteq> [] then ''404''
       else if method_of (env_value envp ''REQUEST_METHOD'') \<noteq> GET then ''405''
       else page_text (parse_query (env_value envp ''QUERY_STRING'')) env) \<and>
    distinct (map fst hs) \<and>
    map_of hs =
      (if parse_route (env_value envp ''DOCUMENT_URI'') \<noteq> []
       then [sym_Status \<mapsto> ''404'', sym_ContentType \<mapsto> ''text/plain'']
       else if method_of (env_value envp ''REQUEST_METHOD'') \<noteq> GET
       then [sym_Status \<mapsto> ''405'', sym_ContentType \<mapsto> ''text/plain'']
       else [sym_Status \<mapsto> ''200'', sym_ContentType \<mapsto> ''text/html'']) \<and>
    map_of env = map_of (env_bindings envp)"
proof -
  let ?io = "mock_io lm order" and ?base = "base\<lparr>cx_global_context := srv_global_context srv\<rparr>"
  let ?cx = "set_request (request_new (srv_syms srv) (mock_cgi_new input envp) (srv_logger srv)) ?base"
  obtain rq where rq: "only_env (request_new (srv_syms srv) (mock_cgi_new input envp) (srv_logger srv)) rq"
      "env_inv envp rq" "\<not> rq_query_parsed rq" "rq_query rq = []"
    and call: "call_server_router ?io (app_call ?io) (Registered ()) ?cx =
      (if parse_route (env_value envp ''DOCUMENT_URI'') \<noteq> [] then (Inr NotFound, set_request rq ?base)
       else if method_of (env_value envp ''REQUEST_METHOD'') = GET
       then call_endpoint (\<lambda>f. hello_world ?io) () (set_request rq ?base)
       else (Inr InvalidMethod, set_request rq ?base))"
    using app_call_fresh [OF assms(2,3)] unfolding call_server_router_def by (simp only: server_router.case) blast
  note other = unhandled_served [OF assms(1,2), of lm "app_call ?io" "Registered ()" input envp base _
      "set_request rq ?base" finish_cgi tid, unfolded call set_request_get, OF _ rq(1)]
  have env: "\<exists>env. map_of env = map_of (env_bindings envp)"
    by blast
  consider (path) "parse_route (env_value envp ''DOCUMENT_URI'') \<noteq> []"
    | (meth) "parse_route (env_value envp ''DOCUMENT_URI'') = []" "method_of (env_value envp ''REQUEST_METHOD'') \<noteq> GET"
    | (page) "parse_route (env_value envp ''DOCUMENT_URI'') = []" "method_of (env_value envp ''REQUEST_METHOD'') = GET"
    by blast
  then show ?thesis
  proof cases
    case path
    with other [of NotFound, unfolded result_status_text] env show ?thesis
      by simp
  next
    case meth
    with other [of InvalidMethod, unfolded result_status_text] env show ?thesis
      by simp
  next
    case page
    then obtain hs env where "rq_headers_sent (handled_request ?io (app_call ?io) (Registered ()) tid ?cx)"
        "m_writebuf (rq_cgi (handled_request ?io (app_call ?io) (Registered ()) tid ?cx)) =
          concat (map (header_text (srv_syms srv)) hs) @ crlf @
          page_text (parse_query (env_value envp ''QUERY_STRING'')) env" "distinct (map fst hs)"
        "map_of hs = [sym_Status \<mapsto> ''200'', sym_ContentType \<mapsto> ''text/html'']"
        "map_of env = map_of (env_bindings envp)"
      using page_answer [OF assms(1,2) rq, of lm "app_call ?io" "Registered ()" ?cx ?base tid, unfolded call]
      by auto
    with page serve_request_handled [OF this(1)] show ?thesis
      by (intro exI [of _ "rq_cgi (handled_request ?io (app_call ?io) (Registered ()) tid ?cx)"] exI [of _ hs]
          exI [of _ env]) simp
  qed
qed

theorem example_answers_witness:
  "\<exists>d' hs. fst (serve_request (mock_io mock_log_message rev) (\<lambda>d. d)
      (app_call (mock_io mock_log_message rev)) (Registered ()) 1
      (mock_cgi_new '''' [''REQUEST_METHOD=PUT'', ''DOCUMENT_URI=//'']) context_new sample_server) = d' \<and>
    m_writebuf d' = concat (map (header_text boot_table) hs) @ crlf @ ''405'' \<and>
    map_of hs = [sym_Status \<mapsto> ''405'', sym_ContentType \<mapsto> ''text/plain'']"
proof -
  let ?envp = "[''REQUEST_METHOD=PUT'', ''DOCUMENT_URI=//'']"
  have read: "env_value ?envp ''DOCUMENT_URI'' = ''//''" "env_value ?envp ''REQUEST_METHOD'' = ''PUT''"
    by (simp_all add: env_value_def env_bindings_def before_split_takeWhile after_split_dropWhile)
  have "parse_route (env_value ?envp ''DOCUMENT_URI'') = []"
    "method_of (env_value ?envp ''REQUEST_METHOD'') \<noteq> GET"
    unfolding read by (simp_all add: parse_route_split method_of_def method_names_def)
  note read2 = this
  have room: "length (env_bindings ?envp) \<le> st_room boot_table"
    unfolding boot_room by (simp add: env_bindings_def)
  note answer = example_answers [of rev sample_server ?envp mock_log_message "\<lambda>d. d" 1 "''''" context_new,
      unfolded sample_server_simps, OF mset_rev symtab_ok_boot room]
  show ?thesis
    using answer read2 by (elim exE conjE) (intro exI conjI; simp only: simp_thms if_True if_False)
qed

end
