(* ===== verification/Spec2Isabelle.thy ===== *)
theory Spec2Isabelle
  imports SymbolRace SymbolVariables RouterThreads GlobalContext Shutdown Example
begin

text \<open>
  A model of \<open>fcgiserver\<close>, a C++ library for FastCGI programs: a server with worker
  threads, routers that find a handler for a path and method, requests that read their
  environment and write a response, formatters that escape what is written, a logger, and a
  table of interned strings that all of them share.  The code is in \<open>src/src/lib\<close>, the example
  program in \<open>src/src/main\<close>; file names below are relative to these directories.

  \<^bold>\<open>How the program works.\<close>  The program creates a \<open>Server\<close> over a log callback, gives it a
  router and lets it open a socket and start threads.  Thread 0 only wakes the others in turn;
  each worker accepts a request from libfcgi, makes a \<open>Request\<close> over it, asks the server's
  router, sets a status and a body if the router did not, and destroys the request, which
  sends what is still missing.  A \<open>Router\<close> is a tree of path components; a node holds handlers
  by method and perhaps another router, which is asked with the rest of the path.  Header
  names, path components and the names of environment variables are \<open>Symbol\<close>s, numbers of the
  process's \<open>SymbolServer\<close>.  All output to a client goes through a \<open>GenericFormatter\<close>.

  \<^bold>\<open>The theories.\<close>

  \<^item> \<open>Prelude\<close>: the integer types of the code as words, \<open>char\<close> as a byte, the searches and cuts
    of \<open>std::string_view\<close>, \<open>std::to_chars\<close>, and \<open>std::map\<close> and \<open>std::unordered_map\<close> as
    association lists, the first one sorted (locale \<open>keyed_order\<close>).
  \<^item> \<open>Utf8\<close>: \<open>utils.cpp\<close>.  The decoder is a state machine on bytes as in the code, on 8- and
    32-bit words; it is proved equal to a decoder that takes whole sequences.
  \<^item> \<open>SymbolTable\<close>: \<open>symbol_server.cpp\<close>, \<open>symbol.cpp\<close>, \<open>symbol.h\<close>, \<open>symbols.cpp\<close>.  The state is the
    vector of strings and the index; \<open>internalize\<close> is its two critical sections one after the
    other.  The locale \<open>interner\<close> is what the other theories use of it.  \<open>boot_table\<close> is the
    table after static initialisation, with the built-in symbols 1 to 26.
  \<^item> \<open>SymbolRace\<close>: the same critical sections as steps of any number of threads.
  \<^item> \<open>SymbolVariables\<close>: the class \<open>Symbol\<close> as variables of a program, with its constructors,
    assignments, comparisons and hash, next to the same program over strings.
  \<^item> \<open>Formatter\<close>: \<open>generic_formatter.cpp\<close>, \<open>line_formatter.cpp\<close>.  An insertion is the list of strings
    handed to \<open>real_append\<close>, with a flag that records a write past a buffer or a read beyond what is
    stored in it; \<open>vsnprintf\<close> gets its buffer's size and the size it is told apart.  The locale \<open>text_sink\<close> is the contract of \<open>real_append\<close>.
  \<^item> \<open>Logger\<close>: \<open>logger.cpp\<close>, \<open>console_log_callback.cpp\<close>, \<open>test_mock_logger.cpp\<close>; locale \<open>log_sink\<close>.
  \<^item> \<open>CgiData\<close>: the virtual interface of \<open>i_cgi_data.h\<close> as a record of functions, with the
    libfcgi implementation of \<open>fast_cgi_data.cpp\<close> and the one in memory of
    \<open>test_mock_cgi_data.cpp\<close>; the locale \<open>cgi_streams\<close> says what a writing implementation does.
  \<^item> \<open>RequestText\<close>: the parsing loops of \<open>request.cpp\<close> (path, query string, percent decoding,
    port number, flags).
  \<^item> \<open>Request\<close>: the rest of \<open>request.cpp\<close> and \<open>request.h\<close>.  The record \<open>request\<close> has the fields of
    \<open>RequestPrivate\<close>; the table of symbols, the logger's state and the CGI data are fields too,
    since the operations change them.
  \<^item> \<open>Response\<close>: sequences of calls of a request and the small machine they refine.
  \<^item> \<open>RequestStream\<close>: \<open>request_stream.cpp\<close>, formatted output to the body or the error channel.
  \<^item> \<open>Context\<close>: \<open>request_context.cpp\<close>, \<open>request_context_private.h\<close>, \<open>user_context.cpp\<close>.
  \<^item> \<open>Routing\<close>: \<open>router.cpp\<close>, with the tree as a datatype and the registration and the dispatch
    as in the code; \<open>RouteTable\<close>: what a tree means and that registration implements it;
    \<open>Dispatch\<close>: dispatch without mounted routers; \<open>Mounting\<close>: dispatch with routers in routers
    (locale \<open>sub_router\<close>, interpreted for a tree of \<open>Router\<close> objects of any depth).
    \<open>SharedRouter\<close>: one router between threads, with \<open>route_mutex\<close> and the walk in steps, and the
    invariant; \<open>RouterThreads\<close>: what its threads can rely on.
  \<^item> \<open>Server\<close>: \<open>server.cpp\<close> and \<open>i_log_callback.cpp\<close>; \<open>Serving\<close>: what a worker does for a request;
    \<open>Threads\<close>: the list of threads, the order of the ticks and the socket over the server's life.
  \<^item> \<open>Workers\<close>: the loop of \<open>thread_function\<close> cut into steps, for any number of workers and any
    order of their steps, with the two signals and the return of \<open>FCGX_Accept_r\<close> as events; a
    worker alone is proved to do what \<open>worker_loop\<close> of \<open>Server\<close> says.  \<open>GlobalContext\<close>: the context
    that the workers share through the server.
  \<^item> \<open>Maintenance\<close>: all threads of a server, with the lock of the list of threads:
    \<open>thread_tick_function\<close> step by step against \<open>add_threads\<close> and \<open>kill_threads\<close>, with the signal masks and
    handlers, and the workers of \<open>Workers\<close> that get these signals and are joined.  \<open>Shutdown\<close>:
    what \<open>kill_threads\<close> waits for.
  \<^item> \<open>App\<close>: \<open>main.cpp\<close>, with the page its handler writes and the run of \<open>main\<close>; \<open>Example\<close>: what
    the program answers to a request, from the worker through the router to the handler.

  \<^bold>\<open>What is proved.\<close>

  \<^item> Requests.  Any sequence of calls yields one header block and then the body, with every
    header once and its first value (\<open>Response\<close>); the server turns every answer and every
    exception of a router into such a response (\<open>Serving\<close>).  The lazily filled environment,
    query and route agree with the environment and are not read twice (\<open>Request\<close>).
  \<^item> Routing.  The tree refines a table from paths and methods to handlers under any sequence of
    registrations and removals; dispatch calls the handler the table selects; mounted routers
    are asked from the root down and leave the request as it was when they decline; nested
    dispatch ends.  Between threads a request sees the tree as it was when it took the mutex,
    and no thread is stuck unless a handler, the router's own or one of a router mounted in it,
    changes the router that is handling its request, which blocks.
  \<^item> Text.  The decoder and encoder are inverse on valid text and equal to a reference; the
    formatter never overruns its buffers, strings in its HTML output make no tags; paths and
    queries are read back as they were printed.
  \<^item> Symbols.  Two symbols are equal exactly when their strings are, under any interleaving;
    variables that hold symbols behave like variables that hold strings.
  \<^item> Logging.  A message is cut into its lines, trimmed and recorded in order; non-ASCII bytes at
    the end of a line are lost.
  \<^item> Threads.  Numbers are unique, workers are woken in turn, every thread started is told to
    stop and waited for, the socket is closed once.  A request is answered completely whatever
    the other workers do; a worker told to stop ends after four steps of its own, unless the
    signal comes in the window before the accepting call, where it may block.  The list of
    threads is used by one thread at a time.  When \<open>kill_threads\<close> has signalled a maintenance thread
    that has had its first lock, the threads it waits for have eight steps each at most and can make
    them, except a worker whose signal came in that window, for which it waits until a request
    comes; when it comes before the first lock it never returns.  Workers write back the shared
    contexts that handlers replaced and no others, so the last is the server's, and overlapping
    replacements can be lost.
  \<^item> The example program.  \<open>GET\<close> on \<open>/\<close> gets the page of its query and environment, other methods
    405, other paths 404 (\<open>Example\<close>).

  \<^bold>\<open>Errors and exceptions.\<close>  A handler or router answers an \<open>outcome\<close>, an exception or a result
  together with the state it left.  A null \<open>write_stream\<close> and a null router are \<open>None\<close>.

  \<^bold>\<open>Bounds and fuel.\<close>  Words wrap as in the code; a theorem that needs room for more symbols
  says so with \<open>st_room\<close>, the numbers a 32-bit symbol has left.  Loops over text recurse on
  what is left.  \<open>call_irouter\<close> calls a router by its handle and routers can contain each other,
  so it takes fuel; \<open>nested_routing_terminates\<close> gives an amount that is enough whenever no router
  is reached at its own root again.  The loop of a worker recurses over the list of what the
  accepting call returns round by round.

  \<^bold>\<open>Parameters.\<close>  The functions of libfcgi (\<open>fcgx\<close> in \<open>CgiData\<close>, \<open>platform\<close> in \<open>Server\<close>), the
  expansion that \<open>vsnprintf\<close> makes of a format, the digits \<open>std::to_chars\<close> chooses for a \<open>float\<close>
  or \<open>double\<close>, \<open>localtime_r\<close>, \<open>sigwait\<close>, \<open>strerror\<close>, the log callback, the order in which
  the hash map of headers is traversed (a permutation), handlers and the \<open>IRouter\<close>s of the user.
  Plain \<open>char\<close> is signed, as on the usual targets, where the code compares one.

  \<^bold>\<open>Atomicity.\<close>  Each operation of a router, of the logger and of the symbol table is one step,
  as its mutex makes it, except that \<open>SymbolRace\<close> splits \<open>internalize\<close> at the point where it
  changes locks, and that \<open>SharedRouter\<close> takes a router's operations apart; \<open>RouterThreads\<close> proves
  that a request may be taken as one step.  There handlers and
  mounted routers are only what they answer, throw or change in this router; that they come back
  otherwise is not claimed, and that they dispatch another request with the same router, which
  locks a mutex again that the thread holds, is not modelled.  Of the request only its method and
  path are kept.  A round of a worker is one step in \<open>Server\<close> and \<open>Serving\<close>; in \<open>Workers\<close> and
  \<open>Maintenance\<close> it is six, of which the one that handles a request has the table of symbols and the
  log to itself.  In \<open>Maintenance\<close> the mutex of the list of threads is part of the state: taking it,
  the work under it and giving it back are steps, and the steps of the other threads come
  between them.

  \<^bold>\<open>Not modelled.\<close>  How long a sleep takes, which thread the scheduler runs next and the memory
  the objects occupy; debug assertions; \<open>fcgiserver.h\<close> and \<open>fcgiserver_defs.h\<close>, which only include and export.  The tests are not part of the model, but their mock logger and mock CGI data are,
  since they are the implementations the properties run on.
\<close>

end
